(* ===== verification/Py_Base.thy ===== *)
theory Py_Base
  imports Main "HOL-Library.Word" "HOL-Library.AList"
begin

text \<open>
  The prelude: the part of Python the program is written in. It holds the exceptions the code
  can raise, the result type of a call that may raise, the values the program stores and
  sends, dictionaries in insertion order, list indexing with Python's negative indices, and the
  first-in-first-out interface that the program's message queues share.

  \<^item> A \<open>bytes\<close> object is a list of 8-bit words.
  \<^item> A \<open>str\<close> is the list of its code points (natural numbers), because the program's length
    checks count code points while the wire format counts bytes.
  \<^item> A call that may raise has a result in \<open>pyexn + 'a\<close>; a method that changes its object
    before it raises returns the changed object beside the result.
\<close>

section \<open>Exceptions and results\<close>

datatype pyexn =
    KeyError | IndexError | TypeError | ValueError | AttributeError | OverflowError
  | ZeroDivisionError | UnicodeEncodeError | UnicodeDecodeError | JSONDecodeError
  | MalformedMessage | ConnectionError string | DBException
  | ProtocolException string | PyException string

type_synonym 'a res = "pyexn + 'a"

definition bindE :: "'e + 'a \<Rightarrow> ('a \<Rightarrow> 'e + 'b) \<Rightarrow> 'e + 'b" where
  "bindE r f = (case r of Inl e \<Rightarrow> Inl e | Inr x \<Rightarrow> f x)"

text \<open>A \<open>for\<close> loop over a list whose body may raise.\<close>

fun foldE :: "('a \<Rightarrow> 's \<Rightarrow> 'e + 's) \<Rightarrow> 'a list \<Rightarrow> 's \<Rightarrow> 'e + 's" where
  "foldE f [] s = Inr s"
| "foldE f (x # xs) s = bindE (f x s) (foldE f xs)"

definition of_option :: "'e \<Rightarrow> 'a option \<Rightarrow> 'e + 'a" where
  "of_option e r = (case r of None \<Rightarrow> Inl e | Some x \<Rightarrow> Inr x)"

lemma bindE_simps [simp]:
  "bindE (Inl e) f = Inl e"
  "bindE (Inr x) f = f x"
  by (simp_all add: bindE_def)

lemma bindE_eq_Inr: "bindE r f = Inr y \<longleftrightarrow> (\<exists>x. r = Inr x \<and> f x = Inr y)"
  by (cases r) simp_all

lemma bindE_eq_Inl: "bindE r f = Inl e \<longleftrightarrow> r = Inl e \<or> (\<exists>x. r = Inr x \<and> f x = Inl e)"
  by (cases r) simp_all

lemma bindE_assoc: "bindE (bindE r f) g = bindE r (\<lambda>x. bindE (f x) g)"
  by (cases r) simp_all

lemma of_option_simps [simp]:
  "of_option e None = Inl e"
  "of_option e (Some x) = Inr x"
  by (simp_all add: of_option_def)

lemma of_option_eq_Inr [simp]: "of_option e r = Inr x \<longleftrightarrow> r = Some x"
  by (cases r) simp_all

text \<open>The loop rule: an invariant that every turn keeps, on a body that does not raise.\<close>

lemma foldE_inv:
  assumes "P s"
    and "\<And>x t. x \<in> set xs \<Longrightarrow> P t \<Longrightarrow> \<exists>t'. f x t = Inr t' \<and> P t'"
  shows "\<exists>s'. foldE f xs s = Inr s' \<and> P s'"
  using assms
proof (induction xs arbitrary: s)
  case Nil
  then show ?case by simp
next
  case (Cons x xs)
  from Cons.prems(2) [of x s] Cons.prems(1) obtain t where t: "f x s = Inr t" "P t"
    by auto
  from Cons.IH [OF t(2)] Cons.prems(2) have "\<exists>s'. foldE f xs t = Inr s' \<and> P s'"
    by simp
  with t(1) show ?case by simp
qed

text \<open>The loop rule with a growing set: each turn adds at least its own part.\<close>

lemma foldE_covers:
  assumes "I s"
    and "\<And>x t. x \<in> set xs \<Longrightarrow> I t \<Longrightarrow> \<exists>t'. f x t = Inr t' \<and> I t' \<and> D t \<subseteq> D t' \<and> Q x \<subseteq> D t'"
  shows "\<exists>s'. foldE f xs s = Inr s' \<and> I s' \<and> D s \<subseteq> D s' \<and> (\<Union>x \<in> set xs. Q x) \<subseteq> D s'"
  using assms
proof (induction xs arbitrary: s)
  case Nil
  then show ?case by simp
next
  case (Cons x xs)
  from Cons.prems(2) [of x s] Cons.prems(1)
  obtain t where t: "f x s = Inr t" "I t" "D s \<subseteq> D t" "Q x \<subseteq> D t" by auto
  from Cons.IH [OF t(2)] Cons.prems(2)
  obtain s' where "foldE f xs t = Inr s'" "I s'" "D t \<subseteq> D s'" "(\<Union>x \<in> set xs. Q x) \<subseteq> D s'" by auto
  with t show ?case by auto
qed

lemma foldE_append: "foldE f (xs @ ys) s = bindE (foldE f xs s) (foldE f ys)"
proof (induction xs arbitrary: s)
  case Nil
  show ?case by simp
next
  case (Cons x xs)
  then show ?case by (cases "f x s") simp_all
qed

section \<open>Bytes, strings and values\<close>

type_synonym byte = "8 word"
type_synonym bytes = "byte list"
type_synonym pystr = "nat list"

text \<open>An ASCII literal of the source as a \<open>str\<close> and as \<open>bytes\<close>.\<close>

definition str :: "string \<Rightarrow> pystr" where
  "str s = map of_char s"

definition lit :: "string \<Rightarrow> bytes" where
  "lit s = map of_char s"

lemma str_eq_iff [simp]: "str s = str t \<longleftrightarrow> s = t"
  by (auto simp: str_def inj_map_eq_map inj_def)

lemma length_str [simp]: "length (str s) = length s"
  by (simp add: str_def)

lemma length_lit [simp]: "length (lit s) = length s"
  by (simp add: lit_def)

lemma str_Nil [simp]: "str s = [] \<longleftrightarrow> s = []"
  by (simp add: str_def)

text \<open>
  The values the program builds, stores and sends. Tuples and lists are both \<open>PList\<close> (the
  program only iterates over them, and JSON does not tell them apart). A float literal that
  arrives in a message is kept as its text: the program never computes with one.
\<close>

datatype pyval =
    PNone
  | PBool bool
  | PInt int
  | PFloat pystr
  | PStr pystr
  | PBytes bytes
  | PList "pyval list"
  | PDict "(pystr \<times> pyval) list"

type_synonym dict = "(pystr \<times> pyval) list"

text \<open>Truth value testing, as in \<open>if not r.data["ack"]\<close>.\<close>

fun truthy :: "pyval \<Rightarrow> bool" where
  "truthy PNone = False"
| "truthy (PBool b) = b"
| "truthy (PInt i) = (i \<noteq> 0)"
| "truthy (PFloat _) = True"
| "truthy (PStr s) = (s \<noteq> [])"
| "truthy (PBytes b) = (b \<noteq> [])"
| "truthy (PList xs) = (xs \<noteq> [])"
| "truthy (PDict d) = (d \<noteq> [])"

section \<open>Dictionaries in insertion order\<close>

text \<open>
  A Python dictionary remembers the order of insertion, assignment to a present key keeps its
  place, and \<open>json.dumps\<close> writes the entries in that order: so a dictionary is an
  association list with distinct keys. \<open>AList.update\<close> is assignment, \<open>AList.delete\<close> removes.
\<close>

definition dget :: "dict \<Rightarrow> pystr \<Rightarrow> pyval res" where
  "dget d k = of_option KeyError (map_of d k)"

definition dset :: "'k \<Rightarrow> 'v \<Rightarrow> ('k \<times> 'v) list \<Rightarrow> ('k \<times> 'v) list" where
  "dset k v d = AList.update k v d"

lemma update_new: "u \<notin> fst ` set xs \<Longrightarrow> AList.update u v xs = xs @ [(u, v)]"
  by (induction xs) auto

lemma dset_new: "k \<notin> fst ` set d \<Longrightarrow> dset k v d = d @ [(k, v)]"
  by (simp add: dset_def update_new)

definition dpop :: "'k \<Rightarrow> ('k \<times> 'v) list \<Rightarrow> ('v \<times> ('k \<times> 'v) list) res" where
  "dpop k d = (case map_of d k of None \<Rightarrow> Inl KeyError | Some v \<Rightarrow> Inr (v, AList.delete k d))"

definition dupdate :: "('k \<times> 'v) list \<Rightarrow> ('k \<times> 'v) list \<Rightarrow> ('k \<times> 'v) list" where
  "dupdate d e = fold (\<lambda>(k, v). dset k v) e d"

definition dkeys :: "('k \<times> 'v) list \<Rightarrow> 'k list" where
  "dkeys d = map fst d"

definition wf_dict :: "('k \<times> 'v) list \<Rightarrow> bool" where
  "wf_dict d \<longleftrightarrow> distinct (dkeys d)"

lemma map_of_dset [simp]: "map_of (dset k v d) = (map_of d)(k \<mapsto> v)"
  by (simp add: dset_def update_conv')

lemma wf_dset [simp, intro]: "wf_dict d \<Longrightarrow> wf_dict (dset k v d)"
  by (simp add: wf_dict_def dkeys_def dset_def distinct_update)

lemma wf_delete [simp, intro]: "wf_dict d \<Longrightarrow> wf_dict (AList.delete k d)"
  by (simp add: wf_dict_def dkeys_def distinct_delete)

lemma wf_dict_Nil [simp]: "wf_dict []"
  by (simp add: wf_dict_def dkeys_def)

lemma wf_dict_Cons [simp]: "wf_dict ((k, v) # d) \<longleftrightarrow> map_of d k = None \<and> wf_dict d"
  by (auto simp: wf_dict_def dkeys_def map_of_eq_None_iff)

lemma dset_fresh: "map_of d k = None \<Longrightarrow> dset k v d = d @ [(k, v)]"
  by (induction d) (auto simp: dset_def split: if_splits)

lemma dset_absent_delete: "map_of d k = None \<Longrightarrow> AList.delete k (d @ [(k, v)]) = d"
  by (induction d) (auto split: if_splits)

lemma dpop_dset_fresh:
  "map_of d k = None \<Longrightarrow> dpop k (dset k v d) = Inr (v, d)"
  by (simp add: dpop_def) (simp add: dset_fresh dset_absent_delete)

lemma wf_dupdate [simp, intro]: "wf_dict d \<Longrightarrow> wf_dict (dupdate d e)"
  by (induction e arbitrary: d) (auto simp: dupdate_def)

lemma map_of_dupdate: "wf_dict e \<Longrightarrow> map_of (dupdate d e) = map_of d ++ map_of e"
proof (induction e arbitrary: d)
  case Nil
  then show ?case by (simp add: dupdate_def)
next
  case (Cons kv e)
  obtain k v where kv: "kv = (k, v)" by (cases kv)
  with Cons.prems have k: "map_of e k = None" and wf: "wf_dict e" by simp_all
  have "dupdate d (kv # e) = dupdate (dset k v d) e"
    by (simp add: kv dupdate_def)
  then have "map_of (dupdate d (kv # e)) = map_of (dset k v d) ++ map_of e"
    using Cons.IH [OF wf, of "dset k v d"] by (simp only:)
  also have "\<dots> = map_of d ++ map_of (kv # e)"
    using k by (auto simp: kv fun_eq_iff map_add_def split: option.splits)
  finally show ?case .
qed

section \<open>List indexing\<close>

text \<open>Python's index: a negative one counts from the end, out of range raises.\<close>

definition py_index :: "nat \<Rightarrow> int \<Rightarrow> nat option" where
  "py_index n i = (let j = (if i < 0 then int n + i else i)
     in if 0 \<le> j \<and> j < int n then Some (nat j) else None)"

definition py_get :: "'a list \<Rightarrow> int \<Rightarrow> 'a res" where
  "py_get xs i = (case py_index (length xs) i of None \<Rightarrow> Inl IndexError | Some j \<Rightarrow> Inr (xs ! j))"

definition py_set :: "'a list \<Rightarrow> int \<Rightarrow> 'a \<Rightarrow> 'a list res" where
  "py_set xs i v =
     (case py_index (length xs) i of None \<Rightarrow> Inl IndexError | Some j \<Rightarrow> Inr (xs[j := v]))"

definition py_pop :: "'a list \<Rightarrow> int \<Rightarrow> ('a \<times> 'a list) res" where
  "py_pop xs i = (case py_index (length xs) i of
     None \<Rightarrow> Inl IndexError
   | Some j \<Rightarrow> Inr (xs ! j, take j xs @ drop (Suc j) xs))"

lemma py_index_less: "py_index n i = Some j \<Longrightarrow> j < n"
  by (auto simp: py_index_def Let_def split: if_splits)

lemma py_index_nonneg: "0 \<le> i \<Longrightarrow> i < int n \<Longrightarrow> py_index n i = Some (nat i)"
  by (simp add: py_index_def)

lemma py_pop_length: "py_pop xs i = Inr (x, ys) \<Longrightarrow> length xs = Suc (length ys)"
  by (auto simp: py_pop_def dest: py_index_less split: option.splits)

section \<open>Queues\<close>

text \<open>
  The program keeps several first-in-first-out queues (the connection's inbound messages, the
  mailbox, the per-peer control messages). The contract: what a queue holds is a list, putting
  appends, taking removes the oldest. The clients' lemmas are proved here once.
\<close>

locale fifo =
  fixes contents :: "'q \<Rightarrow> 'm list"
    and put :: "'m \<Rightarrow> 'q \<Rightarrow> 'q"
    and take_one :: "'q \<Rightarrow> ('m \<times> 'q) option"
  assumes put_contents: "contents (put m q) = contents q @ [m]"
    and take_none: "contents q = [] \<Longrightarrow> take_one q = None"
    and take_some: "contents q = m # ms \<Longrightarrow> \<exists>q'. take_one q = Some (m, q') \<and> contents q' = ms"
begin

primrec put_all :: "'m list \<Rightarrow> 'q \<Rightarrow> 'q" where
  "put_all [] q = q"
| "put_all (m # ms) q = put_all ms (put m q)"

primrec take_n :: "nat \<Rightarrow> 'q \<Rightarrow> 'm list \<times> 'q" where
  "take_n 0 q = ([], q)"
| "take_n (Suc n) q = (case take_one q of
     None \<Rightarrow> ([], q)
   | Some (m, q') \<Rightarrow> (let (ms, q'') = take_n n q' in (m # ms, q'')))"

lemma contents_put_all: "contents (put_all ms q) = contents q @ ms"
  by (induction ms arbitrary: q) (simp_all add: put_contents)

lemma take_n_contents:
  "fst (take_n n q) = take n (contents q) \<and> contents (snd (take_n n q)) = drop n (contents q)"
proof (induction n arbitrary: q)
  case 0
  show ?case by simp
next
  case (Suc n)
  show ?case
  proof (cases "contents q")
    case Nil
    then show ?thesis by (simp add: take_none)
  next
    case (Cons m ms)
    from take_some [OF Cons] obtain q' where q': "take_one q = Some (m, q')" "contents q' = ms"
      by blast
    with Suc.IH [of q'] Cons show ?thesis
      by (simp add: case_prod_beta)
  qed
qed

text \<open>Whatever was put into an empty queue comes out, all of it, in the order it was put.\<close>

lemma fifo_order:
  assumes "contents q = []"
  shows "fst (take_n (length ms) (put_all ms q)) = ms"
  using assms by (simp add: take_n_contents contents_put_all)

lemma take_conserves:
  "fst (take_n n q) @ contents (snd (take_n n q)) = contents q"
  by (simp add: take_n_contents)

end

text \<open>
  A buffer that is emptied in one go, under any interleaving of deposits and collections: every
  message is collected exactly once, in order.
\<close>

datatype 'm buffer_op = Deposit 'm | Drain

locale buffer =
  fixes contents :: "'q \<Rightarrow> 'm list"
    and put :: "'m \<Rightarrow> 'q \<Rightarrow> 'q"
    and drain :: "'q \<Rightarrow> 'm list \<times> 'q"
  assumes put_keeps: "contents (put m q) = contents q @ [m]"
    and drain_all: "fst (drain q) = contents q"
    and drain_empties: "contents (snd (drain q)) = []"
begin

fun run_ops :: "'m buffer_op list \<Rightarrow> 'q \<Rightarrow> 'm list \<times> 'q" where
  "run_ops [] q = ([], q)"
| "run_ops (Deposit m # ops) q = run_ops ops (put m q)"
| "run_ops (Drain # ops) q = (let (ms, q') = drain q; (ms', q'') = run_ops ops q' in (ms @ ms', q''))"

fun deposits :: "'m buffer_op list \<Rightarrow> 'm list" where
  "deposits [] = []"
| "deposits (Deposit m # ops) = m # deposits ops"
| "deposits (Drain # ops) = deposits ops"

lemma exactly_once: "fst (run_ops ops q) @ contents (snd (run_ops ops q)) = contents q @ deposits ops"
proof (induction ops q rule: run_ops.induct)
  case (3 ops q)
  obtain ms q' where d: "drain q = (ms, q')" by (cases "drain q")
  with 3 [OF d [symmetric]] drain_all [of q] drain_empties [of q] show ?case
    by (simp add: case_prod_beta)
qed (simp_all add: put_keeps)

end

text \<open>A queue read until it is empty is such a buffer.\<close>

sublocale fifo \<subseteq> drained: buffer contents put "\<lambda>q. take_n (length (contents q)) q"
  by unfold_locales (simp_all add: put_contents take_n_contents)

end
