(* ===== verification/Ecc.thy ===== *)
theory Ecc
  imports Py_Base "HOL-Library.FuncSet"
begin

text \<open>
  \<^verbatim>\<open>qchat/ecc.py\<close>: the parity-check matrices, syndromes, the syndrome table that the
  Golay code builds for all error patterns of one, two and three bits, and syndrome decoding.
  The numpy row and column matrices are integer lists; a shape mismatch is \<open>ValueError\<close>. The
  table's values are kept as the row they broadcast to (the code stores a one-element tuple
  holding the row, and a flat tuple for the zero pattern).
\<close>

section \<open>Matrices and syndromes\<close>

type_synonym vec = "int list"

definition H_Golay :: "vec list" where
  "H_Golay = [
     [1, 0, 0, 1, 1, 1, 0, 0, 0, 1, 1, 1, 1, 0, 0, 0, 0, 0, 0, 0, 0, 0, 0],
     [1, 0, 1, 0, 1, 1, 0, 1, 1, 0, 0, 1, 0, 1, 0, 0, 0, 0, 0, 0, 0, 0, 0],
     [1, 0, 1, 1, 0, 1, 1, 0, 1, 0, 1, 0, 0, 0, 1, 0, 0, 0, 0, 0, 0, 0, 0],
     [1, 0, 1, 1, 1, 0, 1, 1, 0, 1, 0, 0, 0, 0, 0, 1, 0, 0, 0, 0, 0, 0, 0],
     [1, 1, 0, 0, 1, 1, 1, 0, 1, 1, 0, 0, 0, 0, 0, 0, 1, 0, 0, 0, 0, 0, 0],
     [1, 1, 0, 1, 0, 1, 1, 1, 0, 0, 0, 1, 0, 0, 0, 0, 0, 1, 0, 0, 0, 0, 0],
     [1, 1, 0, 1, 1, 0, 0, 1, 1, 0, 1, 0, 0, 0, 0, 0, 0, 0, 1, 0, 0, 0, 0],
     [1, 1, 1, 0, 0, 1, 0, 1, 0, 1, 1, 0, 0, 0, 0, 0, 0, 0, 0, 1, 0, 0, 0],
     [1, 1, 1, 0, 1, 0, 1, 0, 0, 0, 1, 1, 0, 0, 0, 0, 0, 0, 0, 0, 1, 0, 0],
     [1, 1, 1, 1, 0, 0, 0, 0, 1, 1, 0, 1, 0, 0, 0, 0, 0, 0, 0, 0, 0, 1, 0],
     [0, 1, 1, 1, 1, 1, 1, 1, 1, 1, 1, 1, 0, 0, 0, 0, 0, 0, 0, 0, 0, 0, 1]]"

definition H_Hamming :: "vec list" where
  "H_Hamming = [
     [1, 0, 1, 0, 1, 0, 1],
     [0, 1, 1, 0, 0, 1, 1],
     [0, 0, 0, 1, 1, 1, 1]]"

definition dot :: "vec \<Rightarrow> vec \<Rightarrow> int" where
  "dot r v = sum_list (map2 (*) r v)"

text \<open>\<open>H*v\<close> for a column \<open>v\<close>, then \<open>% 2\<close> and \<open>reshape(1, 11)\<close>.\<close>

definition mat_vec :: "vec list \<Rightarrow> vec \<Rightarrow> vec res" where
  "mat_vec H v = (if list_all (\<lambda>r. length r = length v) H
     then Inr (map (\<lambda>r. dot r v) H) else Inl ValueError)"

definition getSyndrome :: "vec list \<Rightarrow> vec \<Rightarrow> vec res" where
  "getSyndrome H v = bindE (mat_vec H v) (\<lambda>s.
     let t = map (\<lambda>x. x mod 2) s in if length t = 11 then Inr t else Inl ValueError)"

definition eVect :: "nat \<Rightarrow> int \<Rightarrow> vec res" where
  "eVect n position = py_set (replicate n 0) (- position) 1"

text \<open>Broadcasting addition of two rows.\<close>

definition np_add :: "vec \<Rightarrow> vec \<Rightarrow> vec res" where
  "np_add a b = (if length a = length b then Inr (map2 (+) a b)
     else if length a = 1 then Inr (map ((+) (hd a)) b)
     else if length b = 1 then Inr (map (\<lambda>x. x + hd b) a)
     else Inl ValueError)"

section \<open>The code objects\<close>

record ecc =
  codeword_length :: nat
  ecc_H :: "vec list"
  dict_H :: "vec \<rightharpoonup> vec"

function range_step :: "nat \<Rightarrow> nat \<Rightarrow> nat \<Rightarrow> nat list" where
  "range_step i m n = (if n = 0 \<or> m \<le> i then [] else i # range_step (i + n) m n)"
  by pat_completeness auto
termination by (relation "measure (\<lambda>(i, m, n). m - i)") auto

declare range_step.simps [simp del]

definition chunk :: "ecc \<Rightarrow> 'a list \<Rightarrow> 'a list list" where
  "chunk e x = map (\<lambda>i. take (codeword_length e) (drop i x)) (range_step 0 (length x) (codeword_length e))"

definition encode :: "ecc \<Rightarrow> vec \<Rightarrow> vec res" where
  "encode e x = (if length x = codeword_length e then getSyndrome (ecc_H e) x else Inl ValueError)"

definition decode :: "ecc \<Rightarrow> vec \<Rightarrow> vec \<Rightarrow> vec res" where
  "decode e x s =
     (if length x \<noteq> codeword_length e then Inl ValueError
      else bindE (getSyndrome (ecc_H e) x) (\<lambda>s_hat.
           bindE (np_add s s_hat) (\<lambda>sum.
           bindE (of_option KeyError (dict_H e (map (\<lambda>a. a mod 2) sum))) (\<lambda>em.
           bindE (np_add x em) (\<lambda>xm. Inr (map (\<lambda>a. a mod 2) xm))))))"

text \<open>\<open>self.dict_H[self.encode(v)] = v\<close>\<close>

definition store :: "vec \<Rightarrow> ecc \<Rightarrow> ecc res" where
  "store v e = bindE (encode e v) (\<lambda>s. Inr (e\<lparr>dict_H := (dict_H e)(s \<mapsto> v)\<rparr>))"

definition golay_shell :: ecc where
  "golay_shell = \<lparr>codeword_length = 23, ecc_H = H_Golay,
     dict_H = [replicate 11 0 \<mapsto> replicate 23 0]\<rparr>"

definition golay_three :: "vec \<Rightarrow> int \<Rightarrow> ecc \<Rightarrow> ecc res" where
  "golay_three v_ij k e = bindE (eVect 23 k) (\<lambda>vk. bindE (np_add v_ij vk) (\<lambda>v_ijk. store v_ijk e))"

definition golay_two :: "vec \<Rightarrow> int \<Rightarrow> ecc \<Rightarrow> ecc res" where
  "golay_two vi j e = bindE (eVect 23 j) (\<lambda>vj. bindE (np_add vi vj) (\<lambda>v_ij.
     bindE (store v_ij e) (foldE (golay_three v_ij) [j + 1..23])))"

definition golay_one :: "int \<Rightarrow> ecc \<Rightarrow> ecc res" where
  "golay_one i e = bindE (eVect 23 i) (\<lambda>vi. bindE (store vi e) (foldE (golay_two vi) [i + 1..23]))"

definition golay_init :: "ecc res" where
  "golay_init = foldE golay_one [1..23] golay_shell"

text \<open>
  The Hamming code. Its constructor indexes the table with numpy arrays, which are not hashable.
  (The zeros of its first entry are floats.)
\<close>

definition hamming_shell :: ecc where
  "hamming_shell = \<lparr>codeword_length = 7, ecc_H = H_Hamming, dict_H = Map.empty\<rparr>"

datatype table_key = TupleKey vec | ArrayKey vec

definition table_set :: "table_key \<Rightarrow> vec \<Rightarrow> ecc \<Rightarrow> ecc res" where
  "table_set k v e = (case k of
     TupleKey s \<Rightarrow> Inr (e\<lparr>dict_H := (dict_H e)(s \<mapsto> v)\<rparr>)
   | ArrayKey s \<Rightarrow> Inl TypeError)"

definition hamming_one :: "int \<Rightarrow> ecc \<Rightarrow> ecc res" where
  "hamming_one i e = bindE (eVect 23 i) (\<lambda>vi. bindE (getSyndrome H_Golay vi) (\<lambda>s. table_set (ArrayKey s) vi e))"

definition hamming_init :: "ecc res" where
  "hamming_init = bindE (table_set (ArrayKey (replicate 3 0)) (replicate 7 0) hamming_shell) (foldE hamming_one [1..23])"

section \<open>Basic facts\<close>

lemma getSyndrome_golay: "length v = 23 \<Longrightarrow> getSyndrome H_Golay v = Inr (map (\<lambda>r. dot r v mod 2) H_Golay)"
  by (simp add: getSyndrome_def mat_vec_def H_Golay_def)


text \<open>Chunking: full pieces, then the remainder.\<close>

lemma range_step_shift: "range_step (i + k) (m + k) n = map (\<lambda>j. j + k) (range_step i m n)"
proof (induction i m n rule: range_step.induct)
  case (1 i m n)
  show ?case
  proof (cases "n = 0 \<or> m \<le> i")
    case True
    then show ?thesis by (subst (1 2) range_step.simps) auto
  next
    case False
    with 1 have "range_step (i + k + n) (m + k) n = map (\<lambda>j. j + k) (range_step (i + n) m n)"
      by (simp add: ac_simps)
    with False show ?thesis by (subst (1 2) range_step.simps) auto
  qed
qed

lemma chunk_Nil [simp]: "chunk e [] = []"
  by (simp add: chunk_def range_step.simps)

lemma chunk_step:
  assumes "0 < codeword_length e" "x \<noteq> []"
  shows "chunk e x = take (codeword_length e) x # chunk e (drop (codeword_length e) x)"
proof -
  define n where "n = codeword_length e"
  have n: "0 < n" using assms(1) by (simp add: n_def)
  have "range_step 0 (length x) n = 0 # range_step n (length x) n"
    using assms(2) n by (subst range_step.simps) simp
  moreover have "range_step n (length x) n = map (\<lambda>j. j + n) (range_step 0 (length x - n) n)"
  proof (cases "n \<le> length x")
    case True
    then show ?thesis using range_step_shift [of 0 n "length x - n" n] by simp
  next
    case False
    then show ?thesis by (simp add: range_step.simps)
  qed
  ultimately show ?thesis
    by (simp add: chunk_def n_def [symmetric] add.commute)
qed

lemma chunk_small:
  "0 < codeword_length e \<Longrightarrow> x \<noteq> [] \<Longrightarrow> length x < codeword_length e \<Longrightarrow> chunk e x = [x]"
  by (simp add: chunk_step)

lemma concat_chunk: "0 < codeword_length e \<Longrightarrow> concat (chunk e x) = x"
proof (induction x rule: length_induct)
  case (1 x)
  show ?case
  proof (cases "x = []")
    case False
    with 1 have "concat (chunk e (drop (codeword_length e) x)) = drop (codeword_length e) x" by auto
    with False 1 show ?thesis by (simp add: chunk_step)
  qed simp
qed

end
