(* ===== verification/Block_Code.thy ===== *)
theory Block_Code
  imports Ecc
begin

text \<open>
  What the key protocols ask of an error-correcting code (the abstract class \<open>ECC\<close>): words of
  \<open>n\<close> bits have a syndrome, and a word at most \<open>t\<close> bits away from the peer's word is corrected to
  it by the peer's syndrome.
\<close>

fun count_true :: "bool list \<Rightarrow> nat" where
  "count_true [] = 0"
| "count_true (b # bs) = (if b then Suc (count_true bs) else count_true bs)"

definition bin :: "vec \<Rightarrow> bool" where
  "bin v \<longleftrightarrow> set v \<subseteq> {0, 1}"

definition hdist :: "vec \<Rightarrow> vec \<Rightarrow> nat" where
  "hdist x y = count_true (map2 (\<noteq>) x y)"

lemma hdist_refl [simp]: "hdist x x = 0"
  by (induction x) (simp_all add: hdist_def)

lemma hdist_commute: "hdist x y = hdist y x"
  unfolding hdist_def by (induction x y rule: list_induct2') auto

locale block_code =
  fixes n t :: nat
    and enc :: "vec \<Rightarrow> vec res"
    and dec :: "vec \<Rightarrow> vec \<Rightarrow> vec res"
  assumes enc_total: "length x = n \<Longrightarrow> \<exists>s. enc x = Inr s"
    and corrects: "length x = n \<Longrightarrow> length y = n \<Longrightarrow> bin x \<Longrightarrow> bin y \<Longrightarrow> hdist x y \<le> t \<Longrightarrow>
      enc y = Inr s \<Longrightarrow> dec x s = Inr y"
begin

text \<open>The sender of a syndrome, who decodes too, keeps its own word.\<close>

lemma own_word: "length x = n \<Longrightarrow> bin x \<Longrightarrow> enc x = Inr s \<Longrightarrow> dec x s = Inr x"
  by (rule corrects) simp_all

text \<open>Words with a common syndrome are more than \<open>t\<close> apart.\<close>

lemma separated:
  assumes "length x = n" "length y = n" "bin x" "bin y" "enc x = enc y" "x \<noteq> y"
  shows "t < hdist x y"
proof (rule ccontr)
  assume "\<not> t < hdist x y"
  then have d: "hdist x y \<le> t" by simp
  obtain s where s: "enc y = Inr s" using enc_total assms(2) by blast
  have "dec x s = Inr y" by (rule corrects [OF assms(1-4) d s])
  moreover have "dec x s = Inr x" using own_word assms(1,3,5) s by simp
  ultimately show False using assms(6) by simp
qed

end

end
