(* ===== verification/Golay.thy ===== *)
theory Golay
  imports Block_Code
begin

text \<open>
  The Golay code of \<^verbatim>\<open>qchat/ecc.py\<close> does what error correction needs: the matrix as it
  is written in the source has minimum distance 7 (checked by evaluating all choices of at most
  six of its first twelve columns), so the table that the constructor fills holds exactly one
  pattern of weight at most three for each of the 2048 syndromes, and decoding returns the
  sender's word whenever the two words differ in at most three places.
\<close>

section \<open>The minimum distance of the Golay code\<close>

fun xor_list :: "bool list \<Rightarrow> bool list \<Rightarrow> bool list" where
  "xor_list (a # as) (b # bs) = (a \<noteq> b) # xor_list as bs"
| "xor_list _ _ = []"

text \<open>
  Every choice of columns, starting from the parity vector \<open>acc\<close> with \<open>w\<close> columns chosen so far,
  ends with no column at all or with at least seven ones in the choice and its parity together.
\<close>

fun spread :: "bool list list \<Rightarrow> bool list \<Rightarrow> nat \<Rightarrow> bool" where
  "spread [] acc w = (w = 0 \<or> 7 \<le> w + count_true acc)"
| "spread (c # cs) acc w =
     (spread cs acc w \<and> (if 6 \<le> w then True else spread cs (xor_list c acc) (Suc w)))"

primrec columns :: "nat \<Rightarrow> bool list list \<Rightarrow> bool list list" where
  "columns 0 rows = []"
| "columns (Suc n) rows = map hd rows # columns n (map tl rows)"

definition golay_A :: "bool list list" where
  "golay_A = map (\<lambda>r. map odd (take 12 r)) H_Golay"

lemma golay_spread: "spread (columns 12 golay_A) (replicate 11 False) 0"
  by code_simp


lemma length_xor_list [simp]: "length (xor_list a b) = min (length a) (length b)"
  by (induction a b rule: xor_list.induct) auto

lemma xor_list_nth: "i < length a \<Longrightarrow> i < length b \<Longrightarrow> xor_list a b ! i = (a ! i \<noteq> b ! i)"
proof (induction a b arbitrary: i rule: xor_list.induct)
  case (1 a as b bs)
  then show ?case by (cases i) auto
qed auto

text \<open>The parity vector of the chosen columns.\<close>

fun parity :: "bool list list \<Rightarrow> bool list \<Rightarrow> bool list \<Rightarrow> bool list" where
  "parity (c # cs) (b # bs) acc = parity cs bs (if b then xor_list c acc else acc)"
| "parity _ _ acc = acc"

lemma spread_sound:
  assumes "spread cs acc w" "length bs = length cs"
  shows "w + count_true bs = 0 \<or> 7 \<le> w + count_true bs + count_true (parity cs bs acc)"
  using assms
proof (induction cs arbitrary: acc w bs)
  case Nil
  then show ?case by auto
next
  case (Cons c cs)
  then obtain b bs' where bs: "bs = b # bs'" "length bs' = length cs" by (cases bs) auto
  show ?case
  proof (cases b)
    case True
    show ?thesis
    proof (cases "6 \<le> w")
      case True
      with \<open>b\<close> bs show ?thesis by simp
    next
      case False
      with Cons.prems have "spread cs (xor_list c acc) (Suc w)" by simp
      from Cons.IH [OF this bs(2)] bs \<open>b\<close> show ?thesis by simp
    qed
  next
    case False
    with Cons.prems have "spread cs acc w" by simp
    from Cons.IH [OF this bs(2)] bs False show ?thesis by simp
  qed
qed

text \<open>The parity vector is the vector of row parities.\<close>

fun row_parity :: "bool list \<Rightarrow> bool list \<Rightarrow> bool" where
  "row_parity (r # rs) (b # bs) = ((r \<and> b) \<noteq> row_parity rs bs)"
| "row_parity _ _ = False"

lemma parity_columns:
  assumes "length acc = length rows" "\<And>r. r \<in> set rows \<Longrightarrow> n \<le> length r" "length bs = n"
  shows "parity (columns n rows) bs acc = map2 (\<lambda>r a. row_parity r bs \<noteq> a) rows acc"
  using assms
proof (induction n arbitrary: rows acc bs)
  case 0
  then show ?case by (auto intro!: nth_equalityI)
next
  case (Suc n)
  then obtain b bs' where bs: "bs = b # bs'" "length bs' = n" by (cases bs) auto
  define acc' where "acc' = (if b then xor_list (map hd rows) acc else acc)"
  have rows: "rows ! i = hd (rows ! i) # tl (rows ! i)" if "i < length rows" for i
    using Suc.prems(2) [OF nth_mem [OF that]] by (cases "rows ! i") auto
  have "parity (columns (Suc n) rows) bs acc = parity (columns n (map tl rows)) bs' acc'"
    by (simp add: bs acc'_def)
  also have "\<dots> = map2 (\<lambda>r a. row_parity r bs' \<noteq> a) (map tl rows) acc'"
  proof (rule Suc.IH)
    show "n \<le> length r" if "r \<in> set (map tl rows)" for r using Suc.prems(2) that by fastforce
  qed (use Suc.prems bs in \<open>auto simp: acc'_def\<close>)
  also have "\<dots> = map2 (\<lambda>r a. row_parity r bs \<noteq> a) rows acc"
  proof (rule nth_equalityI)
    show "length (map2 (\<lambda>r a. row_parity r bs' \<noteq> a) (map tl rows) acc')
      = length (map2 (\<lambda>r a. row_parity r bs \<noteq> a) rows acc)"
      using Suc.prems(1) by (simp add: acc'_def)
    fix i
    assume "i < length (map2 (\<lambda>r a. row_parity r bs' \<noteq> a) (map tl rows) acc')"
    then have i: "i < length rows" "i < length acc" using Suc.prems(1) by (auto simp: acc'_def)
    have "row_parity (rows ! i) bs = ((hd (rows ! i) \<and> b) \<noteq> row_parity (tl (rows ! i)) bs')"
      by (subst rows [OF i(1)]) (simp add: bs)
    with i show "map2 (\<lambda>r a. row_parity r bs' \<noteq> a) (map tl rows) acc' ! i
      = map2 (\<lambda>r a. row_parity r bs \<noteq> a) rows acc ! i"
      by (auto simp: acc'_def xor_list_nth)
  qed
  finally show ?case .
qed

section \<open>Binary vectors\<close>

definition wt :: "vec \<Rightarrow> nat" where
  "wt v = count_true (map odd v)"

lemma odd_dot: "odd (dot r v) = row_parity (map odd r) (map odd v)"
proof (induction r v rule: list_induct2')
  case (4 r rs v vs)
  have "dot (r # rs) (v # vs) = r * v + dot rs vs" by (simp add: dot_def)
  with 4 show ?case by auto
qed (simp_all add: dot_def)

lemma row_parity_append:
  "length a = length x \<Longrightarrow> row_parity (a @ b) (x @ y) = (row_parity a x \<noteq> row_parity b y)"
  by (induction a x rule: list_induct2) auto

lemma row_parity_zero: "row_parity (replicate n False) y = False"
proof (induction n arbitrary: y)
  case (Suc n)
  then show ?case by (cases y) auto
qed simp

lemma row_parity_unit: "i < length y \<Longrightarrow> row_parity ((replicate (length y) False)[i := True]) y = y ! i"
proof (induction y arbitrary: i)
  case (Cons b y)
  then show ?case by (cases i) (auto simp: row_parity_zero)
qed simp

definition golay_I :: "bool list list" where
  "golay_I = map (\<lambda>i. (replicate 11 False)[i := True]) [0..<11]"

lemma golay_split: "map (map odd) H_Golay = map2 (@) golay_A golay_I"
  by code_simp

lemma golay_lengths: "length golay_A = 11" "length golay_I = 11" "\<And>r. r \<in> set golay_A \<Longrightarrow> length r = 12"
proof -
  show "length golay_A = 11" "length golay_I = 11" by (simp_all add: golay_A_def golay_I_def H_Golay_def)
  have "list_all (\<lambda>r. length r = 12) golay_A" by code_simp
  then show "\<And>r. r \<in> set golay_A \<Longrightarrow> length r = 12" by (auto simp: list_all_iff)
qed

lemma length_H_Golay [simp]: "length H_Golay = 11"
  by (simp add: H_Golay_def)

definition syn :: "vec \<Rightarrow> vec" where
  "syn v = map (\<lambda>r. dot r v mod 2) H_Golay"

lemma odd_syn:
  assumes "length v = 23"
  shows "map odd (syn v) = xor_list (parity (columns 12 golay_A) (map odd (take 12 v)) (replicate 11 False))
    (map odd (drop 12 v))"
proof (rule nth_equalityI)
  define m where "m = map odd (take 12 v)"
  define t where "t = map odd (drop 12 v)"
  have mt: "map odd v = m @ t" "length m = 12" "length t = 11"
    using assms by (simp_all add: m_def t_def flip: map_append)
  have par: "parity (columns 12 golay_A) m (replicate 11 False) = map2 (\<lambda>r a. row_parity r m \<noteq> a) golay_A (replicate 11 False)"
    using golay_lengths mt(2) by (intro parity_columns) auto
  show "length (map odd (syn v)) = length (xor_list (parity (columns 12 golay_A) m (replicate 11 False)) t)"
    unfolding par using mt(3) golay_lengths by (simp add: syn_def)
  fix i
  assume "i < length (map odd (syn v))"
  then have i: "i < 11" by (simp add: syn_def)
  have "map odd (H_Golay ! i) = (map2 (@) golay_A golay_I) ! i"
    using i by (simp flip: golay_split)
  also have "\<dots> = golay_A ! i @ golay_I ! i" using i golay_lengths by simp
  finally have "odd (dot (H_Golay ! i) v) = (row_parity (golay_A ! i) m \<noteq> row_parity (golay_I ! i) t)"
    using i golay_lengths mt by (simp add: odd_dot row_parity_append)
  moreover have "row_parity (golay_I ! i) t = t ! i"
    using row_parity_unit [of i t] i mt(3) by (simp add: golay_I_def)
  moreover have "odd (syn v ! i) = odd (dot (H_Golay ! i) v)"
    using i by (simp add: syn_def)
  ultimately show "map odd (syn v) ! i = xor_list (parity (columns 12 golay_A) m (replicate 11 False)) t ! i"
    unfolding par using i mt(3) golay_lengths by (simp add: syn_def xor_list_nth)
qed

section \<open>Distinct light patterns have distinct syndromes\<close>

lemma count_true_append: "count_true (a @ b) = count_true a + count_true b"
  by (induction a) auto

lemma count_true_0: "count_true a = 0 \<longleftrightarrow> True \<notin> set a"
  by (induction a) auto

lemma parity_zero: "length bs = length cs \<Longrightarrow> True \<notin> set bs \<Longrightarrow> parity cs bs acc = acc"
proof (induction cs arbitrary: bs acc)
  case (Cons c cs)
  then show ?case by (cases bs) auto
qed simp

lemma length_columns [simp]: "length (columns n rows) = n"
  by (induction n arbitrary: rows) simp_all

lemma map2_neq_all_False: "length p = length t \<Longrightarrow> True \<notin> set (xor_list p t) \<Longrightarrow> p = t"
  by (induction p t rule: list_induct2) auto

lemma golay_distance:
  assumes "length v = 23" "wt v \<le> 6" "set (syn v) \<subseteq> {0}"
  shows "wt v = 0"
proof -
  define m where "m = map odd (take 12 v)"
  define t where "t = map odd (drop 12 v)"
  define p where "p = parity (columns 12 golay_A) m (replicate 11 False)"
  have m: "length m = 12" and t: "length t = 11" using assms(1) by (simp_all add: m_def t_def)
  have "map odd v = m @ t" unfolding m_def t_def by (metis append_take_drop_id map_append)
  then have wt: "wt v = count_true m + count_true t" by (simp add: wt_def count_true_append)
  have "p = map2 (\<lambda>r a. row_parity r m \<noteq> a) golay_A (replicate 11 False)"
    unfolding p_def using golay_lengths m by (intro parity_columns) auto
  then have p: "length p = 11" using golay_lengths by simp
  have "True \<notin> set (map odd (syn v))" using assms(3) by auto
  then have "p = t"
    using map2_neq_all_False [of p t] p t odd_syn [OF assms(1)] by (simp add: p_def m_def t_def)
  moreover have "count_true m = 0 \<or> 7 \<le> count_true m + count_true p"
    using spread_sound [OF golay_spread, of m] m by (simp add: p_def)
  ultimately have "count_true m = 0" using assms(2) wt by auto
  then have "True \<notin> set m" by (simp add: count_true_0)
  then have "p = replicate 11 False" unfolding p_def using m by (intro parity_zero) auto
  then have "count_true t = 0" using \<open>p = t\<close> by (auto simp: count_true_0)
  with wt \<open>count_true m = 0\<close> show ?thesis by simp
qed

definition vadd :: "vec \<Rightarrow> vec \<Rightarrow> vec" where
  "vadd x y = map (\<lambda>a. a mod 2) (map2 (+) x y)"

lemma length_vadd [simp]: "length (vadd x y) = min (length x) (length y)"
  by (simp add: vadd_def)

lemma dot_vadd: "length x = length y \<Longrightarrow> dot r (vadd x y) mod 2 = (dot r x + dot r y) mod 2"
proof (induction x y arbitrary: r rule: list_induct2)
  case Nil
  then show ?case by (simp add: dot_def vadd_def)
next
  case (Cons a x b y)
  show ?case
  proof (cases r)
    case Nil
    then show ?thesis by (simp add: dot_def)
  next
    case (Cons c r')
    have "dot r (vadd (a # x) (b # y)) mod 2 = (c * ((a + b) mod 2) + dot r' (vadd x y) mod 2) mod 2"
      by (simp add: Cons dot_def vadd_def mod_simps)
    also have "\<dots> = (c * (a + b) + (dot r' x + dot r' y)) mod 2"
      unfolding Cons.IH by (rule mod_add_cong [OF mod_mult_right_eq]) simp
    also have "\<dots> = (dot r (a # x) + dot r (b # y)) mod 2"
      by (simp add: Cons dot_def algebra_simps)
    finally show ?thesis .
  qed
qed

lemma syn_vadd:
  assumes "length x = length y"
  shows "syn (vadd x y) = vadd (syn x) (syn y)"
proof (rule nth_equalityI)
  fix i
  assume "i < length (syn (vadd x y))"
  then have i: "i < 11" by (simp add: syn_def)
  then show "syn (vadd x y) ! i = vadd (syn x) (syn y) ! i"
    using dot_vadd [OF assms, of "H_Golay ! i"] by (simp add: syn_def vadd_def mod_simps)
qed (simp add: syn_def vadd_def)

lemma vadd_odd: "map odd (vadd x y) = xor_list (map odd x) (map odd y)"
proof (induction x y rule: list_induct2')
  case (4 a x b y)
  have "odd ((a + b) mod 2) = (odd a \<noteq> odd b)" by presburger
  with 4 show ?case by (simp add: vadd_def)
qed (simp_all add: vadd_def)

lemma bin_odd_inject: "bin x \<Longrightarrow> bin y \<Longrightarrow> map odd x = map odd y \<Longrightarrow> x = y"
proof (induction x arbitrary: y)
  case (Cons a x)
  then obtain b y' where y: "y = b # y'" "map odd x = map odd y'" "odd a = odd b" by (cases y) auto
  with Cons.prems have "bin x" "bin y'" "a \<in> {0, 1}" "b \<in> {0, 1}" by (simp_all add: bin_def)
  with Cons.IH [of y'] y show ?case by auto
qed simp

lemma count_true_neq: "count_true (xor_list p q) \<le> count_true p + count_true q"
  by (induction p q rule: list_induct2') auto

lemma wt_vadd: "wt (vadd x y) \<le> wt x + wt y"
  by (simp add: wt_def vadd_odd count_true_neq)

lemma hdist_wt: "bin x \<Longrightarrow> bin y \<Longrightarrow> hdist x y = wt (vadd x y)"
  unfolding hdist_def wt_def vadd_odd
  by (induction x y rule: list_induct2') (auto simp: bin_def)

definition light :: "vec \<Rightarrow> bool" where
  "light e \<longleftrightarrow> length e = 23 \<and> bin e \<and> wt e \<le> 3"

lemma light_syn_inject:
  assumes "light e" "light f" "syn e = syn f"
  shows "e = f"
proof -
  from assms have len: "length e = 23" "length f = 23" and b: "bin e" "bin f" by (simp_all add: light_def)
  have "wt (vadd e f) \<le> 6" using assms(1,2) wt_vadd [of e f] by (simp add: light_def)
  moreover have "set (syn (vadd e f)) \<subseteq> {0}"
    using len by (auto simp: syn_vadd assms(3)) (auto simp: vadd_def set_zip)
  ultimately have "wt (vadd e f) = 0" using len by (intro golay_distance) auto
  then have "True \<notin> set (xor_list (map odd e) (map odd f))" by (simp add: wt_def vadd_odd count_true_0)
  then have "map odd e = map odd f" using len by (intro map2_neq_all_False) auto
  with b show ?thesis by (rule bin_odd_inject)
qed

section \<open>The code is perfect: every syndrome belongs to a light pattern\<close>

definition weighted :: "nat \<Rightarrow> nat \<Rightarrow> vec set" where
  "weighted n k = {v. length v = n \<and> bin v \<and> wt v = k}"

lemma weighted_0: "weighted 0 k = (if k = 0 then {[]} else {})"
  by (auto simp: weighted_def bin_def wt_def)

lemma weighted_Suc:
  "weighted (Suc n) k = (Cons 0) ` weighted n k \<union> (case k of 0 \<Rightarrow> {} | Suc j \<Rightarrow> (Cons 1) ` weighted n j)"
proof (rule set_eqI)
  fix v
  show "v \<in> weighted (Suc n) k \<longleftrightarrow>
    v \<in> (Cons 0) ` weighted n k \<union> (case k of 0 \<Rightarrow> {} | Suc j \<Rightarrow> (Cons 1) ` weighted n j)"
    by (cases v) (auto simp: weighted_def bin_def wt_def image_iff split: nat.splits)
qed

lemma finite_weighted: "finite (weighted n k)"
  by (induction n arbitrary: k) (auto simp: weighted_0 weighted_Suc split: nat.split)

lemma card_weighted: "card (weighted n k) = n choose k"
proof (induction n arbitrary: k)
  case 0
  then show ?case by (cases k) (simp_all add: weighted_0)
next
  case (Suc n)
  have inj: "inj (Cons (a :: int))" for a by (simp add: inj_def)
  show ?case
  proof (cases k)
    case 0
    then show ?thesis by (simp add: weighted_Suc card_image inj_on_subset [OF inj] Suc)
  next
    case (Suc j)
    have "card (Cons 0 ` weighted n k \<union> Cons 1 ` weighted n j)
      = card (Cons (0 :: int) ` weighted n k) + card (Cons (1 :: int) ` weighted n j)"
      by (intro card_Un_disjoint) (auto simp: finite_weighted)
    then show ?thesis
      by (simp add: weighted_Suc Suc card_image inj_on_subset [OF inj] \<open>\<And>k. card (weighted n k) = n choose k\<close>)
  qed
qed

lemma light_weighted: "Collect light = (\<Union>k \<in> {..3}. weighted 23 k)"
  by (auto simp: light_def weighted_def)

lemma card_light: "card (Collect light) = 2048"
proof -
  have "card (Collect light) = (\<Sum>k\<le>3. card (weighted 23 k))"
    unfolding light_weighted
  proof (rule card_UN_disjoint)
    show "\<forall>i\<in>{..3}. \<forall>j\<in>{..3}. i \<noteq> j \<longrightarrow> weighted 23 i \<inter> weighted 23 j = {}"
      by (auto simp: weighted_def)
  qed (simp_all add: finite_weighted)
  also have "\<dots> = (\<Sum>k\<le>3. 23 choose k)" by (simp add: card_weighted)
  also have "\<dots> = 2048" by (simp add: numeral_3_eq_3 choose_reduce_nat)
  finally show ?thesis .
qed

definition syndromes :: "vec set" where
  "syndromes = {s. set s \<subseteq> {0, 1} \<and> length s = 11}"

lemma card_syndromes: "card syndromes = 2048" "finite syndromes"
proof -
  have "card syndromes = card {0, 1 :: int} ^ 11"
    unfolding syndromes_def by (rule card_lists_length_eq) simp
  moreover have "card {0, 1 :: int} = 2" by simp
  ultimately show "card syndromes = 2048" by simp
  show "finite syndromes" unfolding syndromes_def by (rule finite_lists_length_eq) simp
qed

lemma syn_syndrome: "syn v \<in> syndromes"
  by (auto simp: syn_def syndromes_def)

lemma golay_perfect:
  assumes "s \<in> syndromes"
  obtains e where "light e" "syn e = s"
proof -
  have inj: "inj_on syn (Collect light)"
  proof (rule inj_onI)
    fix e f
    assume "e \<in> Collect light" "f \<in> Collect light" "syn e = syn f"
    then show "e = f" by (metis light_syn_inject mem_Collect_eq)
  qed
  have "syn ` Collect light = syndromes"
  proof (rule card_subset_eq)
    show "syn ` Collect light \<subseteq> syndromes" using syn_syndrome by blast
    show "card (syn ` Collect light) = card syndromes"
      unfolding card_image [OF inj] card_light card_syndromes(1) ..
  qed (rule card_syndromes)
  with assms have "s \<in> syn ` Collect light" by simp
  then obtain e where "e \<in> Collect light" "s = syn e" by (rule imageE)
  then show thesis using that [of e] by simp
qed

section \<open>The table the constructor fills\<close>

definition vec_of :: "nat set \<Rightarrow> vec" where
  "vec_of P = map (\<lambda>i. if i \<in> P then 1 else 0) [0..<23]"

lemma length_vec_of [simp]: "length (vec_of P) = 23"
  by (simp add: vec_of_def)

lemma vec_of_nth: "i < 23 \<Longrightarrow> vec_of P ! i = (if i \<in> P then 1 else 0)"
  by (simp add: vec_of_def)

lemma count_true_indicator: "count_true (map (\<lambda>i. i \<in> P) [0..<n]) = card (P \<inter> {..<n})"
proof (induction n)
  case (Suc n)
  have "P \<inter> {..<Suc n} = (if n \<in> P then insert n (P \<inter> {..<n}) else P \<inter> {..<n})"
    by (auto simp: less_Suc_eq)
  with Suc show ?case by (simp add: count_true_append)
qed simp

lemma wt_vec_of: "wt (vec_of P) = card (P \<inter> {..<23})"
proof -
  have "map odd (vec_of P) = map (\<lambda>i. i \<in> P) [0..<23]" by (simp add: vec_of_def)
  then show ?thesis unfolding wt_def by (simp only: count_true_indicator)
qed

lemma bin_vec_of: "bin (vec_of P)"
  by (auto simp: vec_of_def bin_def)

lemma light_vec_of: "finite P \<Longrightarrow> card P \<le> 3 \<Longrightarrow> light (vec_of P)"
  using card_mono [of P "P \<inter> {..<23}"] by (simp add: light_def bin_vec_of wt_vec_of)

lemma light_is_vec_of:
  assumes "light e"
  obtains P where "P \<subseteq> {..<23}" "card P \<le> 3" "e = vec_of P"
proof -
  define P where "P = {i. i < 23 \<and> e ! i = 1}"
  have e: "length e = 23" "bin e" "wt e \<le> 3" using assms by (simp_all add: light_def)
  have "e ! i \<in> {0, 1}" if "i < 23" for i
    using e(1,2) subsetD [OF _ nth_mem [of i e]] that unfolding bin_def by metis
  then have "e = vec_of P" using e(1) by (intro nth_equalityI) (auto simp: vec_of_nth P_def)
  moreover have "P \<subseteq> {..<23}" by (auto simp: P_def)
  ultimately show thesis using that e(3) by (metis wt_vec_of inf.absorb1)
qed

definition pos :: "int \<Rightarrow> nat" where
  "pos i = 23 - nat i"

lemma eVect_vec_of: "i \<in> {1..23} \<Longrightarrow> eVect 23 i = Inr (vec_of {pos i})"
proof -
  assume i: "i \<in> {1..23}"
  then have "py_index 23 (- i) = Some (pos i)" by (simp add: py_index_def pos_def nat_diff_distrib)
  moreover have "(replicate 23 0)[pos i := 1] = vec_of {pos i}"
    by (rule nth_equalityI) (auto simp: vec_of_nth nth_list_update)
  ultimately show ?thesis by (simp add: eVect_def py_set_def)
qed

lemma np_add_vec_of: "q \<notin> P \<Longrightarrow> np_add (vec_of P) (vec_of {q}) = Inr (vec_of (insert q P))"
  by (auto simp: np_add_def vec_of_nth intro!: nth_equalityI)

lemma pos_inject: "i \<in> {1..23} \<Longrightarrow> j \<in> {1..23} \<Longrightarrow> pos i = pos j \<longleftrightarrow> i = j"
  by (auto simp: pos_def)

definition table_ok :: "ecc \<Rightarrow> bool" where
  "table_ok e \<longleftrightarrow> codeword_length e = 23 \<and> ecc_H e = H_Golay \<and>
     (\<forall>s v. dict_H e s = Some v \<longrightarrow> light v \<and> syn v = s)"

definition covered :: "ecc \<Rightarrow> vec set" where
  "covered e = dom (dict_H e)"

lemma store_ok:
  assumes "table_ok e" "finite P" "card P \<le> 3"
  shows "\<exists>e'. store (vec_of P) e = Inr e' \<and> table_ok e' \<and> covered e \<subseteq> covered e'
    \<and> syn (vec_of P) \<in> covered e'"
proof -
  have "encode e (vec_of P) = Inr (syn (vec_of P))"
    using assms(1) by (simp add: encode_def table_ok_def getSyndrome_golay syn_def)
  then show ?thesis using assms light_vec_of by (auto simp: store_def table_ok_def covered_def)
qed

lemma golay_three_ok:
  assumes "table_ok e" "finite P" "card P \<le> 2" "k \<in> {1..23}" "pos k \<notin> P"
  shows "\<exists>e'. golay_three (vec_of P) k e = Inr e' \<and> table_ok e' \<and> covered e \<subseteq> covered e'
    \<and> {syn (vec_of (insert (pos k) P))} \<subseteq> covered e'"
  using store_ok [of e "insert (pos k) P"] assms
  by (simp add: golay_three_def eVect_vec_of np_add_vec_of)

lemma golay_two_ok:
  assumes "table_ok e" "i \<in> {1..23}" "j \<in> {1..23}" "i < j"
  shows "\<exists>e'. golay_two (vec_of {pos i}) j e = Inr e' \<and> table_ok e' \<and> covered e \<subseteq> covered e'
    \<and> {syn (vec_of {pos i, pos j})} \<union> (\<Union>k \<in> {j + 1..23}. {syn (vec_of {pos i, pos j, pos k})}) \<subseteq> covered e'"
proof -
  have ne: "pos j \<noteq> pos i" using pos_inject assms by simp
  from store_ok [of e "{pos j, pos i}"] assms(1) ne obtain e1 where e1:
    "store (vec_of {pos j, pos i}) e = Inr e1" "table_ok e1" "covered e \<subseteq> covered e1"
    "syn (vec_of {pos j, pos i}) \<in> covered e1" by (auto simp: card_insert_if)
  have "\<exists>e'. foldE (golay_three (vec_of {pos j, pos i})) [j + 1..23] e1 = Inr e' \<and> table_ok e'
    \<and> covered e1 \<subseteq> covered e'
    \<and> (\<Union>k \<in> set [j + 1..23]. {syn (vec_of (insert (pos k) {pos j, pos i}))}) \<subseteq> covered e'"
  proof (rule foldE_covers)
    fix k e2
    assume k: "k \<in> set [j + 1..23]" and "table_ok e2"
    then show "\<exists>t'. golay_three (vec_of {pos j, pos i}) k e2 = Inr t' \<and> table_ok t'
      \<and> covered e2 \<subseteq> covered t' \<and> {syn (vec_of (insert (pos k) {pos j, pos i}))} \<subseteq> covered t'"
      using assms pos_inject [of k i] pos_inject [of k j] by (intro golay_three_ok) (auto simp: card_insert_if)
  qed fact
  then obtain e' where e': "foldE (golay_three (vec_of {pos j, pos i})) [j + 1..23] e1 = Inr e'" "table_ok e'"
    "covered e1 \<subseteq> covered e'"
    "(\<Union>k \<in> {j + 1..23}. {syn (vec_of (insert (pos k) {pos j, pos i}))}) \<subseteq> covered e'" by auto
  have perm: "insert (pos k) {pos j, pos i} = {pos i, pos j, pos k}" for k by auto
  have "{pos j, pos i} = {pos i, pos j}" by auto
  then have two: "syn (vec_of {pos i, pos j}) \<in> covered e'" using e1(4) e'(3) by auto
  have "golay_two (vec_of {pos i}) j e = Inr e'"
    unfolding golay_two_def eVect_vec_of [OF assms(3)] bindE_simps
      np_add_vec_of [of "pos j" "{pos i}", simplified, OF ne] e1(1) e'(1) ..
  moreover have "covered e \<subseteq> covered e'" using e1(3) e'(3) by (rule subset_trans)
  moreover have "{syn (vec_of {pos i, pos j})}
      \<union> (\<Union>k \<in> {j + 1..23}. {syn (vec_of {pos i, pos j, pos k})}) \<subseteq> covered e'"
    using two e'(4) unfolding perm by simp
  ultimately show ?thesis using e'(2) by (intro exI [of _ e'] conjI)
qed

lemma golay_one_ok:
  assumes "table_ok e" "i \<in> {1..23}"
  shows "\<exists>e'. golay_one i e = Inr e' \<and> table_ok e' \<and> covered e \<subseteq> covered e'
    \<and> {syn (vec_of {pos i})} \<union> (\<Union>j \<in> {i + 1..23}. {syn (vec_of {pos i, pos j})}
        \<union> (\<Union>k \<in> {j + 1..23}. {syn (vec_of {pos i, pos j, pos k})})) \<subseteq> covered e'"
proof -
  from store_ok [of e "{pos i}"] assms(1) obtain e1 where e1:
    "store (vec_of {pos i}) e = Inr e1" "table_ok e1" "covered e \<subseteq> covered e1"
    "syn (vec_of {pos i}) \<in> covered e1" by auto
  have "\<exists>e'. foldE (golay_two (vec_of {pos i})) [i + 1..23] e1 = Inr e' \<and> table_ok e'
    \<and> covered e1 \<subseteq> covered e' \<and> (\<Union>j \<in> set [i + 1..23]. {syn (vec_of {pos i, pos j})}
        \<union> (\<Union>k \<in> {j + 1..23}. {syn (vec_of {pos i, pos j, pos k})})) \<subseteq> covered e'"
    using assms e1(2) by (intro foldE_covers golay_two_ok) auto
  then obtain e' where e': "foldE (golay_two (vec_of {pos i})) [i + 1..23] e1 = Inr e'" "table_ok e'"
    "covered e1 \<subseteq> covered e'" "(\<Union>j \<in> {i + 1..23}. {syn (vec_of {pos i, pos j})}
        \<union> (\<Union>k \<in> {j + 1..23}. {syn (vec_of {pos i, pos j, pos k})})) \<subseteq> covered e'" by auto
  have "golay_one i e = Inr e'" using e1(1) e'(1) assms(2) by (simp add: golay_one_def eVect_vec_of)
  then show ?thesis using e1(3,4) e'(2,3,4) by blast
qed

lemma sorted_enum: "0 < card Q \<Longrightarrow> \<exists>l :: int list. sorted l \<and> distinct l \<and> set l = Q \<and> length l = card Q"
  by (intro exI [of _ "sorted_list_of_set Q"]) (simp add: card_ge_0_finite)

lemma card_3_sorted: "card Q = 3 \<Longrightarrow> \<exists>i j k :: int. i < j \<and> j < k \<and> Q = {i, j, k}"
proof -
  assume "card Q = 3"
  with sorted_enum [of Q] obtain l :: "int list" where l: "sorted l" "distinct l" "set l = Q" "length l = 3"
    by auto
  then obtain i j k where "l = [i, j, k]" by (auto simp: numeral_3_eq_3 length_Suc_conv)
  with l have "i < j" "j < k" "Q = {i, j, k}" by auto
  then show ?thesis by blast
qed

lemma card_2_sorted: "card Q = 2 \<Longrightarrow> \<exists>i j :: int. i < j \<and> Q = {i, j}"
proof -
  assume "card Q = 2"
  with sorted_enum [of Q] obtain l :: "int list" where l: "sorted l" "distinct l" "set l = Q" "length l = 2"
    by auto
  then obtain i j where "l = [i, j]" by (auto simp: numeral_2_eq_2 length_Suc_conv)
  with l have "i < j" "Q = {i, j}" by auto
  then show ?thesis by blast
qed

lemma light_cases:
  assumes "light e"
  obtains "e = vec_of {}"
  | i where "i \<in> {1..23}" "e = vec_of {pos i}"
  | i j where "1 \<le> i" "i < j" "j \<le> 23" "e = vec_of {pos i, pos j}"
  | i j k where "1 \<le> i" "i < j" "j < k" "k \<le> 23" "e = vec_of {pos i, pos j, pos k}"
proof -
  from light_is_vec_of [OF assms] obtain P where P: "P \<subseteq> {..<23}" "card P \<le> 3" "e = vec_of P" .
  define Q where "Q = (\<lambda>p. 23 - int p) ` P"
  have fin: "finite P" using P(1) finite_subset by blast
  have Q: "Q \<subseteq> {1..23}" "pos ` Q = P" "card Q = card P"
  proof -
    have unpos: "pos (23 - int p) = p" if "p \<in> P" for p using P(1) that by (auto simp: pos_def)
    show "Q \<subseteq> {1..23}" using P(1) by (auto simp: Q_def)
    show "pos ` Q = P" using unpos by (force simp: Q_def image_image)
    show "card Q = card P" unfolding Q_def by (rule card_image) (simp add: inj_on_def)
  qed
  consider "card Q = 0" | "card Q = 1" | "card Q = 2" | "card Q = 3" using P(2) Q(3) by linarith
  then show thesis
  proof cases
    case 1
    with Q fin have "P = {}" by simp
    with P(3) that(1) show thesis by simp
  next
    case 2
    then obtain i where i: "Q = {i}" by (auto simp: card_1_singleton_iff)
    then have "P = {pos i}" using Q(2) by auto
    with that(2) [of i] P(3) Q(1) i show thesis by simp
  next
    case 3
    then obtain i j where i: "i < j" "Q = {i, j}" using card_2_sorted by blast
    then have "P = {pos i, pos j}" using Q(2) by auto
    with that(3) [of i j] P(3) Q(1) i show thesis by simp
  next
    case 4
    then obtain i j k where i: "i < j" "j < k" "Q = {i, j, k}" using card_3_sorted by blast
    then have "P = {pos i, pos j, pos k}" using Q(2) by auto
    with that(4) [of i j k] P(3) Q(1) i show thesis by simp
  qed
qed

definition golay :: ecc where
  "golay = projr golay_init"

lemma golay_shell_ok: "table_ok golay_shell"
proof -
  have "syn (vec_of {}) = replicate 11 0" by code_simp
  moreover have "vec_of {} = replicate 23 0" by (rule nth_equalityI) (auto simp: vec_of_nth)
  ultimately show ?thesis
    using light_vec_of [of "{}"] by (auto simp: table_ok_def golay_shell_def)
qed

lemma golay_init_ok: "golay_init = Inr golay" "table_ok golay" "\<And>e. light e \<Longrightarrow> syn e \<in> covered golay"
proof -
  have "\<exists>e'. golay_init = Inr e' \<and> table_ok e' \<and> covered golay_shell \<subseteq> covered e'
    \<and> (\<Union>i \<in> set [1..23]. {syn (vec_of {pos i})} \<union> (\<Union>j \<in> {i + 1..23}. {syn (vec_of {pos i, pos j})}
        \<union> (\<Union>k \<in> {j + 1..23}. {syn (vec_of {pos i, pos j, pos k})}))) \<subseteq> covered e'"
    unfolding golay_init_def using golay_shell_ok by (intro foldE_covers golay_one_ok) auto
  then obtain e' where e': "golay_init = Inr e'" "table_ok e'" "covered golay_shell \<subseteq> covered e'"
    "(\<Union>i \<in> {1..23}. {syn (vec_of {pos i})} \<union> (\<Union>j \<in> {i + 1..23}. {syn (vec_of {pos i, pos j})}
        \<union> (\<Union>k \<in> {j + 1..23}. {syn (vec_of {pos i, pos j, pos k})}))) \<subseteq> covered e'"
    by auto
  have g: "golay = e'" by (simp add: golay_def e'(1))
  show "golay_init = Inr golay" "table_ok golay" using e'(1,2) by (simp_all add: g)
  fix e
  assume "light e"
  then show "syn e \<in> covered golay"
  proof (cases rule: light_cases)
    case 1
    have "syn (vec_of {}) = replicate 11 0" by code_simp
    with 1 e'(3) show ?thesis by (auto simp: g covered_def golay_shell_def)
  next
    case (2 i)
    with e'(4) show ?thesis unfolding g by (simp add: UN_subset_iff)
  next
    case (3 i j)
    then have "i \<in> {1..23}" "j \<in> {i + 1..23}" by auto
    with e'(4) 3(4) show ?thesis unfolding g by (simp add: UN_subset_iff)
  next
    case (4 i j k)
    then have "i \<in> {1..23}" "j \<in> {i + 1..23}" "k \<in> {j + 1..23}" by auto
    with e'(4) 4(5) show ?thesis unfolding g by (simp add: UN_subset_iff)
  qed
qed

lemma golay_lookup:
  assumes "light e"
  shows "dict_H golay (syn e) = Some e"
proof -
  from golay_init_ok(3) [OF assms] obtain v where v: "dict_H golay (syn e) = Some v"
    by (auto simp: covered_def)
  with golay_init_ok(2) have "light v" "syn v = syn e" by (simp_all add: table_ok_def)
  with light_syn_inject assms have "v = e" by metis
  with v show ?thesis by simp
qed

section \<open>Error correction\<close>

lemma golay_encode: "length x = 23 \<Longrightarrow> encode golay x = Inr (syn x)"
  using golay_init_ok(2) by (simp add: encode_def table_ok_def getSyndrome_golay syn_def)

lemma vadd_np_add: "length x = length y \<Longrightarrow> np_add x y = Inr s \<Longrightarrow> map (\<lambda>a. a mod 2) s = vadd x y"
  by (simp add: np_add_def vadd_def)

lemma golay_decode:
  assumes "length x = 23" "length s = 11" "light e" "syn e = vadd s (syn x)"
  shows "decode golay x s = Inr (vadd x e)"
proof -
  have e: "length e = 23" using assms(3) by (simp add: light_def)
  have "length (syn x) = 11" by (simp add: syn_def)
  moreover have "codeword_length golay = 23" "ecc_H golay = H_Golay"
    using golay_init_ok(2) by (simp_all add: table_ok_def)
  moreover have "getSyndrome H_Golay x = Inr (syn x)" using assms(1) by (simp add: getSyndrome_golay syn_def)
  moreover have "dict_H golay (vadd s (syn x)) = Some e" using golay_lookup [OF assms(3)] assms(4) by simp
  ultimately show ?thesis
    using assms(1,2) e by (simp add: decode_def np_add_def vadd_def [symmetric] del: map_map)
qed

lemma vadd_cancel: "bin y \<Longrightarrow> length x = length y \<Longrightarrow> vadd x (vadd x y) = y"
proof -
  assume y: "bin y" and len: "length x = length y"
  have "vadd x (vadd x y) ! i = y ! i" if i: "i < length y" for i
  proof -
    have "y ! i = 0 \<or> y ! i = 1" using y i nth_mem unfolding bin_def by blast
    then have "(x ! i + (x ! i + y ! i)) mod 2 = y ! i" by presburger
    then show ?thesis using i len by (simp add: vadd_def mod_simps)
  qed
  with len show ?thesis by (intro nth_equalityI) simp_all
qed

lemma bin_vadd: "bin (vadd x y)"
  by (auto simp: bin_def vadd_def)

lemma vadd_comm: "vadd x y = vadd y x"
  by (auto simp: vadd_def zip_commute [of x y] add.commute)

lemma hdist_decoded:
  assumes "length x = 23" "bin x" "light e"
  shows "hdist x (vadd x e) \<le> 3"
proof -
  have e: "bin e" "length e = 23" "wt e \<le> 3" using assms(3) by (simp_all add: light_def)
  have "hdist x (vadd x e) = wt (vadd x (vadd x e))" using assms(2) by (simp add: hdist_wt bin_vadd)
  also have "\<dots> = wt e" using e assms(1) by (simp add: vadd_cancel)
  finally show ?thesis using e(3) by simp
qed

lemma golay_corrects:
  assumes "length x = 23" "length y = 23" "bin x" "bin y" "hdist x y \<le> 3" "encode golay y = Inr s"
  shows "decode golay x s = Inr y"
proof -
  have s: "s = syn y" using assms(2,6) by (simp add: golay_encode)
  have "light (vadd x y)" using assms hdist_wt [of x y] by (simp add: light_def bin_vadd)
  moreover have "syn (vadd x y) = vadd s (syn x)" using assms(1,2) s by (simp add: syn_vadd vadd_comm)
  moreover have "length s = 11" by (simp add: s syn_def)
  ultimately have "decode golay x s = Inr (vadd x (vadd x y))" using assms(1) by (intro golay_decode)
  with assms show ?thesis by (simp add: vadd_cancel)
qed

interpretation golay_code: block_code 23 3 "encode golay" "decode golay"
  by unfold_locales (use golay_encode golay_corrects in auto)

text \<open>
  C5. The constructor \<open>ECC_Golay()\<close> returns, and the object it builds corrects errors: from a
  word that differs from the peer's word in at most three of its 23 bits, and the peer's
  syndrome, decoding returns the peer's word.
\<close>

theorem golay_corrects_three_errors:
  assumes "length x = 23" "length y = 23" "bin x" "bin y" "hdist x y \<le> 3"
  shows "\<exists>g s. golay_init = Inr g \<and> encode g y = Inr s \<and> decode g x s = Inr y"
  using golay_init_ok(1) golay_code.enc_total [of y] golay_code.corrects [of x y] assms by blast


section \<open>Instances\<close>

definition demo_word :: vec where
  "demo_word = [1, 1, 0, 1, 0, 0, 1, 0, 1, 1, 0, 1, 0, 0, 0, 1, 1, 0, 1, 0, 1, 1, 0]"

definition demo_noisy :: vec where
  "demo_noisy = [1, 0, 0, 1, 0, 0, 1, 0, 1, 0, 0, 1, 0, 0, 0, 1, 1, 0, 1, 0, 1, 1, 1]"

theorem golay_corrects_three_errors_witness:
  "\<exists>g s. golay_init = Inr g \<and> encode g demo_word = Inr s \<and> decode g demo_noisy s = Inr demo_word"
  by (rule golay_corrects_three_errors) (simp_all add: demo_word_def demo_noisy_def bin_def hdist_def)


end
