(* ===== verification/Codec.thy ===== *)
theory Codec
  imports Py_Base
begin

text \<open>
  The byte encodings the program uses: ISO-8859-1 (to carry raw bytes such as signatures inside
  JSON strings), UTF-8 (the wire form of names and JSON text) and big-endian lengths. A codec
  is an interface: on the values it accepts, encoding succeeds and decoding inverts it; two
  codecs in sequence are a codec again.
\<close>

section \<open>The codec interface\<close>

locale codec =
  fixes ok :: "'a \<Rightarrow> bool"
    and enc :: "'a \<Rightarrow> 'b res"
    and dec :: "'b \<Rightarrow> 'a res"
  assumes enc_total: "ok x \<Longrightarrow> \<exists>y. enc x = Inr y"
    and dec_enc: "ok x \<Longrightarrow> enc x = Inr y \<Longrightarrow> dec y = Inr x"
begin

lemma roundtrip: "ok x \<Longrightarrow> bindE (enc x) dec = Inr x"
  using enc_total dec_enc by fastforce

lemma enc_inject: "ok x \<Longrightarrow> ok y \<Longrightarrow> enc x = enc y \<Longrightarrow> x = y"
  using enc_total dec_enc by (metis sum.inject(2))

end

locale codec_chain =
  first: codec ok1 enc1 dec1 + second: codec ok2 enc2 dec2
  for ok1 :: "'a \<Rightarrow> bool" and enc1 :: "'a \<Rightarrow> 'b res" and dec1 :: "'b \<Rightarrow> 'a res"
    and ok2 :: "'b \<Rightarrow> bool" and enc2 :: "'b \<Rightarrow> 'c res" and dec2 :: "'c \<Rightarrow> 'b res" +
  assumes link: "ok1 x \<Longrightarrow> enc1 x = Inr y \<Longrightarrow> ok2 y"
begin

lemma chain_codec: "codec ok1 (\<lambda>x. bindE (enc1 x) enc2) (\<lambda>y. bindE (dec2 y) dec1)"
proof
  fix x
  assume ok: "ok1 x"
  then obtain y where y: "enc1 x = Inr y" using first.enc_total by blast
  with ok link second.enc_total show "\<exists>z. bindE (enc1 x) enc2 = Inr z" by auto
next
  fix x z
  assume ok: "ok1 x" and z: "bindE (enc1 x) enc2 = Inr z"
  then obtain y where y: "enc1 x = Inr y" "enc2 y = Inr z" by (auto simp: bindE_eq_Inr)
  with ok link have "dec2 z = Inr y" using second.dec_enc by blast
  with ok y(1) show "bindE (dec2 z) dec1 = Inr x" using first.dec_enc by simp
qed

end

section \<open>ISO-8859-1\<close>

definition latin1_decode :: "bytes \<Rightarrow> pystr" where
  "latin1_decode b = map unat b"

definition latin1_encode :: "pystr \<Rightarrow> bytes res" where
  "latin1_encode s = (if list_all (\<lambda>c. c < 256) s then Inr (map of_nat s) else Inl UnicodeEncodeError)"

lemma unat_byte_less [simp]: "unat (b :: byte) < 256"
  using unsigned_less [of b] by simp

lemma map_of_nat_unat [simp]: "map of_nat (map unat (b :: bytes)) = b"
  by (induction b) simp_all

lemma latin1_encode_decode [simp]: "latin1_encode (latin1_decode b) = Inr b"
  by (simp add: latin1_encode_def latin1_decode_def list_all_iff o_def)

interpretation latin1: codec "\<lambda>_. True" "\<lambda>b. Inr (latin1_decode b)" latin1_encode
  by unfold_locales auto

lemma latin1_decode_bound: "c \<in> set (latin1_decode b) \<Longrightarrow> c < 256"
  by (auto simp: latin1_decode_def)

section \<open>UTF-8\<close>

definition surrogate :: "nat \<Rightarrow> bool" where
  "surrogate c \<longleftrightarrow> 0xD800 \<le> c \<and> c < 0xE000"

definition scalar :: "nat \<Rightarrow> bool" where
  "scalar c \<longleftrightarrow> c < 0x110000 \<and> \<not> surrogate c"

abbreviation valid_str :: "pystr \<Rightarrow> bool" where
  "valid_str s \<equiv> list_all scalar s"

definition utf8_char :: "nat \<Rightarrow> nat list option" where
  "utf8_char c =
     (if c < 0x80 then Some [c]
      else if c < 0x800 then Some [0xC0 + c div 64, 0x80 + c mod 64]
      else if surrogate c then None
      else if c < 0x10000 then Some [0xE0 + c div 4096, 0x80 + c div 64 mod 64, 0x80 + c mod 64]
      else if c < 0x110000 then
        Some [0xF0 + c div 262144, 0x80 + c div 4096 mod 64, 0x80 + c div 64 mod 64, 0x80 + c mod 64]
      else None)"

fun utf8_enc :: "pystr \<Rightarrow> nat list option" where
  "utf8_enc [] = Some []"
| "utf8_enc (c # s) = (case utf8_char c of
     None \<Rightarrow> None
   | Some u \<Rightarrow> (case utf8_enc s of None \<Rightarrow> None | Some v \<Rightarrow> Some (u @ v)))"

definition utf8_encode :: "pystr \<Rightarrow> bytes res" where
  "utf8_encode s = of_option UnicodeEncodeError (map_option (map of_nat) (utf8_enc s))"

definition cont :: "nat \<Rightarrow> bool" where
  "cont b \<longleftrightarrow> 0x80 \<le> b \<and> b < 0xC0"

text \<open>The strict decoder: no overlong form, no surrogate, nothing above \<open>0x10FFFF\<close>.\<close>

fun utf8_dec :: "nat list \<Rightarrow> pystr option" where
  "utf8_dec [] = Some []"
| "utf8_dec (a # r) =
     (if a < 0x80 then map_option (Cons a) (utf8_dec r)
      else if a < 0xC2 then None
      else if a < 0xE0 then
        (case r of
           b # r' \<Rightarrow> if cont b then map_option (Cons ((a - 0xC0) * 64 + (b - 0x80))) (utf8_dec r') else None
         | _ \<Rightarrow> None)
      else if a < 0xF0 then
        (case r of
           b # c # r' \<Rightarrow>
             (let n = (a - 0xE0) * 4096 + (b - 0x80) * 64 + (c - 0x80)
              in if cont b \<and> cont c \<and> 0x800 \<le> n \<and> \<not> surrogate n
                 then map_option (Cons n) (utf8_dec r') else None)
         | _ \<Rightarrow> None)
      else if a < 0xF5 then
        (case r of
           b # c # d # r' \<Rightarrow>
             (let n = (a - 0xF0) * 262144 + (b - 0x80) * 4096 + (c - 0x80) * 64 + (d - 0x80)
              in if cont b \<and> cont c \<and> cont d \<and> 0x10000 \<le> n \<and> n < 0x110000
                 then map_option (Cons n) (utf8_dec r') else None)
         | _ \<Rightarrow> None)
      else None)"

definition utf8_decode :: "bytes \<Rightarrow> pystr res" where
  "utf8_decode b = of_option UnicodeDecodeError (utf8_dec (map unat b))"

lemma utf8_char_total: "scalar c \<Longrightarrow> \<exists>u. utf8_char c = Some u"
  by (simp add: utf8_char_def scalar_def)

lemma utf8_char_scalar: "utf8_char c = Some u \<Longrightarrow> scalar c"
  by (auto simp: utf8_char_def scalar_def surrogate_def split: if_splits)

lemma utf8_char_bytes: "utf8_char c = Some u \<Longrightarrow> b \<in> set u \<Longrightarrow> b < 256"
  by (auto simp: utf8_char_def split: if_splits)

lemma utf8_char_length: "utf8_char c = Some u \<Longrightarrow> 1 \<le> length u \<and> length u \<le> 4"
  by (auto simp: utf8_char_def split: if_splits)

lemma utf8_char_zero: "utf8_char c = Some u \<Longrightarrow> 0 \<in> set u \<longleftrightarrow> c = 0"
  by (auto simp: utf8_char_def split: if_splits)

lemma div_mod_64: "(c div 64) * 64 + c mod 64 = (c :: nat)"
  by simp

lemma div_mod_4096: "(c div 4096) * 4096 + (c div 64 mod 64) * 64 + c mod 64 = (c :: nat)"
proof -
  have "c div 4096 = c div 64 div 64" by (simp add: div_mult2_eq [symmetric])
  then show ?thesis
    using div_mult_mod_eq [of "c div 64" 64] div_mult_mod_eq [of c 64] by linarith
qed

lemma div_mod_262144:
  "(c div 262144) * 262144 + (c div 4096 mod 64) * 4096 + (c div 64 mod 64) * 64 + c mod 64 = (c :: nat)"
proof -
  have "c div 262144 = c div 4096 div 64" by (simp add: div_mult2_eq [symmetric])
  then have "(c div 262144) * 262144 + (c div 4096 mod 64) * 4096 = (c div 4096) * 4096"
    using div_mult_mod_eq [of "c div 4096" 64] by linarith
  then show ?thesis using div_mod_4096 [of c] by linarith
qed

lemma utf8_dec_char:
  assumes "utf8_char c = Some u"
  shows "utf8_dec (u @ r) = map_option (Cons c) (utf8_dec r)"
proof -
  consider "c < 0x80" | "0x80 \<le> c" "c < 0x800" | "0x800 \<le> c" "c < 0x10000" "\<not> surrogate c"
    | "0x10000 \<le> c" "c < 0x110000"
    using utf8_char_scalar [OF assms] unfolding scalar_def by linarith
  then show ?thesis
  proof cases
    case 1
    with assms have u: "u = [c]" by (simp add: utf8_char_def)
    from 1 show ?thesis by (simp add: u)
  next
    case 2
    with assms have u: "u = [0xC0 + c div 64, 0x80 + c mod 64]" by (simp add: utf8_char_def)
    from 2 have "2 \<le> c div 64" "c div 64 < 32" by auto
    then show ?thesis by (simp add: u cont_def)
  next
    case 3
    with assms have u: "u = [0xE0 + c div 4096, 0x80 + c div 64 mod 64, 0x80 + c mod 64]"
      by (simp add: utf8_char_def)
    from 3 have "c div 4096 < 16" by auto
    then show ?thesis using 3 by (simp add: u cont_def div_mod_4096)
  next
    case 4
    with assms have u: "u = [0xF0 + c div 262144, 0x80 + c div 4096 mod 64, 0x80 + c div 64 mod 64, 0x80 + c mod 64]"
      by (simp add: utf8_char_def surrogate_def)
    from 4 have "c div 262144 < 5" by auto
    then show ?thesis using 4 by (simp add: u cont_def div_mod_262144)
  qed
qed

lemma utf8_dec_enc: "utf8_enc s = Some u \<Longrightarrow> utf8_dec u = Some s"
  by (induction s arbitrary: u) (auto simp: utf8_dec_char split: option.splits)

lemma utf8_enc_total: "valid_str s \<Longrightarrow> \<exists>u. utf8_enc s = Some u"
proof (induction s)
  case Nil
  show ?case by simp
next
  case (Cons c s)
  then show ?case using utf8_char_total [of c] by fastforce
qed

lemma utf8_enc_bytes: "utf8_enc s = Some u \<Longrightarrow> b \<in> set u \<Longrightarrow> b < 256"
  by (induction s arbitrary: u) (auto simp: utf8_char_bytes split: option.splits)

lemma utf8_enc_zero: "utf8_enc s = Some u \<Longrightarrow> 0 \<in> set u \<longleftrightarrow> 0 \<in> set s"
  by (induction s arbitrary: u) (auto simp: utf8_char_zero split: option.splits)

lemma utf8_enc_Nil: "utf8_enc s = Some u \<Longrightarrow> u = [] \<longleftrightarrow> s = []"
  by (cases s) (auto dest!: utf8_char_length split: option.splits)

lemma map_unat_of_nat:
  "(\<And>b. b \<in> set u \<Longrightarrow> b < 256) \<Longrightarrow> map unat (map (of_nat :: nat \<Rightarrow> byte) u) = u"
  by (induction u) (simp_all add: unat_of_nat)

lemma utf8_encode_Inr:
  "utf8_encode s = Inr b \<longleftrightarrow> (\<exists>u. utf8_enc s = Some u \<and> b = map of_nat u)"
  by (auto simp: utf8_encode_def)

lemma utf8_decode_encode: "utf8_encode s = Inr b \<Longrightarrow> utf8_decode b = Inr s"
  by (auto simp: utf8_encode_Inr utf8_decode_def map_unat_of_nat utf8_enc_bytes utf8_dec_enc
      simp del: map_map)

interpretation utf8: codec "list_all scalar" utf8_encode utf8_decode
proof
  show "\<exists>b. utf8_encode s = Inr b" if "valid_str s" for s
    using utf8_enc_total [OF that] by (auto simp: utf8_encode_Inr)
  show "utf8_decode b = Inr s" if "valid_str s" "utf8_encode s = Inr b" for s b
    using that(2) by (rule utf8_decode_encode)
qed

text \<open>The decoder is strict: what it accepts is exactly what the encoder writes.\<close>

lemma quot_rem: "r < m \<Longrightarrow> (q * m + r) div m = q \<and> (q * m + r) mod m = (r :: nat)"
  by simp

lemma utf8_char_2:
  assumes "2 \<le> p" "p < 32" "q < 64" "n = p * 64 + q"
  shows "utf8_char n = Some [0xC0 + p, 0x80 + q]"
proof -
  have "n div 64 = p" "n mod 64 = q" "0x80 \<le> n" "n < 0x800"
    using quot_rem [of q 64 p] assms by auto
  then show ?thesis by (simp add: utf8_char_def)
qed

lemma utf8_char_3:
  assumes "p < 16" "q < 64" "r < 64" "n = p * 4096 + q * 64 + r" "0x800 \<le> n" "\<not> surrogate n"
  shows "utf8_char n = Some [0xE0 + p, 0x80 + q, 0x80 + r]"
proof -
  have n: "n = (p * 64 + q) * 64 + r" "n < 0x10000" using assms by simp_all
  have "n div 64 = p * 64 + q" "n mod 64 = r"
    using quot_rem [of r 64 "p * 64 + q"] assms(3) n(1) by simp_all
  moreover have "n div 4096 = n div 64 div 64" by (simp add: div_mult2_eq [symmetric])
  ultimately have "n div 4096 = p" "n div 64 mod 64 = q" "n mod 64 = r"
    using quot_rem [of q 64 p] assms(2) by simp_all
  then show ?thesis using n(2) assms(5,6) unfolding utf8_char_def by simp
qed

lemma utf8_char_4:
  assumes "o' < 5" "p < 64" "q < 64" "r < 64" "n = o' * 262144 + p * 4096 + q * 64 + r"
    "0x10000 \<le> n" "n < 0x110000"
  shows "utf8_char n = Some [0xF0 + o', 0x80 + p, 0x80 + q, 0x80 + r]"
proof -
  have n: "n = ((o' * 64 + p) * 64 + q) * 64 + r" using assms(5) by simp
  have "n div 64 = (o' * 64 + p) * 64 + q" "n mod 64 = r"
    using quot_rem [of r 64 "(o' * 64 + p) * 64 + q"] assms(4) n by simp_all
  moreover have "n div 4096 = n div 64 div 64" "n div 262144 = n div 64 div 64 div 64"
    by (simp_all add: div_mult2_eq [symmetric])
  ultimately have "n div 262144 = o'" "n div 4096 mod 64 = p" "n div 64 mod 64 = q" "n mod 64 = r"
    using quot_rem [of q 64 "o' * 64 + p"] quot_rem [of p 64 o'] assms(2,3) by simp_all
  moreover have "\<not> surrogate n" using assms(6) by (simp add: surrogate_def)
  ultimately show ?thesis using assms(6,7) unfolding utf8_char_def by simp
qed

lemma cont_split: "cont b \<Longrightarrow> b - 0x80 < 64 \<and> 0x80 + (b - 0x80) = b"
  by (auto simp: cont_def)

lemma utf8_dec_lead2:
  assumes "0xC2 \<le> a" "a < 0xE0" "utf8_dec (a # r) = Some s"
  obtains b r' t where "r = b # r'" "cont b" "utf8_dec r' = Some t" "s = ((a - 0xC0) * 64 + (b - 0x80)) # t"
  using assms by (auto split: list.splits if_splits)

lemma utf8_dec_lead3:
  assumes "0xE0 \<le> a" "a < 0xF0" "utf8_dec (a # r) = Some s"
  obtains b c r' t n where "r = b # c # r'" "cont b" "cont c" "utf8_dec r' = Some t" "s = n # t"
    "n = (a - 0xE0) * 4096 + (b - 0x80) * 64 + (c - 0x80)" "0x800 \<le> n" "\<not> surrogate n"
proof (cases r rule: utf8_dec.cases)
  case (2 b r1)
  show ?thesis
  proof (cases r1)
    case (Cons c r')
    define n where "n = (a - 0xE0) * 4096 + (b - 0x80) * 64 + (c - 0x80)"
    have "utf8_dec (a # b # c # r') = (if cont b \<and> cont c \<and> 0x800 \<le> n \<and> \<not> surrogate n
      then map_option (Cons n) (utf8_dec r') else None)"
      using assms(1,2) by (simp only: utf8_dec.simps n_def [symmetric] Let_def list.case) simp
    then have *: "(if cont b \<and> cont c \<and> 0x800 \<le> n \<and> \<not> surrogate n
      then map_option (Cons n) (utf8_dec r') else None) = Some s"
      using assms(3) 2 Cons by (simp only:)
    then have "cont b \<and> cont c \<and> 0x800 \<le> n \<and> \<not> surrogate n" by (meson option.distinct(1))
    moreover from this * obtain t where "utf8_dec r' = Some t" "s = n # t" by auto
    ultimately show ?thesis using that 2 Cons n_def by blast
  qed (use assms 2 in simp)
qed (use assms in simp)

lemma utf8_dec_lead4:
  assumes "0xF0 \<le> a" "a < 0xF5" "utf8_dec (a # r) = Some s"
  obtains b c d r' t n where "r = b # c # d # r'" "cont b" "cont c" "cont d" "utf8_dec r' = Some t"
    "s = n # t" "n = (a - 0xF0) * 262144 + (b - 0x80) * 4096 + (c - 0x80) * 64 + (d - 0x80)"
    "0x10000 \<le> n" "n < 0x110000"
proof -
  from assms obtain b c d r' where r: "r = b # c # d # r'" by (simp split: list.splits)
  define n where "n = (a - 0xF0) * 262144 + (b - 0x80) * 4096 + (c - 0x80) * 64 + (d - 0x80)"
  have "utf8_dec (a # b # c # d # r') = (if cont b \<and> cont c \<and> cont d \<and> 0x10000 \<le> n \<and> n < 0x110000
    then map_option (Cons n) (utf8_dec r') else None)"
    using assms(1,2) by (simp only: utf8_dec.simps n_def [symmetric] Let_def list.case) simp
  then have *: "(if cont b \<and> cont c \<and> cont d \<and> 0x10000 \<le> n \<and> n < 0x110000
    then map_option (Cons n) (utf8_dec r') else None) = Some s"
    using assms(3) r by (simp only:)
  then have "cont b \<and> cont c \<and> cont d \<and> 0x10000 \<le> n \<and> n < 0x110000" by (meson option.distinct(1))
  moreover from this * obtain t where "utf8_dec r' = Some t" "s = n # t" by auto
  ultimately show ?thesis using that r n_def by blast
qed

lemma utf8_enc_dec: "utf8_dec u = Some s \<Longrightarrow> utf8_enc s = Some u"
proof (induction u arbitrary: s rule: length_induct)
  case (1 u)
  show ?case
  proof (cases u)
    case Nil
    with 1 show ?thesis by simp
  next
    case u: (Cons a r)
    note dec = "1.prems" [unfolded u]
    have IH: "utf8_enc t = Some v" if "utf8_dec v = Some t" "length v < length u" for t v
      using "1.IH" that by blast
    consider "a < 0x80" | "0x80 \<le> a" "a < 0xC2" | "0xC2 \<le> a" "a < 0xE0" | "0xE0 \<le> a" "a < 0xF0"
      | "0xF0 \<le> a" "a < 0xF5" | "0xF5 \<le> a" by linarith
    then show ?thesis
    proof cases
      case 1
      with dec obtain t where "s = a # t" "utf8_dec r = Some t" by auto
      with 1 IH [of r t] u show ?thesis by (simp add: utf8_char_def)
    next
      case 3
      from utf8_dec_lead2 [OF 3 dec] obtain b r' t where *: "r = b # r'" "cont b" "utf8_dec r' = Some t"
        "s = ((a - 0xC0) * 64 + (b - 0x80)) # t" .
      have "utf8_char ((a - 0xC0) * 64 + (b - 0x80)) = Some [a, b]"
        using utf8_char_2 [of "a - 0xC0" "b - 0x80"] cont_split [OF *(2)] 3 by simp
      with *(1,4) IH [OF *(3)] u show ?thesis by simp
    next
      case 4
      from utf8_dec_lead3 [OF 4 dec] obtain b c r' t n where *: "r = b # c # r'" "cont b" "cont c"
        "utf8_dec r' = Some t" "s = n # t" "n = (a - 0xE0) * 4096 + (b - 0x80) * 64 + (c - 0x80)"
        "0x800 \<le> n" "\<not> surrogate n" .
      have "utf8_char n = Some [a, b, c]"
        using utf8_char_3 [OF _ _ _ *(6,7,8)] cont_split [OF *(2)] cont_split [OF *(3)] 4 by simp
      with *(1,5) IH [OF *(4)] u show ?thesis by simp
    next
      case 5
      from utf8_dec_lead4 [OF 5 dec] obtain b c d r' t n where *: "r = b # c # d # r'" "cont b" "cont c"
        "cont d" "utf8_dec r' = Some t" "s = n # t"
        "n = (a - 0xF0) * 262144 + (b - 0x80) * 4096 + (c - 0x80) * 64 + (d - 0x80)"
        "0x10000 \<le> n" "n < 0x110000" .
      have "utf8_char n = Some [a, b, c, d]"
        using utf8_char_4 [OF _ _ _ _ *(7,8,9)] cont_split [OF *(2)] cont_split [OF *(3)]
          cont_split [OF *(4)] 5 by simp
      with *(1,6) IH [OF *(5)] u show ?thesis by simp
    qed (use dec in simp_all)
  qed
qed

lemma utf8_encode_decode: "utf8_decode b = Inr s \<Longrightarrow> utf8_encode s = Inr b"
proof -
  assume "utf8_decode b = Inr s"
  then have "utf8_enc s = Some (map unat b)" by (simp add: utf8_decode_def utf8_enc_dec)
  then show ?thesis by (simp add: utf8_encode_Inr del: map_map)
qed

text \<open>ASCII text is its own UTF-8 form.\<close>

lemma utf8_enc_ascii: "list_all (\<lambda>c. c < 0x80) s \<Longrightarrow> utf8_enc s = Some s"
  by (induction s) (auto simp: utf8_char_def)

lemma utf8_encode_ascii: "list_all (\<lambda>c. c < 0x80) s \<Longrightarrow> utf8_encode s = Inr (map of_nat s)"
  by (simp add: utf8_encode_def utf8_enc_ascii)

section \<open>Big-endian integers\<close>

fun be_bytes :: "nat \<Rightarrow> nat \<Rightarrow> bytes" where
  "be_bytes 0 x = []"
| "be_bytes (Suc n) x = be_bytes n (x div 256) @ [of_nat (x mod 256)]"

text \<open>\<open>x.to_bytes(n, 'big')\<close>.\<close>

definition to_bytes :: "int \<Rightarrow> nat \<Rightarrow> bytes res" where
  "to_bytes x n = (if 0 \<le> x \<and> x < 256 ^ n then Inr (be_bytes n (nat x)) else Inl OverflowError)"

text \<open>\<open>int.from_bytes(b, 'big')\<close>.\<close>

definition from_bytes :: "bytes \<Rightarrow> nat" where
  "from_bytes b = foldl (\<lambda>a x. a * 256 + unat x) 0 b"

lemma length_be_bytes [simp]: "length (be_bytes n x) = n"
  by (induction n arbitrary: x) simp_all

lemma be_bytes_4: "be_bytes 4 x = [of_nat (x div 256 div 256 div 256 mod 256), of_nat (x div 256 div 256 mod 256),
     of_nat (x div 256 mod 256), of_nat (x mod 256)]"
proof -
  have four: "4 = Suc (Suc (Suc (Suc 0)))" by simp
  show ?thesis by (simp only: four be_bytes.simps append.simps)
qed

lemma from_be_bytes: "x < 256 ^ n \<Longrightarrow> from_bytes (be_bytes n x) = x"
proof (induction n arbitrary: x)
  case 0
  then show ?case by (simp add: from_bytes_def)
next
  case (Suc n)
  then have "x div 256 < 256 ^ n" by auto
  from Suc.IH [OF this] show ?case by (simp add: from_bytes_def unat_of_nat)
qed

lemma to_bytes_nat: "x < 256 ^ n \<Longrightarrow> to_bytes (int x) n = Inr (be_bytes n x)"
proof -
  assume "x < 256 ^ n"
  then have "int x < int (256 ^ n)" by (simp only: of_nat_less_iff)
  then show ?thesis by (simp add: to_bytes_def)
qed

end
