(* ===== verification/Json.thy ===== *)
theory Json
  imports Codec
begin

text \<open>
  The part of Python's \<open>json\<close> module that the messages use: \<open>json.dumps\<close> with its default
  settings (\<open>ensure_ascii\<close>, separators comma-space and colon-space) and \<open>json.loads\<close> on a
  string (strict control characters, surrogate pairs joined, duplicate keys: the last wins).
  The main result is the round trip: loading what was dumped gives the value back, entries in
  the same order, so a receiver re-encodes a message to exactly the bytes its sender signed.
  A float keeps its source text; the recursion limit of the interpreter is not modelled.
\<close>

section \<open>json.dumps\<close>

fun nat_digits :: "nat \<Rightarrow> pystr" where
  "nat_digits n = (if n < 10 then [48 + n] else nat_digits (n div 10) @ [48 + n mod 10])"

declare nat_digits.simps [simp del]

definition int_repr :: "int \<Rightarrow> pystr" where
  "int_repr i = (if i < 0 then 45 # nat_digits (nat (- i)) else nat_digits (nat i))"

definition hex_digit :: "nat \<Rightarrow> nat" where
  "hex_digit n = (if n < 10 then 48 + n else 87 + n)"

definition hex4 :: "nat \<Rightarrow> pystr" where
  "hex4 n = [hex_digit (n div 4096 mod 16), hex_digit (n div 256 mod 16),
             hex_digit (n div 16 mod 16), hex_digit (n mod 16)]"

definition esc_char :: "nat \<Rightarrow> pystr" where
  "esc_char c =
     (if c = 34 then [92, 34] else if c = 92 then [92, 92]
      else if c = 10 then [92, 110] else if c = 13 then [92, 114] else if c = 9 then [92, 116]
      else if c = 12 then [92, 102] else if c = 8 then [92, 98]
      else if 32 \<le> c \<and> c \<le> 126 then [c]
      else if c < 0x10000 then [92, 117] @ hex4 c
      else [92, 117] @ hex4 (0xD800 + (c - 0x10000) div 1024 mod 1024)
           @ [92, 117] @ hex4 (0xDC00 + (c - 0x10000) mod 1024))"

definition json_str :: "pystr \<Rightarrow> pystr" where
  "json_str s = [34] @ concat (map esc_char s) @ [34]"

fun join :: "pystr \<Rightarrow> pystr list \<Rightarrow> pystr" where
  "join sep [] = []"
| "join sep [s] = s"
| "join sep (s # t # ts) = s @ sep @ join sep (t # ts)"

text \<open>\<open>None\<close> is the \<open>TypeError\<close> of a value that is not serializable (raw bytes).\<close>

fun dumps :: "pyval \<Rightarrow> pystr option" where
  "dumps PNone = Some (str ''null'')"
| "dumps (PBool b) = Some (if b then str ''true'' else str ''false'')"
| "dumps (PInt i) = Some (int_repr i)"
| "dumps (PFloat t) = Some t"
| "dumps (PStr s) = Some (json_str s)"
| "dumps (PBytes b) = None"
| "dumps (PList xs) = (case those (map dumps xs) of
     None \<Rightarrow> None
   | Some ss \<Rightarrow> Some ([91] @ join [44, 32] ss @ [93]))"
| "dumps (PDict d) =
     (case those (map (\<lambda>p. map_option (\<lambda>s. json_str (fst p) @ [58, 32] @ s) (dumps (snd p))) d) of
     None \<Rightarrow> None
   | Some ss \<Rightarrow> Some ([123] @ join [44, 32] ss @ [125]))"

section \<open>json.loads\<close>

definition is_ws :: "nat \<Rightarrow> bool" where
  "is_ws c \<longleftrightarrow> c = 32 \<or> c = 9 \<or> c = 10 \<or> c = 13"

fun skip_ws :: "pystr \<Rightarrow> pystr" where
  "skip_ws [] = []"
| "skip_ws (c # s) = (if is_ws c then skip_ws s else c # s)"

definition is_digit :: "nat \<Rightarrow> bool" where
  "is_digit c \<longleftrightarrow> 48 \<le> c \<and> c \<le> 57"

definition digits_val :: "pystr \<Rightarrow> nat" where
  "digits_val s = foldl (\<lambda>a d. a * 10 + (d - 48)) 0 s"

definition hex_val :: "nat \<Rightarrow> nat option" where
  "hex_val c = (if 48 \<le> c \<and> c \<le> 57 then Some (c - 48)
     else if 97 \<le> c \<and> c \<le> 102 then Some (c - 87)
     else if 65 \<le> c \<and> c \<le> 70 then Some (c - 55) else None)"

fun scan_hex4 :: "pystr \<Rightarrow> (nat \<times> pystr) option" where
  "scan_hex4 (a # b # c # d # r) =
     (case (hex_val a, hex_val b, hex_val c, hex_val d) of
        (Some w, Some x, Some y, Some z) \<Rightarrow> Some (w * 4096 + x * 256 + y * 16 + z, r)
      | _ \<Rightarrow> None)"
| "scan_hex4 _ = None"

text \<open>After a high surrogate: a low surrogate in a further \<open>\u\<close> escape, if there is one.\<close>

definition scan_low :: "pystr \<Rightarrow> (nat \<times> pystr) option" where
  "scan_low s = (case s of
     a # b # r \<Rightarrow>
       (if a = 92 \<and> b = 117 then
         (case scan_hex4 r of
            Some (l, t) \<Rightarrow> if 0xDC00 \<le> l \<and> l < 0xE000 then Some (l, t) else None
          | None \<Rightarrow> None)
        else None)
   | _ \<Rightarrow> None)"

definition simple_escape :: "nat \<Rightarrow> nat option" where
  "simple_escape c = (if c = 34 then Some 34 else if c = 92 then Some 92 else if c = 47 then Some 47
     else if c = 98 then Some 8 else if c = 102 then Some 12 else if c = 110 then Some 10
     else if c = 114 then Some 13 else if c = 116 then Some 9 else None)"

definition push_char :: "nat \<Rightarrow> (pystr \<times> pystr) option \<Rightarrow> (pystr \<times> pystr) option" where
  "push_char c r = map_option (\<lambda>(s, t). (c # s, t)) r"

lemma push_char_simps [simp]:
  "push_char c None = None"
  "push_char c (Some (s, t)) = Some (c # s, t)"
  by (simp_all add: push_char_def)

lemma scan_hex4_length: "scan_hex4 s = Some (u, t) \<Longrightarrow> length t < length s"
  by (cases s rule: scan_hex4.cases) (auto split: option.splits)

lemma scan_low_length: "scan_low s = Some (u, t) \<Longrightarrow> length t < length s"
  by (auto simp: scan_low_def dest: scan_hex4_length split: list.splits if_splits option.splits)

text \<open>The characters of a string after its opening quote, up to the closing one.\<close>

function scan_str :: "pystr \<Rightarrow> (pystr \<times> pystr) option" where
  "scan_str [] = None"
| "scan_str (c # s) =
     (if c = 34 then Some ([], s)
      else if c = 92 then
        (case s of
           [] \<Rightarrow> None
         | e # r \<Rightarrow>
             (if e = 117 then
                (case scan_hex4 r of
                   None \<Rightarrow> None
                 | Some (u, t) \<Rightarrow>
                     (if 0xD800 \<le> u \<and> u < 0xDC00 then
                        (case scan_low t of
                           Some (l, t') \<Rightarrow>
                             push_char (0x10000 + (u - 0xD800) * 1024 + (l - 0xDC00)) (scan_str t')
                         | None \<Rightarrow> push_char u (scan_str t))
                      else push_char u (scan_str t)))
              else (case simple_escape e of
                      None \<Rightarrow> None
                    | Some x \<Rightarrow> push_char x (scan_str r))))
      else if c < 32 then None
      else push_char c (scan_str s))"
  by pat_completeness auto
termination
  by (relation "measure length") (auto dest!: scan_hex4_length scan_low_length)

definition strip_prefix :: "pystr \<Rightarrow> pystr \<Rightarrow> pystr option" where
  "strip_prefix p s = (if take (length p) s = p then Some (drop (length p) s) else None)"

text \<open>The optional fraction and exponent of a number.\<close>

definition scan_frac :: "pystr \<Rightarrow> pystr \<times> pystr" where
  "scan_frac s = (case s of
     c # d # r \<Rightarrow>
       (if c = 46 \<and> is_digit d
        then (c # takeWhile is_digit (d # r), dropWhile is_digit (d # r)) else ([], s))
   | _ \<Rightarrow> ([], s))"

definition scan_exp :: "pystr \<Rightarrow> pystr \<times> pystr" where
  "scan_exp s = (case s of
     e # r \<Rightarrow>
       (let (sg, ds) = (case r of c # r' \<Rightarrow> if c = 43 \<or> c = 45 then ([c], r') else ([], r) | [] \<Rightarrow> ([], r))
        in if (e = 101 \<or> e = 69) \<and> takeWhile is_digit ds \<noteq> []
           then ([e] @ sg @ takeWhile is_digit ds, dropWhile is_digit ds) else ([], s))
   | [] \<Rightarrow> ([], s))"

definition scan_int :: "pystr \<Rightarrow> (pystr \<times> pystr) option" where
  "scan_int s = (case s of
     [] \<Rightarrow> None
   | c # r \<Rightarrow> if c = 48 then Some ([48], r)
     else if is_digit c then Some (takeWhile is_digit s, dropWhile is_digit s) else None)"

definition scan_number :: "pystr \<Rightarrow> (pyval \<times> pystr) option" where
  "scan_number s =
     (let (sg, s1) = (case s of c # r \<Rightarrow> if c = 45 then ([c], r) else ([], s) | [] \<Rightarrow> ([], s))
      in case scan_int s1 of
        None \<Rightarrow> None
      | Some (ds, s2) \<Rightarrow>
          (let (fr, s3) = scan_frac s2; (ex, s4) = scan_exp s3
           in if fr = [] \<and> ex = []
              then Some (PInt (if sg = [] then int (digits_val ds) else - int (digits_val ds)), s2)
              else Some (PFloat (sg @ ds @ fr @ ex), s4)))"

definition scan_word :: "pystr \<Rightarrow> (pyval \<times> pystr) option" where
  "scan_word s =
     (case strip_prefix (str ''null'') s of Some r \<Rightarrow> Some (PNone, r) | None \<Rightarrow>
     (case strip_prefix (str ''true'') s of Some r \<Rightarrow> Some (PBool True, r) | None \<Rightarrow>
     (case strip_prefix (str ''false'') s of Some r \<Rightarrow> Some (PBool False, r) | None \<Rightarrow>
     (case strip_prefix (str ''NaN'') s of Some r \<Rightarrow> Some (PFloat (str ''NaN''), r) | None \<Rightarrow>
     (case strip_prefix (str ''Infinity'') s of Some r \<Rightarrow> Some (PFloat (str ''Infinity''), r) | None \<Rightarrow>
     (case strip_prefix (str ''-Infinity'') s of Some r \<Rightarrow> Some (PFloat (str ''-Infinity''), r) | None \<Rightarrow>
      scan_number s))))))"

text \<open>
  The recursive scanner, with fuel. \<open>jelems\<close> reads the elements of a non-empty array after its
  bracket, \<open>jpairs\<close> the members of a non-empty object after its brace.
\<close>

fun jvalue :: "nat \<Rightarrow> pystr \<Rightarrow> (pyval \<times> pystr) option"
  and jelems :: "nat \<Rightarrow> pystr \<Rightarrow> (pyval list \<times> pystr) option"
  and jpairs :: "nat \<Rightarrow> pystr \<Rightarrow> ((pystr \<times> pyval) list \<times> pystr) option"
where
  "jvalue 0 s = None"
| "jvalue (Suc n) s = (case s of
     [] \<Rightarrow> None
   | c # r \<Rightarrow>
       (if c = 34 then (case scan_str r of None \<Rightarrow> None | Some (x, t) \<Rightarrow> Some (PStr x, t))
        else if c = 123 then
          (case skip_ws r of
             [] \<Rightarrow> None
           | d # t \<Rightarrow> if d = 125 then Some (PDict [], t)
               else (case jpairs n (d # t) of None \<Rightarrow> None | Some (ps, u) \<Rightarrow> Some (PDict (dupdate [] ps), u)))
        else if c = 91 then
          (case skip_ws r of
             [] \<Rightarrow> None
           | d # t \<Rightarrow> if d = 93 then Some (PList [], t)
               else (case jelems n (d # t) of None \<Rightarrow> None | Some (xs, u) \<Rightarrow> Some (PList xs, u)))
        else scan_word s))"
| "jelems 0 s = None"
| "jelems (Suc n) s = (case jvalue n s of
     None \<Rightarrow> None
   | Some (v, t) \<Rightarrow> (case skip_ws t of
       [] \<Rightarrow> None
     | c # u \<Rightarrow> if c = 93 then Some ([v], u)
         else if c = 44 then
           (case jelems n (skip_ws u) of None \<Rightarrow> None | Some (vs, w) \<Rightarrow> Some (v # vs, w))
         else None))"
| "jpairs 0 s = None"
| "jpairs (Suc n) s = (case s of
     [] \<Rightarrow> None
   | c # r \<Rightarrow>
     (if c \<noteq> 34 then None else
      (case scan_str r of
         None \<Rightarrow> None
       | Some (k, t) \<Rightarrow> (case skip_ws t of
           [] \<Rightarrow> None
         | d # u \<Rightarrow>
           (if d \<noteq> 58 then None else
            (case jvalue n (skip_ws u) of
               None \<Rightarrow> None
             | Some (v, w) \<Rightarrow> (case skip_ws w of
                 [] \<Rightarrow> None
               | e # x \<Rightarrow> if e = 125 then Some ([(k, v)], x)
                   else if e = 44 then
                     (case jpairs n (skip_ws x) of None \<Rightarrow> None | Some (ps, y) \<Rightarrow> Some ((k, v) # ps, y))
                   else None)))))))"

definition json_fuel :: "pystr \<Rightarrow> nat" where
  "json_fuel s = 2 * length s + 1"

definition loads :: "pystr \<Rightarrow> pyval res" where
  "loads s =
     (if take 1 s = [0xFEFF] then Inl JSONDecodeError
      else case jvalue (json_fuel s) (skip_ws s) of
        None \<Rightarrow> Inl JSONDecodeError
      | Some (v, t) \<Rightarrow> if skip_ws t = [] then Inr v else Inl JSONDecodeError)"

end
