(* ===== verification/Json_Roundtrip.thy ===== *)
theory Json_Roundtrip
  imports Json
begin

text \<open>
  What the JSON model promises: the scanner consumes input and its fuel is enough (more fuel
  never changes an answer), the printer writes ASCII, and scanning what was printed gives the
  value back.
\<close>

declare jvalue.simps(2) [simp del] jelems.simps(2) [simp del] jpairs.simps(2) [simp del]

section \<open>The scanner consumes input, and its fuel is enough\<close>

lemma skip_ws_length: "length (skip_ws s) \<le> length s"
  by (induction s) auto

lemma scan_str_length: "scan_str s = Some (x, t) \<Longrightarrow> length t < length s"
proof (induction s arbitrary: x t rule: scan_str.induct)
  case 1
  then show ?case by simp
next
  case (2 c s)
  then show ?case
    by (fastforce simp: push_char_def dest: scan_hex4_length scan_low_length
        split: if_splits list.splits option.splits prod.splits)
qed

lemma scan_int_length: "scan_int s = Some (ds, r) \<Longrightarrow> length r < length s"
  by (cases s) (auto simp: scan_int_def le_imp_less_Suc length_dropWhile_le split: if_splits)

lemma scan_frac_length: "length (snd (scan_frac s)) \<le> length s"
  by (auto simp: scan_frac_def le_SucI length_dropWhile_le split: list.split)

lemma scan_exp_length: "length (snd (scan_exp s)) \<le> length s"
  by (auto simp: scan_exp_def Let_def le_SucI length_dropWhile_le split: list.split prod.split)

lemma scan_number_length: "scan_number s = Some (v, t) \<Longrightarrow> length t < length s"
proof -
  assume *: "scan_number s = Some (v, t)"
  define s1 where "s1 = snd (case s of c # r \<Rightarrow> if c = 45 then ([c], r) else ([], s) | [] \<Rightarrow> ([], s))"
  have s1: "length s1 \<le> length s" by (auto simp: s1_def split: list.split)
  from * obtain ds s2 where s2: "scan_int s1 = Some (ds, s2)"
    by (auto simp: scan_number_def s1_def split: prod.splits option.splits)
  have "length (snd (scan_exp (snd (scan_frac s2)))) \<le> length s2"
    using scan_exp_length scan_frac_length le_trans by blast
  moreover from * s2 have "t = s2 \<or> t = snd (scan_exp (snd (scan_frac s2)))"
    by (auto simp: scan_number_def s1_def Let_def split: prod.splits option.splits if_splits)
  ultimately show ?thesis using scan_int_length [OF s2] s1 by auto
qed

lemma strip_prefix_length: "strip_prefix p s = Some r \<Longrightarrow> p \<noteq> [] \<Longrightarrow> length r < length s"
  by (cases s) (auto simp: strip_prefix_def split: if_splits)

lemma scan_word_length: "scan_word s = Some (v, t) \<Longrightarrow> length t < length s"
  by (auto simp: scan_word_def dest!: strip_prefix_length scan_number_length split: option.splits)

lemma skip_ws_Cons_length: "skip_ws s = c # t \<Longrightarrow> length t < length s"
  using skip_ws_length [of s] by simp

text \<open>
  What the element and member scanners read before they recurse: a value (with its key) and
  the first character after it.
\<close>

definition jelems_head :: "nat \<Rightarrow> pystr \<Rightarrow> (pyval \<times> nat \<times> pystr) option" where
  "jelems_head n s = (case jvalue n s of
     None \<Rightarrow> None
   | Some (v, t) \<Rightarrow> (case skip_ws t of [] \<Rightarrow> None | c # u \<Rightarrow> Some (v, c, u)))"

definition jkey :: "pystr \<Rightarrow> (pystr \<times> pystr) option" where
  "jkey s = (case s of [] \<Rightarrow> None | c # r \<Rightarrow> if c \<noteq> 34 then None else
     (case scan_str r of None \<Rightarrow> None | Some (k, t) \<Rightarrow>
       (case skip_ws t of [] \<Rightarrow> None | d # u \<Rightarrow> if d \<noteq> 58 then None else Some (k, skip_ws u))))"

definition jpairs_head :: "nat \<Rightarrow> pystr \<Rightarrow> (pystr \<times> pyval \<times> nat \<times> pystr) option" where
  "jpairs_head n s = (case jkey s of None \<Rightarrow> None | Some (k, t) \<Rightarrow>
     (case jelems_head n t of None \<Rightarrow> None | Some (v, c, u) \<Rightarrow> Some (k, v, c, u)))"

lemma jelems_Suc:
  "jelems (Suc n) s = (case jelems_head n s of
     None \<Rightarrow> None
   | Some (v, c, u) \<Rightarrow> if c = 93 then Some ([v], u)
       else if c = 44 then (case jelems n (skip_ws u) of None \<Rightarrow> None | Some (vs, w) \<Rightarrow> Some (v # vs, w))
       else None)"
  by (simp add: jelems.simps(2) jelems_head_def split: option.split list.split prod.split)

lemma jpairs_Suc:
  "jpairs (Suc n) s = (case jpairs_head n s of
     None \<Rightarrow> None
   | Some (k, v, c, u) \<Rightarrow> if c = 125 then Some ([(k, v)], u)
       else if c = 44 then (case jpairs n (skip_ws u) of None \<Rightarrow> None | Some (ps, w) \<Rightarrow> Some ((k, v) # ps, w))
       else None)"
  by (simp add: jpairs.simps(2) jpairs_head_def jelems_head_def jkey_def
      split: option.split list.split prod.split)

lemma jkey_length: "jkey s = Some (k, t) \<Longrightarrow> length t < length s"
  unfolding jkey_def
  by (auto split: list.splits if_splits option.splits prod.splits
      dest!: scan_str_length skip_ws_Cons_length intro: le_less_trans [OF skip_ws_length])

text \<open>One successful step of each scanner, inverted.\<close>

lemma jvalue_Suc_Some:
  "jvalue (Suc n) s = Some (v, t) \<Longrightarrow>
     (\<exists>r x. s = 34 # r \<and> scan_str r = Some (x, t))
   \<or> (\<exists>r d u. s = 123 # r \<and> skip_ws r = d # u \<and> (t = u \<or> (\<exists>ps. jpairs n (d # u) = Some (ps, t))))
   \<or> (\<exists>r d u. s = 91 # r \<and> skip_ws r = d # u \<and> (t = u \<or> (\<exists>vs. jelems n (d # u) = Some (vs, t))))
   \<or> scan_word s = Some (v, t)"
  by (auto simp: jvalue.simps(2) split: list.splits if_splits option.splits prod.splits)

lemma scanner_length:
  "(\<forall>s v t. jvalue n s = Some (v, t) \<longrightarrow> length t < length s)
   \<and> (\<forall>s vs t. jelems n s = Some (vs, t) \<longrightarrow> length t < length s)
   \<and> (\<forall>s ps t. jpairs n s = Some (ps, t) \<longrightarrow> length t < length s)"
proof (induction n)
  case 0
  show ?case by simp
next
  case (Suc n)
  have ws: "length (skip_ws s) \<le> length s" for s by (rule skip_ws_length)
  have v: "length t < length s" if "jvalue (Suc n) s = Some (v, t)" for s v t
    using jvalue_Suc_Some [OF that] Suc.IH
    by (elim disjE exE conjE)
      (fastforce dest: scan_str_length scan_word_length skip_ws_Cons_length)+
  have h: "length u < length s" if "jelems_head n s = Some (v, c, u)" for s v c u
    using that Suc.IH unfolding jelems_head_def
    by (fastforce split: option.splits list.splits dest: skip_ws_Cons_length)
  have tail: "length t < length s"
    if "t = u \<or> (\<exists>vs. jelems n (skip_ws u) = Some (vs, t)) \<or> (\<exists>ps. jpairs n (skip_ws u) = Some (ps, t))"
      and u: "length u < length s" for s t u :: pystr
  proof -
    from that(1) Suc.IH have "t = u \<or> length t < length (skip_ws u)" by blast
    with ws [of u] u show ?thesis by auto
  qed
  have e: "length t < length s" if "jelems (Suc n) s = Some (vs, t)" for s vs t
  proof -
    from that obtain v c u where "jelems_head n s = Some (v, c, u)"
      and "t = u \<or> (\<exists>vs'. jelems n (skip_ws u) = Some (vs', t))"
      by (auto simp: jelems_Suc split: option.splits if_splits)
    then show ?thesis using h tail by blast
  qed
  have p: "length t < length s" if "jpairs (Suc n) s = Some (ps, t)" for s ps t
  proof -
    from that obtain k t1 v c u where *: "jkey s = Some (k, t1)" "jelems_head n t1 = Some (v, c, u)"
      and t: "t = u \<or> (\<exists>ps'. jpairs n (skip_ws u) = Some (ps', t))"
      by (auto simp: jpairs_Suc jpairs_head_def split: option.splits if_splits)
    from * h jkey_length have "length u < length s" by (meson less_trans)
    with t tail show ?thesis by blast
  qed
  show ?case using v e p by blast
qed

lemma jvalue_length: "jvalue n s = Some (v, t) \<Longrightarrow> length t < length s"
  using scanner_length by blast

lemma jelems_head_length: "jelems_head n s = Some (v, c, u) \<Longrightarrow> length u < length s"
  unfolding jelems_head_def
  by (fastforce split: option.splits list.splits dest: skip_ws_Cons_length jvalue_length)

lemma jpairs_head_length: "jpairs_head n s = Some (k, v, c, u) \<Longrightarrow> length u < length s"
  unfolding jpairs_head_def
  by (fastforce split: option.splits dest: jkey_length jelems_head_length)

text \<open>Enough fuel: from \<open>2 * length s + 1\<close> on, one more unit changes nothing.\<close>

lemma jvalue_fuel_step:
  assumes "\<And>s. 2 * length s + 2 \<le> n \<Longrightarrow> jelems (Suc n) s = jelems n s"
    and "\<And>s. 2 * length s + 2 \<le> n \<Longrightarrow> jpairs (Suc n) s = jpairs n s"
    and "2 * length s + 1 \<le> Suc n"
  shows "jvalue (Suc (Suc n)) s = jvalue (Suc n) s"
proof (cases s)
  case (Cons c r)
  have "jelems (Suc n) (d # t) = jelems n (d # t)" "jpairs (Suc n) (d # t) = jpairs n (d # t)"
    if "skip_ws r = d # t" for d t
    using skip_ws_Cons_length [OF that] assms(3) Cons
    by (simp_all add: assms(1,2))
  then show ?thesis
    by (cases "skip_ws r") (simp_all add: Cons jvalue.simps(2))
qed (simp add: jvalue.simps(2))

lemma jelems_fuel_step:
  assumes v: "\<And>s. 2 * length s + 1 \<le> n \<Longrightarrow> jvalue (Suc n) s = jvalue n s"
    and e: "\<And>s. 2 * length s + 2 \<le> n \<Longrightarrow> jelems (Suc n) s = jelems n s"
    and n: "2 * length s + 2 \<le> Suc n"
  shows "jelems (Suc (Suc n)) s = jelems (Suc n) s"
proof (cases "jelems_head n s")
  case None
  then show ?thesis using v [of s] n by (simp add: jelems_Suc jelems_head_def)
next
  case (Some vcu)
  obtain x c u where h: "jelems_head n s = Some (x, c, u)" using Some by (cases vcu) auto
  then obtain t where t: "jvalue n s = Some (x, t)" "skip_ws t = c # u"
    by (auto simp: jelems_head_def split: option.splits list.splits)
  have "jelems (Suc n) (skip_ws u) = jelems n (skip_ws u)"
    using jvalue_length [OF t(1)] skip_ws_Cons_length [OF t(2)] skip_ws_length [of u] n
    by (intro e) linarith
  moreover have "jelems_head (Suc n) s = jelems_head n s"
    using v [of s] n by (simp add: jelems_head_def)
  ultimately show ?thesis using h by (simp add: jelems_Suc)
qed

lemma jpairs_fuel_step:
  assumes v: "\<And>s. 2 * length s + 1 \<le> n \<Longrightarrow> jvalue (Suc n) s = jvalue n s"
    and p: "\<And>s. 2 * length s + 2 \<le> n \<Longrightarrow> jpairs (Suc n) s = jpairs n s"
    and n: "2 * length s + 2 \<le> Suc n"
  shows "jpairs (Suc (Suc n)) s = jpairs (Suc n) s"
proof -
  have head: "jpairs_head (Suc n) s = jpairs_head n s"
  proof (cases "jkey s")
    case (Some kt)
    with v [of "snd kt"] jkey_length [of s "fst kt" "snd kt"] n show ?thesis
      by (cases kt) (simp add: jpairs_head_def jelems_head_def)
  qed (simp add: jpairs_head_def)
  show ?thesis
  proof (cases "jpairs_head n s")
    case None
    with head show ?thesis by (simp add: jpairs_Suc)
  next
    case (Some kvx)
    obtain k x c u where h: "jpairs_head n s = Some (k, x, c, u)" using Some by (cases kvx) auto
    from jpairs_head_length [OF h] n have "jpairs (Suc n) (skip_ws u) = jpairs n (skip_ws u)"
      using skip_ws_length [of u] by (intro p) linarith
    with h head show ?thesis by (simp add: jpairs_Suc)
  qed
qed

lemma fuel_step:
  "(\<forall>s. 2 * length s + 1 \<le> n \<longrightarrow> jvalue (Suc n) s = jvalue n s)
   \<and> (\<forall>s. 2 * length s + 2 \<le> n \<longrightarrow> jelems (Suc n) s = jelems n s)
   \<and> (\<forall>s. 2 * length s + 2 \<le> n \<longrightarrow> jpairs (Suc n) s = jpairs n s)"
proof (induction n)
  case 0
  show ?case by simp
next
  case (Suc n)
  then show ?case
    using jvalue_fuel_step [of n] jelems_fuel_step [of n] jpairs_fuel_step [of n] by blast
qed

lemma jvalue_fuel_enough:
  assumes "json_fuel s \<le> n"
  shows "jvalue n s = jvalue (json_fuel s) s"
  using assms
proof (induction n rule: dec_induct)
  case (step n)
  then show ?case using fuel_step [of n] by (simp add: json_fuel_def)
qed simp

section \<open>Round trips of the parts\<close>

text \<open>Integers.\<close>

lemma is_digit_offset: "k < 10 \<Longrightarrow> is_digit (48 + k)"
  by (simp add: is_digit_def)

lemma nat_digits_digits: "list_all is_digit (nat_digits n)"
proof (induction n rule: nat_digits.induct)
  case (1 n)
  then show ?case by (subst nat_digits.simps) (auto simp: is_digit_offset)
qed

lemma nat_digits_nonempty [simp]: "nat_digits n \<noteq> []"
  by (subst nat_digits.simps) simp

lemma digits_val_snoc: "digits_val (s @ [d]) = digits_val s * 10 + (d - 48)"
  by (simp add: digits_val_def)

lemma digits_val_nat_digits [simp]: "digits_val (nat_digits n) = n"
proof (induction n rule: nat_digits.induct)
  case (1 n)
  show ?case
  proof (cases "n < 10")
    case True
    then show ?thesis by (subst nat_digits.simps) (simp add: digits_val_def)
  next
    case False
    with 1 show ?thesis by (subst nat_digits.simps) (simp add: digits_val_snoc)
  qed
qed

lemma hd_nat_digits: "hd (nat_digits n) = 48 \<longleftrightarrow> n = 0"
proof (induction n rule: nat_digits.induct)
  case (1 n)
  show ?case
  proof (cases "n < 10")
    case True
    then show ?thesis by (subst nat_digits.simps) auto
  next
    case False
    with 1 show ?thesis by (subst nat_digits.simps) simp
  qed
qed

text \<open>What may follow a value inside a document: the end, a comma, a closing bracket.\<close>

definition delim :: "pystr \<Rightarrow> bool" where
  "delim s \<longleftrightarrow> (case s of [] \<Rightarrow> True | c # _ \<Rightarrow> c = 44 \<or> c = 93 \<or> c = 125)"

lemma delim_simps [simp]:
  "delim []" "delim (44 # s)" "delim (93 # s)" "delim (125 # s)"
  by (simp_all add: delim_def)

lemma delim_no_digit: "delim r \<Longrightarrow> takeWhile is_digit r = [] \<and> dropWhile is_digit r = r"
  by (cases r) (auto simp: delim_def is_digit_def)

lemma scan_int_nat_digits:
  assumes "delim r"
  shows "scan_int (nat_digits n @ r) = Some (nat_digits n, r)"
proof (cases "n = 0")
  case True
  then show ?thesis by (simp add: scan_int_def nat_digits.simps [of 0])
next
  case False
  obtain d ds where d: "nat_digits n = d # ds" by (cases "nat_digits n") simp_all
  with False hd_nat_digits [of n] have "d \<noteq> 48" by simp
  moreover have all: "list_all is_digit (d # ds)" using nat_digits_digits [of n] d by simp
  moreover have "takeWhile is_digit ((d # ds) @ r) = d # ds" "dropWhile is_digit ((d # ds) @ r) = r"
    using all delim_no_digit [OF assms]
    by (auto simp: list_all_iff takeWhile_append2 dropWhile_append2)
  ultimately show ?thesis by (simp add: d scan_int_def)
qed

lemma scan_frac_delim: "delim r \<Longrightarrow> scan_frac r = ([], r)"
  by (auto simp: scan_frac_def delim_def split: list.split)

lemma scan_exp_delim: "delim r \<Longrightarrow> scan_exp r = ([], r)"
  by (auto simp: scan_exp_def delim_def Let_def split: list.split prod.split)

lemma nat_digits_Cons: "\<exists>d ds. nat_digits n = d # ds \<and> is_digit d"
  using nat_digits_digits [of n] by (cases "nat_digits n") auto

lemma scan_number_int: "delim r \<Longrightarrow> scan_number (int_repr i @ r) = Some (PInt i, r)"
proof -
  assume r: "delim r"
  note parts = scan_int_nat_digits [OF r] scan_frac_delim [OF r] scan_exp_delim [OF r]
  show ?thesis
  proof (cases "i < 0")
    case True
    then show ?thesis by (simp add: scan_number_def int_repr_def parts)
  next
    case False
    obtain d ds where d: "nat_digits (nat i) = d # ds" "is_digit d"
      using nat_digits_Cons by blast
    then have "d \<noteq> 45" by (simp add: is_digit_def)
    moreover have "scan_int (d # ds @ r) = Some (d # ds, r)" using parts(1) [of "nat i"] d by simp
    moreover have "digits_val (d # ds) = nat i" using digits_val_nat_digits [of "nat i"] d by simp
    ultimately show ?thesis using False by (simp add: scan_number_def int_repr_def d parts(2,3))
  qed
qed

lemma scan_word_int: "delim r \<Longrightarrow> scan_word (int_repr i @ r) = Some (PInt i, r)"
proof -
  assume r: "delim r"
  obtain d ds where d: "nat_digits (nat \<bar>i\<bar>) = d # ds" "is_digit d"
    using nat_digits_Cons by blast
  then have nd: "nat_digits (nat (- i)) = d # ds" if "i < 0" using that by simp
  have pd: "nat_digits (nat i) = d # ds" if "\<not> i < 0" using d that by simp
  have "strip_prefix (str w) (int_repr i @ r) = None"
    if "w \<in> {''null'', ''true'', ''false'', ''NaN'', ''Infinity'', ''-Infinity''}" for w
    using that d(2) nd pd
    by (auto simp: int_repr_def strip_prefix_def str_def is_digit_def)
  then show ?thesis using scan_number_int [OF r] by (simp add: scan_word_def)
qed

text \<open>Strings.\<close>

lemma hex_val_digit: "n < 16 \<Longrightarrow> hex_val (hex_digit n) = Some n"
  by (auto simp: hex_val_def hex_digit_def)

lemma nibbles: "n < 65536 \<Longrightarrow>
    n div 4096 mod 16 * 4096 + n div 256 mod 16 * 256 + n div 16 mod 16 * 16 + n mod 16 = (n :: nat)"
proof -
  assume "n < 65536"
  then have "n div 4096 mod 16 = n div 4096" by auto
  moreover have "n div 4096 = n div 256 div 16" "n div 256 = n div 16 div 16"
    by (simp_all add: div_mult2_eq [symmetric])
  ultimately show ?thesis
    using div_mult_mod_eq [of "n div 256" 16] div_mult_mod_eq [of "n div 16" 16]
      div_mult_mod_eq [of n 16] by linarith
qed

lemma scan_hex4_hex4: "n < 65536 \<Longrightarrow> scan_hex4 (hex4 n @ r) = Some (n, r)"
  using nibbles [of n] by (simp add: hex4_def hex_val_digit)

lemma scan_low_hex4: "n < 1024 \<Longrightarrow> scan_low (92 # 117 # hex4 (0xDC00 + n) @ r) = Some (0xDC00 + n, r)"
  by (simp add: scan_low_def scan_hex4_hex4)

lemma scan_str_plain: "32 \<le> c \<Longrightarrow> c \<noteq> 34 \<Longrightarrow> c \<noteq> 92 \<Longrightarrow> scan_str (c # s) = push_char c (scan_str s)"
  by simp

lemma scan_str_bmp:
  "n < 65536 \<Longrightarrow> \<not> (0xD800 \<le> n \<and> n < 0xDC00) \<Longrightarrow>
   scan_str (92 # 117 # hex4 n @ s) = push_char n (scan_str s)"
  by (auto simp: scan_hex4_hex4)

lemma scan_str_pair:
  assumes "h < 1024" "l < 1024"
  shows "scan_str (92 # 117 # hex4 (0xD800 + h) @ 92 # 117 # hex4 (0xDC00 + l) @ s)
    = push_char (0x10000 + h * 1024 + l) (scan_str s)"
  using assms by (simp add: scan_hex4_hex4 scan_low_hex4)

lemma scan_str_esc: "scalar c \<Longrightarrow> scan_str (esc_char c @ s) = push_char c (scan_str s)"
proof -
  assume c: "scalar c"
  consider "c \<in> {34, 92, 10, 13, 9, 12, 8}" | "32 \<le> c" "c \<le> 126" "c \<noteq> 34" "c \<noteq> 92"
    | "c < 32 \<or> 126 < c" "c \<notin> {10, 13, 9, 12, 8}" "c < 0x10000" | "0x10000 \<le> c"
    by force
  then show ?thesis
  proof cases
    case 1
    then show ?thesis by (auto simp: esc_char_def simple_escape_def)
  next
    case 2
    then have "esc_char c = [c]" by (simp add: esc_char_def)
    with 2 show ?thesis using scan_str_plain [of c s] by simp
  next
    case 3
    then have e: "esc_char c = [92, 117] @ hex4 c" by (auto simp: esc_char_def)
    from c have "\<not> (0xD800 \<le> c \<and> c < 0xDC00)" by (auto simp: scalar_def surrogate_def)
    with 3 show ?thesis using scan_str_bmp [of c s] by (simp add: e del: scan_str.simps)
  next
    case 4
    define h where "h = (c - 0x10000) div 1024 mod 1024"
    define l where "l = (c - 0x10000) mod 1024"
    from 4 have e: "esc_char c = [92, 117] @ hex4 (0xD800 + h) @ [92, 117] @ hex4 (0xDC00 + l)"
      by (simp add: esc_char_def h_def l_def)
    have "(c - 0x10000) div 1024 < 1024" using c 4 by (auto simp: scalar_def)
    then have "0x10000 + h * 1024 + l = c" using 4 by (simp add: h_def l_def)
    moreover have "h < 1024" "l < 1024" by (simp_all add: h_def l_def)
    ultimately show ?thesis using scan_str_pair [of h l s] by (simp add: e del: scan_str.simps)
  qed
qed

lemma scan_str_concat: "valid_str s \<Longrightarrow> scan_str (concat (map esc_char s) @ 34 # r) = Some (s, r)"
  by (induction s) (simp_all add: scan_str_esc del: scan_str.simps(2), simp)

lemma scan_str_json_str:
  "valid_str s \<Longrightarrow> \<exists>t. json_str s @ r = 34 # t \<and> scan_str t = Some (s, r)"
  using scan_str_concat [of s r] by (simp add: json_str_def)

section \<open>The round trip of values\<close>

text \<open>
  The values a message may carry and get back unchanged: no raw bytes (not serializable), no
  floats, strings of Unicode scalar values, dictionaries with distinct keys.
\<close>

fun wf_json :: "pyval \<Rightarrow> bool" where
  "wf_json (PFloat t) = False"
| "wf_json (PBytes b) = False"
| "wf_json (PStr s) = valid_str s"
| "wf_json (PList xs) = list_all wf_json xs"
| "wf_json (PDict d) = (wf_dict d \<and> list_all (\<lambda>p. valid_str (fst p) \<and> wf_json (snd p)) d)"
| "wf_json v = True"

definition dump_pair :: "pystr \<times> pyval \<Rightarrow> pystr option" where
  "dump_pair p = map_option (\<lambda>s. json_str (fst p) @ [58, 32] @ s) (dumps (snd p))"

lemma dumps_PDict:
  "dumps (PDict d) = (case those (map dump_pair d) of
     None \<Rightarrow> None
   | Some ss \<Rightarrow> Some ([123] @ join [44, 32] ss @ [125]))"
proof -
  have "(\<lambda>p. map_option (\<lambda>s. json_str (fst p) @ [58, 32] @ s) (dumps (snd p))) = dump_pair"
    by (simp add: fun_eq_iff dump_pair_def)
  then show ?thesis by simp
qed

lemma those_Some: "(\<And>x. x \<in> set xs \<Longrightarrow> \<exists>y. f x = Some y) \<Longrightarrow> \<exists>ys. those (map f xs) = Some ys"
proof (induction xs)
  case (Cons x xs)
  from Cons.prems [of x] obtain y where "f x = Some y" by auto
  with Cons show ?case by simp
qed simp

lemma those_Cons_Some:
  "those (map f (x # xs)) = Some ys \<longleftrightarrow> (\<exists>y zs. ys = y # zs \<and> f x = Some y \<and> those (map f xs) = Some zs)"
  by (auto split: option.splits)

lemma dumps_total: "wf_json v \<Longrightarrow> \<exists>s. dumps v = Some s"
proof (induction v rule: wf_json.induct)
  case (4 xs)
  then have "\<exists>ss. those (map dumps xs) = Some ss"
    by (intro those_Some) (simp add: list_all_iff)
  then show ?case by auto
next
  case (5 d)
  then have "\<exists>ss. those (map dump_pair d) = Some ss"
    by (intro those_Some) (fastforce simp: dump_pair_def list_all_iff)
  then show ?case by (auto simp: dumps_PDict simp del: dumps.simps)
qed simp_all

lemma dumps_head:
  assumes "wf_json v" "dumps v = Some s"
  shows "\<exists>c r. s = c # r \<and> \<not> is_ws c \<and> c \<noteq> 93 \<and> c \<noteq> 125"
proof (cases v)
  case (PInt i)
  obtain d ds where "nat_digits (nat \<bar>i\<bar>) = d # ds" "is_digit d"
    using nat_digits_Cons by blast
  with assms PInt show ?thesis
    by (cases "i < 0") (auto simp: int_repr_def is_ws_def is_digit_def)
next
  case (PBool b)
  with assms show ?thesis by (cases b) (auto simp: str_def is_ws_def)
qed (use assms in \<open>auto simp: str_def is_ws_def json_str_def split: option.splits\<close>)

lemma skip_ws_dumps: "wf_json v \<Longrightarrow> dumps v = Some s \<Longrightarrow> skip_ws (s @ r) = s @ r"
  by (auto dest!: dumps_head)

definition scans :: "pyval \<Rightarrow> bool" where
  "scans v \<longleftrightarrow> (\<forall>s r n. dumps v = Some s \<longrightarrow> delim r \<longrightarrow> 2 * length s + 1 \<le> n \<longrightarrow>
     jvalue n (s @ r) = Some (v, r))"

lemma jelems_dumps:
  assumes "\<And>x. x \<in> set xs \<Longrightarrow> wf_json x \<and> scans x"
    and "those (map dumps xs) = Some ss" "xs \<noteq> []"
    and "2 * length (join [44, 32] ss) + 2 \<le> n"
  shows "jelems n (join [44, 32] ss @ 93 # r) = Some (xs, r)"
  using assms
proof (induction xs arbitrary: ss n)
  case Nil
  then show ?case by simp
next
  case (Cons x xs)
  from Cons.prems(2) obtain s ts where ss: "ss = s # ts" and s: "dumps x = Some s"
    and ts: "those (map dumps xs) = Some ts" by (auto simp only: those_Cons_Some)
  obtain m where n: "n = Suc m" using Cons.prems(4) by (cases n) auto
  show ?case
  proof (cases xs)
    case Nil
    with ts have "ts = []" by simp
    moreover have "jvalue m (s @ 93 # r) = Some (x, 93 # r)"
      using Cons.prems(1,4) s n ss \<open>ts = []\<close> by (simp add: scans_def)
    ultimately show ?thesis using Nil n ss by (simp add: jelems.simps(2) is_ws_def)
  next
    case (Cons y ys)
    with ts obtain u us where u: "ts = u # us" "dumps y = Some u" by (auto simp only: those_Cons_Some)
    have len: "2 * length s + 1 \<le> m" "2 * length (join [44, 32] ts) + 2 \<le> m"
      using Cons.prems(4) n ss u(1) by simp_all
    have v: "jvalue m (s @ 44 # q) = Some (x, 44 # q)" for q
      using Cons.prems(1) [of x] s len(1) by (simp add: scans_def)
    have "skip_ws (join [44, 32] ts @ 93 # r) = join [44, 32] ts @ 93 # r"
      using dumps_head [of y u] Cons.prems(1) [of y] u Cons
      by (cases us) auto
    then have "skip_ws (32 # join [44, 32] ts @ 93 # r) = join [44, 32] ts @ 93 # r"
      by (simp add: is_ws_def)
    moreover have "jelems m (join [44, 32] ts @ 93 # r) = Some (xs, r)"
      using Cons.IH [OF _ ts] Cons.prems(1) Cons len(2) by simp
    ultimately show ?thesis
      using v n ss u(1) by (simp add: jelems.simps(2) is_ws_def)
  qed
qed

lemma jpairs_dumps:
  assumes "\<And>p. p \<in> set d \<Longrightarrow> valid_str (fst p) \<and> wf_json (snd p) \<and> scans (snd p)"
    and "those (map dump_pair d) = Some ss" "d \<noteq> []"
    and "2 * length (join [44, 32] ss) + 2 \<le> n"
  shows "jpairs n (join [44, 32] ss @ 125 # r) = Some (d, r)"
  using assms
proof (induction d arbitrary: ss n)
  case Nil
  then show ?case by simp
next
  case (Cons p d)
  obtain k x where p: "p = (k, x)" by (cases p)
  from Cons.prems(2) obtain s ts where ss: "ss = (json_str k @ [58, 32] @ s) # ts"
    and s: "dumps x = Some s" and ts: "those (map dump_pair d) = Some ts"
    by (auto simp only: those_Cons_Some p dump_pair_def [of "(k, x)"] map_option_eq_Some fst_conv snd_conv)
  obtain m where n: "n = Suc m" using Cons.prems(4) by (cases n) auto
  from Cons.prems(1) [of p] have k: "valid_str k" and x: "wf_json x" "scans x" by (simp_all add: p)
  have key: "jkey (json_str k @ 58 # 32 # s @ q) = Some (k, s @ q)" for q
    using scan_str_concat [OF k, of "58 # 32 # s @ q"] skip_ws_dumps [OF x(1) s, of q]
    by (simp add: jkey_def json_str_def is_ws_def)
  have head: "jpairs_head m (json_str k @ 58 # 32 # s @ c # q) = Some (k, x, c, q)"
    if "c = 44 \<or> c = 125" "2 * length s + 1 \<le> m" for c q
    using x(2) s that key [of "c # q"]
    by (auto simp: jpairs_head_def jelems_head_def scans_def is_ws_def)
  show ?case
  proof (cases d)
    case Nil
    with ts have "ts = []" by simp
    with head [of 125 r] Cons.prems(4) Nil n ss p show ?thesis by (simp add: jpairs_Suc)
  next
    case (Cons p' d')
    with ts obtain u us where u: "ts = u # us" "dump_pair p' = Some u"
      by (auto simp only: those_Cons_Some)
    have len: "2 * length s + 1 \<le> m" "2 * length (join [44, 32] ts) + 2 \<le> m"
      using Cons.prems(4) n ss u(1) by simp_all
    have "\<exists>z. u = 34 # z" using u(2) by (auto simp: dump_pair_def json_str_def)
    then have "skip_ws (32 # join [44, 32] ts @ 125 # r) = join [44, 32] ts @ 125 # r"
      using u(1) by (cases us) (auto simp: is_ws_def)
    moreover have "jpairs m (join [44, 32] ts @ 125 # r) = Some (d, r)"
      using Cons.IH [OF _ ts] Cons.prems(1) Cons len(2) by simp
    ultimately show ?thesis
      using head [of 44 "32 # join [44, 32] ts @ 125 # r"] len(1) n ss u(1) p
      by (simp add: jpairs_Suc)
  qed
qed

lemma dupdate_fresh: "wf_dict (d @ e) \<Longrightarrow> dupdate d e = d @ e"
proof (induction e arbitrary: d)
  case Nil
  show ?case by (simp add: dupdate_def)
next
  case (Cons kv e)
  obtain k v where kv: "kv = (k, v)" by (cases kv)
  with Cons.prems have "map_of d k = None" by (auto simp: wf_dict_def dkeys_def map_of_eq_None_iff)
  then have "dupdate d (kv # e) = dupdate (d @ [(k, v)]) e"
    by (simp add: kv dupdate_def dset_fresh)
  with Cons.IH [of "d @ [(k, v)]"] Cons.prems show ?case by (simp add: kv)
qed

lemma join_nonempty_head:
  "those (map dumps (x # xs)) = Some ss \<Longrightarrow> wf_json x \<Longrightarrow>
   \<exists>c r. join [44, 32] ss = c # r \<and> \<not> is_ws c \<and> c \<noteq> 93"
  using dumps_head [of x]
  by (auto simp only: those_Cons_Some) (rename_tac y zs, case_tac zs, force+)

text \<open>The printer writes ASCII only.\<close>

abbreviation ascii :: "pystr \<Rightarrow> bool" where
  "ascii s \<equiv> list_all (\<lambda>c. c < 0x80) s"

lemma ascii_digits: "ascii (nat_digits n)"
  using nat_digits_digits [of n] by (auto simp: list_all_iff is_digit_def)

lemma hex_digit_ascii: "n < 16 \<Longrightarrow> hex_digit n < 0x80"
  by (simp add: hex_digit_def)

lemma ascii_hex4: "ascii (hex4 n)"
  by (simp add: hex4_def hex_digit_ascii)

lemma ascii_esc: "ascii (esc_char c)"
  by (simp add: esc_char_def ascii_hex4)

lemma ascii_json_str: "ascii (json_str s)"
proof -
  have "ascii (concat (map esc_char s))"
    by (induction s) (simp_all add: ascii_esc)
  then show ?thesis by (simp add: json_str_def)
qed

lemma ascii_join: "(\<And>s. s \<in> set ss \<Longrightarrow> ascii s) \<Longrightarrow> ascii (join [44, 32] ss)"
  by (induction "[44, 32] :: pystr" ss rule: join.induct) auto

lemma those_set: "those (map f xs) = Some ys \<Longrightarrow> y \<in> set ys \<Longrightarrow> \<exists>x \<in> set xs. f x = Some y"
  by (induction xs arbitrary: ys) (auto simp only: those_Cons_Some list.set, auto)

lemma dumps_ascii: "wf_json v \<Longrightarrow> dumps v = Some s \<Longrightarrow> ascii s"
proof (induction v arbitrary: s rule: wf_json.induct)
  case (4 xs)
  then obtain ss where ss: "those (map dumps xs) = Some ss" "s = [91] @ join [44, 32] ss @ [93]"
    by (auto split: option.splits)
  have "ascii t" if "t \<in> set ss" for t
    using those_set [OF ss(1) that] "4.IH" "4.prems"(1) by (auto simp: list_all_iff)
  then show ?case using ss(2) ascii_join by simp
next
  case (5 d)
  then obtain ss where ss: "those (map dump_pair d) = Some ss" "s = [123] @ join [44, 32] ss @ [125]"
    by (auto simp: dumps_PDict simp del: dumps.simps split: option.splits)
  have "ascii t" if "t \<in> set ss" for t
    using those_set [OF ss(1) that] "5.IH" "5.prems"(1) ascii_json_str
    by (fastforce simp: list_all_iff dump_pair_def)
  then show ?case using ss(2) ascii_join by simp
qed (auto simp: str_def ascii_json_str int_repr_def ascii_digits split: if_splits)

lemma scans_word:
  assumes s: "dumps v = Some s" "s \<noteq> []" "hd s \<notin> {34, 91, 123}"
    and w: "\<And>r. delim r \<Longrightarrow> scan_word (s @ r) = Some (v, r)"
  shows "scans v"
  unfolding scans_def
proof (intro allI impI)
  fix s' r n
  assume s': "dumps v = Some s'" and r: "delim r" and n: "2 * length s' + 1 \<le> n"
  obtain m where "n = Suc m" using n by (cases n) auto
  with s s' w [OF r] show "jvalue n (s' @ r) = Some (v, r)"
    by (cases s) (simp_all add: jvalue.simps(2))
qed

lemmas word_defs = str_def scan_word_def strip_prefix_def

lemma scans_None: "scans PNone"
  by (rule scans_word [of _ "str ''null''"]) (simp_all add: word_defs)

lemma scans_Bool: "scans (PBool b)"
  by (cases b)
    (rule scans_word [of _ "str ''true''"], simp_all add: word_defs,
     rule scans_word [of _ "str ''false''"], simp_all add: word_defs)

lemma scans_Int: "scans (PInt i)"
proof -
  obtain d ds where "nat_digits (nat \<bar>i\<bar>) = d # ds" "is_digit d"
    using nat_digits_Cons by blast
  then have "int_repr i \<noteq> [] \<and> hd (int_repr i) \<notin> {34, 91, 123}"
    by (cases "i < 0") (auto simp: int_repr_def is_digit_def)
  then show ?thesis using scans_word [of "PInt i" "int_repr i"] scan_word_int [of _ i] by auto
qed

lemmas scans_atom = scans_None scans_Bool scans_Int

lemma scans_all: "wf_json v \<Longrightarrow> scans v"
proof (induction v rule: wf_json.induct)
  case (3 x)
  show ?case unfolding scans_def
  proof (intro allI impI)
    fix s r n
    assume s: "dumps (PStr x) = Some s" and n: "2 * length s + 1 \<le> n"
    from 3 scan_str_json_str [of x r] obtain t where "json_str x @ r = 34 # t" "scan_str t = Some (x, r)"
      by auto
    with s n show "jvalue n (s @ r) = Some (PStr x, r)" by (cases n) (simp_all add: jvalue.simps(2))
  qed
next
  case (4 xs)
  then have IH: "wf_json x \<and> scans x" if "x \<in> set xs" for x using that by (auto simp: list_all_iff)
  show ?case unfolding scans_def
  proof (intro allI impI)
    fix s r n
    assume s: "dumps (PList xs) = Some s" and n: "2 * length s + 1 \<le> n"
    then obtain ss where ss: "those (map dumps xs) = Some ss" "s = [91] @ join [44, 32] ss @ [93]"
      by (auto split: option.splits)
    obtain m where m: "n = Suc m" using n by (cases n) auto
    show "jvalue n (s @ r) = Some (PList xs, r)"
    proof (cases xs)
      case Nil
      with ss m show ?thesis by (simp add: jvalue.simps(2) is_ws_def)
    next
      case (Cons y ys)
      with join_nonempty_head [of y ys ss] ss(1) IH [of y] obtain c q
        where c: "join [44, 32] ss = c # q" "\<not> is_ws c" "c \<noteq> 93" by auto
      have "jelems m (join [44, 32] ss @ 93 # r) = Some (xs, r)"
        using jelems_dumps [OF IH ss(1)] Cons n m ss(2) by simp
      with c ss(2) m show ?thesis by (simp add: jvalue.simps(2))
    qed
  qed
next
  case (5 d)
  then have IH: "valid_str (fst p) \<and> wf_json (snd p) \<and> scans (snd p)" if "p \<in> set d" for p
    using that by (auto simp: list_all_iff)
  from 5 have wf: "wf_dict d" by simp
  show ?case unfolding scans_def
  proof (intro allI impI)
    fix s r n
    assume s: "dumps (PDict d) = Some s" and n: "2 * length s + 1 \<le> n"
    then obtain ss where ss: "those (map dump_pair d) = Some ss" "s = [123] @ join [44, 32] ss @ [125]"
      by (auto simp: dumps_PDict simp del: dumps.simps split: option.splits)
    obtain m where m: "n = Suc m" using n by (cases n) auto
    show "jvalue n (s @ r) = Some (PDict d, r)"
    proof (cases d)
      case Nil
      with ss m show ?thesis by (simp add: jvalue.simps(2) is_ws_def)
    next
      case (Cons p d')
      with ss(1) obtain u us where u: "ss = u # us" "dump_pair p = Some u" by (auto simp only: those_Cons_Some)
      then have "\<exists>q. join [44, 32] ss = 34 # q" by (cases us) (auto simp: dump_pair_def json_str_def)
      then obtain q where c: "join [44, 32] ss = 34 # q" by blast
      have "jpairs m (join [44, 32] ss @ 125 # r) = Some (d, r)"
        using jpairs_dumps [OF IH ss(1)] Cons n m ss(2) by simp
      with c ss(2) m dupdate_fresh [of "[]" d] wf show ?thesis
        by (simp add: jvalue.simps(2) is_ws_def)
    qed
  qed
qed (simp_all add: scans_atom)

theorem loads_dumps:
  assumes "wf_json v" "dumps v = Some s"
  shows "loads s = Inr v"
proof -
  obtain c r where s: "s = c # r" "\<not> is_ws c" using dumps_head [OF assms] by blast
  have "scans v" by (rule scans_all) fact
  then have "jvalue (json_fuel s) (s @ []) = Some (v, [])"
    using assms(2) unfolding scans_def by (simp add: json_fuel_def del: append_Nil2)
  moreover have "take 1 s \<noteq> [0xFEFF]"
    using dumps_ascii [OF assms] s(1) by simp
  ultimately show ?thesis using s by (simp add: loads_def)
qed

section \<open>JSON as a codec, and JSON text in UTF-8\<close>

definition json_dumps :: "pyval \<Rightarrow> pystr res" where
  "json_dumps v = of_option TypeError (dumps v)"

interpretation json: codec wf_json json_dumps loads
  by unfold_locales (auto simp: json_dumps_def intro: loads_dumps dest: dumps_total)

lemma ascii_valid: "ascii s \<Longrightarrow> valid_str s"
  by (auto simp: list_all_iff scalar_def surrogate_def)

interpretation payload: codec_chain wf_json json_dumps loads "list_all scalar" utf8_encode utf8_decode
  by unfold_locales (auto simp: json_dumps_def dest!: dumps_ascii ascii_valid)

definition payload_bytes :: "pyval \<Rightarrow> bytes res" where
  "payload_bytes v = bindE (json_dumps v) utf8_encode"

definition payload_value :: "bytes \<Rightarrow> pyval res" where
  "payload_value b = bindE (utf8_decode b) loads"

interpretation wire: codec wf_json payload_bytes payload_value
  unfolding payload_bytes_def payload_value_def by (rule payload.chain_codec)

end
