(* ===== verification/Messages.thy ===== *)
theory Messages
  imports Json_Roundtrip
begin

text \<open>
  \<^verbatim>\<open>qchat/messages.py\<close>: the message classes, the constructor with its checks, the wire
  form, and the factory that maps a four-byte header back to a class.
\<close>

section \<open>Message classes\<close>

definition HEADER_LENGTH :: nat where "HEADER_LENGTH = 4"
definition PAYLOAD_SIZE :: nat where "PAYLOAD_SIZE = 4"
definition MAX_SENDER_LENGTH :: nat where "MAX_SENDER_LENGTH = 16"

lemmas message_sizes [simp] = HEADER_LENGTH_def PAYLOAD_SIZE_def MAX_SENDER_LENGTH_def

datatype msg_class =
    MSSG | RGST | AUTH | QCHT | GETU | PUTU | PTCL | RQQB | BB84 | DQKD | SPDS

fun header :: "msg_class \<Rightarrow> bytes" where
  "header MSSG = lit ''MSSG''"
| "header RGST = lit ''RGST''"
| "header AUTH = lit ''AUTH''"
| "header QCHT = lit ''QCHT''"
| "header GETU = lit ''GETU''"
| "header PUTU = lit ''PUTU''"
| "header PTCL = lit ''PTCL''"
| "header RQQB = lit ''RQQB''"
| "header BB84 = lit ''BB84''"
| "header DQKD = lit ''DQKD''"
| "header SPDS = lit ''SPDS''"

text \<open>The class attributes \<open>verify\<close> and \<open>strip\<close>, inherited as \<open>False\<close> from the base class.\<close>

definition msg_verify :: "msg_class \<Rightarrow> bool" where
  "msg_verify c \<longleftrightarrow> c \<in> {QCHT, PTCL, BB84, DQKD, SPDS}"

definition msg_strip :: "msg_class \<Rightarrow> bool" where
  "msg_strip c \<longleftrightarrow> c \<in> {QCHT, GETU, PUTU, PTCL, BB84, DQKD, SPDS}"

record message =
  msg_class :: msg_class
  msg_sender :: pystr
  msg_data :: pyval

section \<open>Construction and encoding\<close>

text \<open>
  \<open>unpack_message_data\<close>: a dictionary is kept (the same object), text is parsed, anything
  else is refused; whatever goes wrong becomes \<open>MalformedMessage\<close>.
\<close>

definition unpack_message_data :: "pyval \<Rightarrow> pyval res" where
  "unpack_message_data d =
     (let r = (case d of
          PDict e \<Rightarrow> Inr (PDict e)
        | PStr s \<Rightarrow> loads s
        | PBytes b \<Rightarrow> payload_value b
        | _ \<Rightarrow> Inl MalformedMessage)
      in case r of Inl _ \<Rightarrow> Inl MalformedMessage | Inr v \<Rightarrow> Inr v)"

definition mk_message :: "msg_class \<Rightarrow> pystr \<Rightarrow> pyval \<Rightarrow> message res" where
  "mk_message c sender d =
     (if length sender > MAX_SENDER_LENGTH then Inl MalformedMessage
      else bindE (unpack_message_data d)
        (\<lambda>v. Inr \<lparr>msg_class = c, msg_sender = sender, msg_data = v\<rparr>))"

text \<open>\<open>xs[-n:]\<close>, the last \<open>n\<close> elements.\<close>

definition last_n :: "nat \<Rightarrow> 'a list \<Rightarrow> 'a list" where
  "last_n n xs = drop (length xs - n) xs"

definition pad_sender :: "bytes \<Rightarrow> bytes" where
  "pad_sender b = last_n 16 (replicate MAX_SENDER_LENGTH 0 @ b)"

definition encode_message :: "message \<Rightarrow> bytes res" where
  "encode_message m =
     bindE (utf8_encode (msg_sender m)) (\<lambda>snd.
     bindE (case payload_bytes (msg_data m) of
              Inl _ \<Rightarrow> Inl MalformedMessage | Inr b \<Rightarrow> Inr b) (\<lambda>byte_data.
     bindE (to_bytes (int (length byte_data)) PAYLOAD_SIZE) (\<lambda>size.
     Inr (header (msg_class m) @ pad_sender snd @ size @ byte_data))))"

section \<open>The factory\<close>

definition message_mapping :: "(bytes \<times> msg_class) list" where
  "message_mapping = map (\<lambda>c. (header c, c))
     [MSSG, RGST, AUTH, PUTU, GETU, QCHT, BB84, PTCL, RQQB, SPDS, DQKD]"

definition create_message :: "bytes \<Rightarrow> pystr \<Rightarrow> pyval \<Rightarrow> message res" where
  "create_message h sender d =
     bindE (of_option KeyError (map_of message_mapping h)) (\<lambda>c. mk_message c sender d)"

lemma header_length [simp]: "length (header c) = 4"
  by (cases c) simp_all

lemma map_of_message_mapping: "map_of message_mapping (header c) = Some c"
  by (cases c) (simp_all add: message_mapping_def lit_def)

lemma message_mapping_header: "map_of message_mapping h = Some c \<Longrightarrow> h = header c"
  by (auto simp: message_mapping_def split: if_splits)

lemma header_inject: "header c = header d \<Longrightarrow> c = d"
  using map_of_message_mapping by (metis option.inject)

lemma mk_message_Inr:
  "mk_message c sender d = Inr m \<longleftrightarrow>
     length sender \<le> 16 \<and> msg_class m = c \<and> msg_sender m = sender \<and> unpack_message_data d = Inr (msg_data m)"
  by (cases m) (auto simp: mk_message_def bindE_eq_Inr)

lemma unpack_Inl: "unpack_message_data d = Inl e \<Longrightarrow> e = MalformedMessage"
  by (auto simp: unpack_message_data_def Let_def split: sum.splits)

text \<open>The payload of a well-formed dictionary survives the wire.\<close>

lemma unpack_payload: "wf_json v \<Longrightarrow> payload_bytes v = Inr b \<Longrightarrow> unpack_message_data (PBytes b) = Inr v"
  using wire.dec_enc by (simp add: unpack_message_data_def)

section \<open>The sender field\<close>

lemma pad_sender_short: "length b \<le> 16 \<Longrightarrow> pad_sender b = replicate (16 - length b) 0 @ b"
  by (simp add: pad_sender_def last_n_def)

lemma pad_sender_long: "16 \<le> length b \<Longrightarrow> pad_sender b = last_n 16 b"
  by (simp add: pad_sender_def last_n_def)

lemma length_pad_sender [simp]: "length (pad_sender b) = 16"
  by (simp add: pad_sender_def last_n_def)

text \<open>What the receiver does with the field: drop every NUL byte.\<close>

definition strip_nul :: "bytes \<Rightarrow> bytes" where
  "strip_nul b = filter (\<lambda>x. x \<noteq> 0) b"

lemma strip_nul_id: "0 \<notin> set b \<Longrightarrow> strip_nul b = b"
  unfolding strip_nul_def by (rule filter_True) auto

lemma strip_pad_sender: "length b \<le> 16 \<Longrightarrow> strip_nul (pad_sender b) = strip_nul b"
  by (simp add: pad_sender_short) (simp add: strip_nul_def)

text \<open>
  A sender name that the wire format carries unchanged: non-empty, no NUL, at most 16 bytes of
  UTF-8 (the constructor checks 16 code points only).
\<close>

definition wire_name :: "pystr \<Rightarrow> bool" where
  "wire_name s \<longleftrightarrow> s \<noteq> [] \<and> 0 \<notin> set s \<and>
     (case utf8_encode s of Inr b \<Rightarrow> length b \<le> 16 | Inl _ \<Rightarrow> False)"

lemma utf8_encode_zero: "utf8_encode s = Inr b \<Longrightarrow> 0 \<in> set b \<longleftrightarrow> 0 \<in> set s"
proof -
  assume "utf8_encode s = Inr b"
  then obtain u where u: "utf8_enc s = Some u" "b = map of_nat u" by (auto simp: utf8_encode_Inr)
  have "(of_nat x :: byte) = 0 \<longleftrightarrow> x = 0" if "x \<in> set u" for x
  proof -
    have "x < 256" using utf8_enc_bytes u(1) that by blast
    then have "unat (of_nat x :: byte) = x" by (simp add: unat_of_nat)
    then show ?thesis by (cases "x = 0") auto
  qed
  then have "0 \<in> set b \<longleftrightarrow> 0 \<in> set u" unfolding u(2) by force
  with utf8_enc_zero [OF u(1)] show ?thesis by simp
qed

lemma wire_name_sender:
  assumes "wire_name s" "utf8_encode s = Inr b"
  shows "strip_nul (pad_sender b) = b" "utf8_decode b = Inr s" "length b \<le> 16"
proof -
  from assms show len: "length b \<le> 16" by (simp add: wire_name_def)
  from assms have "0 \<notin> set b" by (simp add: wire_name_def utf8_encode_zero)
  then show "strip_nul (pad_sender b) = b" using len by (simp add: strip_pad_sender strip_nul_id)
  show "utf8_decode b = Inr s" using assms(2) by (rule utf8_decode_encode)
qed

lemma utf8_encode_length: "utf8_encode s = Inr b \<Longrightarrow> length s \<le> length b"
proof -
  assume "utf8_encode s = Inr b"
  then obtain u where u: "utf8_enc s = Some u" "b = map of_nat u" by (auto simp: utf8_encode_Inr)
  have "utf8_enc s = Some u \<Longrightarrow> length s \<le> length u" for u
  proof (induction s arbitrary: u)
    case (Cons c s)
    then obtain w v where "utf8_char c = Some w" "utf8_enc s = Some v" "u = w @ v"
      by (auto split: option.splits)
    with Cons.IH [of v] utf8_char_length [of c w] show ?case by simp
  qed simp
  with u show ?thesis by simp
qed

lemma wire_name_length: "wire_name s \<Longrightarrow> length s \<le> 16"
  by (auto simp: wire_name_def dest!: utf8_encode_length split: sum.splits)

text \<open>A message whose data is a well-formed dictionary encodes, unless it is 4 GiB long.\<close>

definition payload_fits :: "pyval \<Rightarrow> bool" where
  "payload_fits v \<longleftrightarrow> (case payload_bytes v of Inr b \<Rightarrow> length b < 256 ^ 4 | Inl _ \<Rightarrow> False)"

lemma encode_message_shape:
  assumes "wire_name (msg_sender m)" "wf_json (msg_data m)" "payload_fits (msg_data m)"
  shows "\<exists>snd b. utf8_encode (msg_sender m) = Inr snd \<and> payload_bytes (msg_data m) = Inr b
    \<and> length b < 256 ^ 4
    \<and> encode_message m = Inr (header (msg_class m) @ pad_sender snd @ be_bytes 4 (length b) @ b)"
proof -
  from assms(1) obtain snd where snd: "utf8_encode (msg_sender m) = Inr snd"
    by (auto simp: wire_name_def split: sum.splits)
  from assms(2) wire.enc_total obtain b where b: "payload_bytes (msg_data m) = Inr b"
    by blast
  with assms(3) have len: "length b < 256 ^ 4" by (simp add: payload_fits_def)
  with snd b show ?thesis by (simp add: encode_message_def to_bytes_nat del: power_numeral)
qed

text \<open>What it takes to evaluate a concrete frame.\<close>

lemmas wire_eval = be_bytes_4 encode_message_def utf8_encode_def utf8_char_def scalar_def surrogate_def str_def lit_def
  payload_bytes_def json_dumps_def to_bytes_def json_str_def esc_char_def int_repr_def nat_digits.simps
  pad_sender_def last_n_def

end
