(* ===== verification/Connection.thy ===== *)
theory Connection
  imports Messages
begin

text \<open>
  \<^verbatim>\<open>qchat/connection.py\<close>: the socket endpoint of a host. A stream socket is the bytes
  the peer sent before it closed, with the sizes in which the operating system hands them out:
  \<open>recv(n)\<close> returns between one and \<open>n\<close> bytes, and no byte only at the end of the stream.
\<close>

section \<open>Reading from a socket\<close>

record stream =
  pending :: bytes
  sched :: "nat list"

definition chunk_size :: "nat \<Rightarrow> stream \<Rightarrow> nat" where
  "chunk_size n st = (case sched st of [] \<Rightarrow> n | c # _ \<Rightarrow> min n (max 1 c))"

definition recv :: "nat \<Rightarrow> stream \<Rightarrow> bytes \<times> stream" where
  "recv n st = (take (chunk_size n st) (pending st),
     st\<lparr>pending := drop (chunk_size n st) (pending st), sched := tl (sched st)\<rparr>)"

lemma recv_split: "recv n st = (d, st') \<Longrightarrow> d @ pending st' = pending st"
  by (auto simp: recv_def)

lemma recv_progress: "recv n st = (d, st') \<Longrightarrow> 0 < n \<Longrightarrow> d = [] \<longleftrightarrow> pending st = []"
  by (auto simp: recv_def chunk_size_def split: list.splits)

text \<open>The loop that collects the payload: \<open>while len(message_data) < data_length\<close>.\<close>

function recv_payload :: "nat \<Rightarrow> bytes \<Rightarrow> stream \<Rightarrow> (bytes \<times> stream) res" where
  "recv_payload data_length message_data st =
     (if length message_data < data_length then
        (let (data, st') = recv 1024 st
         in if data = [] then Inl (ConnectionError ''Message data too short'')
            else recv_payload data_length (message_data @ data) st')
      else Inr (message_data, st))"
  by pat_completeness auto
termination
proof (relation "measure (\<lambda>(n, d, st). length (pending st))")
  fix n :: nat and d :: bytes and st :: stream and x data st'
  assume x: "x = recv 1024 st" and eq: "(data, st') = x" and ne: "data \<noteq> []"
  then have "data @ pending st' = pending st" using recv_split [of 1024 st data st'] by simp
  with ne have "length (pending st') < length (pending st)"
    by (metis length_append length_greater_0_conv less_add_same_cancel2)
  then show "((n, d @ data, st'), n, d, st) \<in> measure (\<lambda>(n, d, st). length (pending st))" by simp
qed simp

declare recv_payload.simps [simp del]

text \<open>
  Whatever the fragmentation, the loop reports a short payload exactly when the stream is short,
  and otherwise returns at least the announced length and loses nothing.
\<close>

lemma recv_payload_spec:
  "if length d + length (pending st) < n
   then recv_payload n d st = Inl (ConnectionError ''Message data too short'')
   else \<exists>d' st'. recv_payload n d st = Inr (d', st') \<and> d' @ pending st' = d @ pending st \<and> n \<le> length d'"
proof (induction n d st rule: recv_payload.induct)
  case (1 n d st)
  obtain data st' where r: "recv 1024 st = (data, st')" by (cases "recv 1024 st")
  note rest = recv_split [OF r] and prog = recv_progress [OF r]
  show ?case
  proof (cases "length d < n \<and> data \<noteq> []")
    case True
    then have eq: "recv_payload n d st = recv_payload n (d @ data) st'"
      by (subst recv_payload.simps) (simp add: r)
    have len: "length (d @ data) + length (pending st') = length d + length (pending st)"
      by (simp flip: rest)
    from True 1 [OF _ r [symmetric] refl] have "if length (d @ data) + length (pending st') < n
      then recv_payload n (d @ data) st' = Inl (ConnectionError ''Message data too short'')
      else \<exists>d' s'. recv_payload n (d @ data) st' = Inr (d', s')
        \<and> d' @ pending s' = (d @ data) @ pending st' \<and> n \<le> length d'" by simp
    then show ?thesis unfolding len eq append_assoc rest .
  next
    case False
    with prog show ?thesis by (subst (1 2) recv_payload.simps) (auto simp: r)
  qed
qed

section \<open>The connection object\<close>

text \<open>
  \<open>conn_route\<close> is what the operating system answers to a \<open>connect\<close>: the exception, if it fails.
  \<open>conn_sent\<close> records what was handed to \<open>sendall\<close>.
\<close>

record connection =
  conn_name :: pystr
  conn_host :: pyval
  conn_port :: pyval
  message_queue :: "message list"
  conn_route :: "pyval \<Rightarrow> pyval \<Rightarrow> pyexn option"
  conn_sent :: "(pyval \<times> pyval \<times> bytes) list"

definition get_connection_info :: "connection \<Rightarrow> dict" where
  "get_connection_info c =
     [(str ''connection'', PDict [(str ''host'', conn_host c), (str ''port'', conn_port c)])]"

definition append_message_to_queue :: "message \<Rightarrow> connection \<Rightarrow> connection" where
  "append_message_to_queue m c = c\<lparr>message_queue := message_queue c @ [m]\<rparr>"

definition pop_message_from_queue :: "connection \<Rightarrow> (message \<times> connection) res" where
  "pop_message_from_queue c = (case message_queue c of
     [] \<Rightarrow> Inl IndexError
   | m # ms \<Rightarrow> Inr (m, c\<lparr>message_queue := ms\<rparr>))"

definition recv_message :: "connection \<Rightarrow> (message option \<times> connection) res" where
  "recv_message c =
     (if message_queue c \<noteq> []
      then bindE (pop_message_from_queue c) (\<lambda>(m, c'). Inr (Some m, c'))
      else Inr (None, c))"

text \<open>The receiving handler, one per inbound connection.\<close>

definition read_message :: "stream \<Rightarrow> message res" where
  "read_message st0 =
     (let (hdr, st1) = recv HEADER_LENGTH st0
      in if map_of message_mapping hdr = None then Inl (ConnectionError ''Incorrect message header'')
      else let (padded_sender, st2) = recv MAX_SENDER_LENGTH st1
      in if length padded_sender \<noteq> MAX_SENDER_LENGTH then Inl (ConnectionError ''Incorrect sender length'')
      else bindE (utf8_decode (strip_nul padded_sender)) (\<lambda>sender.
         if length sender = 0 then Inl (ConnectionError ''Invalid sender'')
         else let (size, st3) = recv PAYLOAD_SIZE st2
         in if length size \<noteq> PAYLOAD_SIZE then Inl (ConnectionError ''Incorrect payload size'')
         else bindE (recv_payload (from_bytes size) [] st3) (\<lambda>(message_data, st4).
           if length message_data > from_bytes size \<or> fst (recv 1 st4) \<noteq> []
           then Inl (ConnectionError ''Message data too long'')
           else create_message hdr sender (PBytes message_data))))"

definition handle_connection :: "stream \<Rightarrow> connection \<Rightarrow> unit res \<times> connection" where
  "handle_connection st c =
     (case read_message st of
        Inl e \<Rightarrow> (Inl e, c)
      | Inr m \<Rightarrow> (Inr (), append_message_to_queue m c))"

text \<open>
  A handler's exception ends its own thread only. The listening thread serves the connections that
  it accepts, in the order in which their handlers finish, unless the socket cannot be bound.
\<close>

definition start_handler :: "stream \<Rightarrow> connection \<Rightarrow> connection" where
  "start_handler st c = snd (handle_connection st c)"

definition listen_for_classical :: "unit res \<Rightarrow> stream list \<Rightarrow> connection \<Rightarrow> connection" where
  "listen_for_classical bound accepted_streams c = (case bound of
     Inl e \<Rightarrow> c
   | Inr _ \<Rightarrow> fold start_handler accepted_streams c)"

definition send_message :: "pyval \<Rightarrow> pyval \<Rightarrow> bytes \<Rightarrow> connection \<Rightarrow> unit res \<times> connection" where
  "send_message host port message c =
     (case conn_route c host port of
        Some e \<Rightarrow> (Inl e, c)
      | None \<Rightarrow> (Inr (), c\<lparr>conn_sent := conn_sent c @ [(host, port, message)]\<rparr>))"

section \<open>The inbound queue\<close>

definition take_message :: "connection \<Rightarrow> (message \<times> connection) option" where
  "take_message c = (case recv_message c of Inr (Some m, c') \<Rightarrow> Some (m, c') | _ \<Rightarrow> None)"

interpretation inbound: fifo message_queue append_message_to_queue take_message
  by unfold_locales
    (auto simp: append_message_to_queue_def take_message_def recv_message_def pop_message_from_queue_def)

lemma recv_message_total: "\<exists>r. recv_message c = Inr r"
  by (cases "message_queue c") (auto simp: recv_message_def pop_message_from_queue_def)

section \<open>Reading a whole stream\<close>

text \<open>
  The three fixed-size fields are read with one \<open>recv\<close> each, so the code relies on each arriving
  whole. \<open>whole_fields\<close> is that assumption on the operating system's fragmentation.
\<close>

definition whole_fields :: "nat list \<Rightarrow> bool" where
  "whole_fields s \<longleftrightarrow> list_all (\<lambda>c. 16 \<le> c) (take 3 s)"

lemma recv_whole:
  "sched st = [] \<or> n \<le> hd (sched st) \<Longrightarrow>
   recv n st = (take n (pending st), st\<lparr>pending := drop n (pending st), sched := tl (sched st)\<rparr>)"
  by (auto simp: recv_def chunk_size_def split: list.splits)

lemma read_message_whole:
  assumes "whole_fields (sched st)"
  defines "b \<equiv> pending st"
  shows "read_message st =
    (if map_of message_mapping (take 4 b) = None then Inl (ConnectionError ''Incorrect message header'')
     else if length b < 20 then Inl (ConnectionError ''Incorrect sender length'')
     else bindE (utf8_decode (strip_nul (take 16 (drop 4 b)))) (\<lambda>sender.
       if sender = [] then Inl (ConnectionError ''Invalid sender'')
       else if length b < 24 then Inl (ConnectionError ''Incorrect payload size'')
       else if length b - 24 < from_bytes (take 4 (drop 20 b)) then Inl (ConnectionError ''Message data too short'')
       else if from_bytes (take 4 (drop 20 b)) < length b - 24 then Inl (ConnectionError ''Message data too long'')
       else create_message (take 4 b) sender (PBytes (drop 24 b))))"
proof -
  define s where "s = sched st"
  have s: "s = [] \<or> 16 \<le> hd s" "tl s = [] \<or> 16 \<le> hd (tl s)" "tl (tl s) = [] \<or> 16 \<le> hd (tl (tl s))"
    using assms(1) unfolding whole_fields_def s_def [symmetric]
    by (cases s; cases "tl s"; cases "tl (tl s)"; auto simp: numeral_3_eq_3)+
  define st1 where "st1 = st\<lparr>pending := drop 4 b, sched := tl s\<rparr>"
  define st2 where "st2 = st\<lparr>pending := drop 20 b, sched := tl (tl s)\<rparr>"
  define st3 where "st3 = st\<lparr>pending := drop 24 b, sched := tl (tl (tl s))\<rparr>"
  have r1: "recv 4 st = (take 4 b, st1)"
    using s(1) recv_whole [of st 4] by (auto simp: s_def b_def st1_def)
  have r2: "recv 16 st1 = (take 16 (drop 4 b), st2)"
    using s(2) recv_whole [of st1 16] by (auto simp: st1_def st2_def)
  have r3: "recv 4 st2 = (take 4 (drop 20 b), st3)"
    using s(3) recv_whole [of st2 4] by (auto simp: st2_def st3_def)
  have body: "bindE (recv_payload n [] st3) (\<lambda>(message_data, st4).
       if length message_data > n \<or> fst (recv 1 st4) \<noteq> []
       then Inl (ConnectionError ''Message data too long'') else f message_data) =
     (if length b - 24 < n then Inl (ConnectionError ''Message data too short'')
      else if n < length b - 24 then Inl (ConnectionError ''Message data too long'')
      else f (drop 24 b))" for n and f :: "bytes \<Rightarrow> message res"
  proof (cases "length b - 24 < n")
    case True
    with recv_payload_spec [of "[]" st3 n] show ?thesis by (simp add: st3_def)
  next
    case False
    with recv_payload_spec [of "[]" st3 n] obtain d st4 where
      d: "recv_payload n [] st3 = Inr (d, st4)" "d @ pending st4 = drop 24 b" "n \<le> length d"
      by (auto simp: st3_def)
    have "length d + length (pending st4) = length b - 24" using arg_cong [OF d(2), of length] by simp
    moreover have "fst (recv 1 st4) \<noteq> [] \<longleftrightarrow> pending st4 \<noteq> []"
      using recv_progress [of 1 st4 "fst (recv 1 st4)" "snd (recv 1 st4)"] by simp
    moreover have "drop 24 b = d" if "pending st4 = []" using d(2) that by simp
    ultimately show ?thesis using d(1,3) False
      by (cases "pending st4") auto
  qed
  show ?thesis
    unfolding read_message_def message_sizes r1 Let_def prod.case r2 r3 body
    by (auto intro!: arg_cong [where f = "bindE _"] simp: fun_eq_iff)
qed

section \<open>Framing\<close>

lemma frame_fields:
  assumes "length nm = 16" "n < 256 ^ 4" "length d = n"
    and b_def: "b = header c @ nm @ be_bytes 4 n @ d"
  shows "take 4 b = header c" "take 16 (drop 4 b) = nm" "from_bytes (take 4 (drop 20 b)) = n"
    "drop 24 b = d" "length b = 24 + n"
proof -
  show "take 4 b = header c" "take 16 (drop 4 b) = nm" "drop 24 b = d" "length b = 24 + n"
    using assms(1,3) by (simp_all add: b_def)
  have "take 4 (drop 20 b) = be_bytes 4 n" using assms(1) by (simp add: b_def)
  then show "from_bytes (take 4 (drop 20 b)) = n" using from_be_bytes [OF assms(2)] by simp
qed

text \<open>What is on the wire for a message the format can carry.\<close>

definition sendable :: "message \<Rightarrow> bool" where
  "sendable m \<longleftrightarrow> wire_name (msg_sender m) \<and> wf_json (msg_data m) \<and> payload_fits (msg_data m)"

lemma sendable_frame:
  assumes "sendable m" "encode_message m = Inr b"
  obtains nm d where "utf8_encode (msg_sender m) = Inr nm" "payload_bytes (msg_data m) = Inr d"
    "length d < 256 ^ 4" "b = header (msg_class m) @ pad_sender nm @ be_bytes 4 (length d) @ d"
  using encode_message_shape [of m] assms by (auto simp: sendable_def)

lemma create_frame:
  assumes "sendable m" "payload_bytes (msg_data m) = Inr d"
  shows "create_message (header (msg_class m)) (msg_sender m) (PBytes d) = Inr m"
  using assms unpack_payload [of "msg_data m" d] wire_name_length [of "msg_sender m"]
  by (simp add: sendable_def create_message_def map_of_message_mapping mk_message_Inr)

lemma read_frame:
  assumes "sendable m" "encode_message m = Inr b" "whole_fields (sched st)" "pending st = b @ extra"
  shows "read_message st =
    (if extra = [] then Inr m else Inl (ConnectionError ''Message data too long''))"
proof -
  from sendable_frame [OF assms(1,2)] obtain nm d where
    nm: "utf8_encode (msg_sender m) = Inr nm" and d: "payload_bytes (msg_data m) = Inr d"
    and len: "length d < 256 ^ 4"
    and b: "b = header (msg_class m) @ pad_sender nm @ be_bytes 4 (length d) @ d" .
  note f = frame_fields [OF length_pad_sender [of nm] len refl b]
  have name: "wire_name (msg_sender m)" using assms(1) by (simp add: sendable_def)
  note w = wire_name_sender [OF name nm]
  have "msg_sender m \<noteq> []" using name by (simp add: wire_name_def)
  moreover have "take 4 (pending st) = header (msg_class m)" "take 16 (drop 4 (pending st)) = pad_sender nm"
    "take 4 (drop 20 (pending st)) = take 4 (drop 20 b)" "drop 24 (pending st) = d @ extra"
    using f(1,2,4,5) assms(4) by simp_all
  ultimately show ?thesis
    using f(3,5) assms(4) w(1,2) create_frame [OF assms(1) d]
    by (simp add: read_message_whole [OF assms(3)] map_of_message_mapping)
qed

text \<open>
  C1. The frame a host writes for a message is read back by the peer's handler as the same
  message and queued behind the earlier ones, however the network cuts the payload into pieces
  (the header, sender and length fields arriving whole).
\<close>

theorem frame_roundtrip:
  assumes "sendable m" "encode_message m = Inr b" "whole_fields s"
  shows "handle_connection \<lparr>pending = b, sched = s\<rparr> c = (Inr (), append_message_to_queue m c)"
  using read_frame [OF assms(1,2), of "\<lparr>pending = b, sched = s\<rparr>" "[]"] assms(3)
  by (simp add: handle_connection_def)

text \<open>
  Framing is strict at the far end: bytes after a complete frame make the handler drop the
  whole message and leave the queue alone.
\<close>

theorem frame_trailing_rejected:
  assumes "sendable m" "encode_message m = Inr b" "whole_fields s" "extra \<noteq> []"
  shows "handle_connection \<lparr>pending = b @ extra, sched = s\<rparr> c
    = (Inl (ConnectionError ''Message data too long''), c)"
  using read_frame [OF assms(1,2), of "\<lparr>pending = b @ extra, sched = s\<rparr>" extra] assms(3,4)
  by (simp add: handle_connection_def)

lemma mapping_length: "map_of message_mapping h = Some c \<Longrightarrow> length h = 4"
  using message_mapping_header by fastforce

text \<open>
  A frame cut short anywhere, by any number of bytes, is refused and nothing is queued.
\<close>

theorem frame_truncated_rejected:
  assumes "sendable m" "encode_message m = Inr (p @ q)" "q \<noteq> []" "whole_fields s"
  shows "\<exists>e. handle_connection \<lparr>pending = p, sched = s\<rparr> c = (Inl e, c)"
proof -
  from sendable_frame [OF assms(1,2)] obtain nm d where
    len: "length d < 256 ^ 4"
    and b: "p @ q = header (msg_class m) @ pad_sender nm @ be_bytes 4 (length d) @ d" .
  note f = frame_fields [OF length_pad_sender [of nm] len refl b]
  have lp: "length p < 24 + length d" using f(5) assms(3) by (cases q) auto
  have "\<exists>e. read_message \<lparr>pending = p, sched = s\<rparr> = Inl e"
  proof (cases "24 \<le> length p")
    case True
    then have "take 4 (drop 20 p) = take 4 (drop 20 (p @ q))" by simp
    then have "from_bytes (take 4 (drop 20 p)) = length d" using f(3) by (simp only:)
    moreover have "length p - 24 < length d" using lp True by linarith
    ultimately show ?thesis using True
      by (cases "utf8_decode (strip_nul (take 16 (drop 4 p)))")
        (simp_all add: read_message_whole assms(4))
  next
    case False
    then show ?thesis
      by (cases "utf8_decode (strip_nul (take 16 (drop 4 p)))")
        (simp_all add: read_message_whole assms(4))
  qed
  then show ?thesis by (auto simp: handle_connection_def)
qed

section \<open>What can get into the queue\<close>

text \<open>The messages the handler lets through, whatever the peer sent.\<close>

definition received_ok :: "message \<Rightarrow> bool" where
  "received_ok m \<longleftrightarrow> wire_name (msg_sender m) \<and> (\<exists>d. payload_value d = Inr (msg_data m))"

lemma utf8_decode_wire_name:
  assumes "utf8_decode b = Inr s" "length b \<le> 16" "0 \<notin> set b" "s \<noteq> []"
  shows "wire_name s"
  using assms utf8_encode_decode [OF assms(1)] utf8_encode_zero [of s b] by (simp add: wire_name_def)

lemma recv_length: "length (fst (recv n st)) \<le> n"
  by (auto simp: recv_def chunk_size_def split: list.split)

lemma strip_nul_props: "0 \<notin> set (strip_nul b)" "length (strip_nul b) \<le> length b"
  by (auto simp: strip_nul_def)

lemma unpack_PBytes: "unpack_message_data (PBytes d) = Inr v \<Longrightarrow> payload_value d = Inr v"
  by (auto simp: unpack_message_data_def split: sum.splits)

lemma read_message_ok:
  assumes "read_message st = Inr m"
  shows "received_ok m \<and> (\<exists>rest. pending st = header (msg_class m) @ rest)"
proof -
  obtain hdr st1 where h: "recv 4 st = (hdr, st1)" by (cases "recv 4 st")
  obtain ps st2 where p: "recv 16 st1 = (ps, st2)" by (cases "recv 16 st1")
  from assms h p obtain sender d where
    s: "utf8_decode (strip_nul ps) = Inr sender" "sender \<noteq> []" "length ps = 16"
    and m: "create_message hdr sender (PBytes d) = Inr m"
    by (auto simp: read_message_def bindE_eq_Inr Let_def split: if_splits prod.splits)
  from m obtain c where c: "map_of message_mapping hdr = Some c" "mk_message c sender (PBytes d) = Inr m"
    by (auto simp: create_message_def bindE_eq_Inr)
  have "wire_name sender"
    using utf8_decode_wire_name [OF s(1)] strip_nul_props [of ps] s(2,3) by simp
  moreover have "hdr = header (msg_class m)" using c by (auto simp: mk_message_Inr dest: message_mapping_header)
  moreover have "pending st = hdr @ pending st1" using recv_split [OF h] by simp
  ultimately show ?thesis
    using c(2) by (auto simp: mk_message_Inr received_ok_def dest: unpack_PBytes)
qed

lemma handle_shape:
  "(\<exists>e. handle_connection st c = (Inl e, c)) \<or>
   (\<exists>m rest. handle_connection st c = (Inr (), append_message_to_queue m c) \<and> received_ok m
      \<and> pending st = header (msg_class m) @ rest)"
proof (cases "read_message st")
  case (Inl e)
  then show ?thesis by (simp add: handle_connection_def)
next
  case (Inr m)
  with read_message_ok [OF Inr] show ?thesis by (auto simp: handle_connection_def)
qed

text \<open>
  C28. Whatever bytes arrive and however they are cut, the handler either raises and leaves the
  connection as it was, or appends exactly one message: of the class named by the first four
  bytes, from a non-empty sender name without NUL of at most 16 bytes, with parsed data.
\<close>

theorem handler_outcome:
  "(\<exists>e. handle_connection st c = (Inl e, c)) \<or>
   (\<exists>m rest. handle_connection st c = (Inr (), append_message_to_queue m c) \<and> received_ok m
      \<and> pending st = header (msg_class m) @ rest)"
  by (rule handle_shape)

text \<open>The connection's queue invariant: every queued message came through the handler's checks.\<close>

definition queue_ok :: "connection \<Rightarrow> bool" where
  "queue_ok c \<longleftrightarrow> list_all received_ok (message_queue c)"

lemma queue_ok_handle: "queue_ok c \<Longrightarrow> queue_ok (snd (handle_connection st c))"
  using handle_shape [of st c] by (auto simp: queue_ok_def append_message_to_queue_def)

lemma queue_ok_take: "queue_ok c \<Longrightarrow> take_message c = Some (m, c') \<Longrightarrow> received_ok m \<and> queue_ok c'"
  by (cases "message_queue c")
    (auto simp: queue_ok_def take_message_def recv_message_def pop_message_from_queue_def)


section \<open>Where the wire format loses information\<close>

text \<open>
  The header is read with a single \<open>recv\<close>: a peer's frame whose first one to three bytes
  arrive alone is refused as a bad header, although the frame is valid.
\<close>

theorem fragmented_header_rejected:
  assumes "0 < k" "k < 4"
  shows "handle_connection \<lparr>pending = b, sched = k # s\<rparr> c
    = (Inl (ConnectionError ''Incorrect message header''), c)"
proof -
  obtain h st' where r: "recv 4 \<lparr>pending = b, sched = k # s\<rparr> = (h, st')"
    by (cases "recv 4 \<lparr>pending = b, sched = k # s\<rparr>")
  then have "length h < 4" using assms by (auto simp: recv_def chunk_size_def)
  then have "map_of message_mapping h = None"
    using mapping_length by (metis less_irrefl not_None_eq)
  then show ?thesis by (simp add: handle_connection_def read_message_def r)
qed

text \<open>
  The constructor bounds the sender name to 16 characters but the field holds 16 bytes of
  UTF-8: a name of at most 16 characters whose UTF-8 form is longer is accepted by the
  constructor and never arrives as that name.
\<close>

theorem long_utf8_sender_lost:
  assumes "mk_message cl sender (PDict d) = Inr m"
    and "utf8_encode sender = Inr u" "16 < length u"
    and "encode_message m = Inr b" "read_message \<lparr>pending = b, sched = s\<rparr> = Inr m'"
  shows "msg_sender m' \<noteq> msg_sender m"
proof
  assume eq: "msg_sender m' = msg_sender m"
  from read_message_ok [OF assms(5)] have "wire_name (msg_sender m')" by (simp add: received_ok_def)
  moreover have "msg_sender m = sender" using assms(1) by (simp add: mk_message_Inr)
  ultimately show False using assms(2,3) eq by (simp add: wire_name_def)
qed

section \<open>Instances\<close>

text \<open>A concrete message, its frame and a connection, for the instances of the theorems below.\<close>

definition demo_message :: message where
  "demo_message = \<lparr>msg_class = GETU, msg_sender = str ''Bob'',
     msg_data = PDict [(str ''user'', PStr (str ''Eve'')), (str ''n'', PInt (- 7))]\<rparr>"

definition demo_frame :: bytes where
  "demo_frame = lit ''GETU'' @ replicate 13 0 @ lit ''Bob'' @ [0, 0, 0, 24] @
     map (\<lambda>b. if b = 42 then 34 else b) (lit ''{*user*: *Eve*, *n*: -7}'')"

definition demo_connection :: connection where
  "demo_connection = \<lparr>conn_name = str ''Alice'', conn_host = PStr (str ''localhost''), conn_port = PInt 8000,
     message_queue = [demo_message], conn_route = (\<lambda>_ _. None), conn_sent = []\<rparr>"

lemma demo_sendable: "sendable demo_message"
  by (simp add: demo_message_def sendable_def wire_name_def payload_fits_def wf_dict_def dkeys_def wire_eval)

lemma demo_encoded: "encode_message demo_message = Inr demo_frame"
  by (simp add: demo_message_def demo_frame_def wire_eval)

lemma demo_split: "demo_frame = take 30 demo_frame @ drop 30 demo_frame" "drop 30 demo_frame \<noteq> []"
  by (simp_all add: demo_frame_def)

theorem frame_roundtrip_witness:
  "handle_connection \<lparr>pending = demo_frame, sched = [16, 20, 16, 1, 3]\<rparr> demo_connection
    = (Inr (), append_message_to_queue demo_message demo_connection)"
  by (rule frame_roundtrip [OF demo_sendable demo_encoded]) (simp add: whole_fields_def)

theorem frame_trailing_rejected_witness:
  "handle_connection \<lparr>pending = demo_frame @ [0], sched = []\<rparr> demo_connection
    = (Inl (ConnectionError ''Message data too long''), demo_connection)"
  by (rule frame_trailing_rejected [OF demo_sendable demo_encoded]) (simp_all add: whole_fields_def)

theorem frame_truncated_rejected_witness:
  "\<exists>e. handle_connection \<lparr>pending = take 30 demo_frame, sched = []\<rparr> demo_connection = (Inl e, demo_connection)"
  by (rule frame_truncated_rejected [of demo_message _ "drop 30 demo_frame"])
    (use demo_sendable demo_encoded demo_split in \<open>simp_all add: whole_fields_def\<close>)

theorem fragmented_header_rejected_witness:
  "handle_connection \<lparr>pending = demo_frame, sched = 3 # []\<rparr> demo_connection
    = (Inl (ConnectionError ''Incorrect message header''), demo_connection)"
  by (rule fragmented_header_rejected) simp_all

definition long_name :: pystr where "long_name = [0xE9, 0xE9, 0xE9, 0xE9, 0xE9, 0xE9, 0xE9, 0xE9, 0xE9]"

definition long_message :: message where
  "long_message = \<lparr>msg_class = RGST, msg_sender = long_name, msg_data = PDict []\<rparr>"

definition long_frame :: bytes where
  "long_frame = lit ''RGST'' @ [0xC3, 0xA9, 0xC3, 0xA9, 0xC3, 0xA9, 0xC3, 0xA9, 0xC3, 0xA9, 0xC3, 0xA9, 0xC3, 0xA9, 0xC3, 0xA9] @ [0, 0, 0, 2] @ lit ''{}''"

lemma long_payload: "payload_bytes (PDict []) = Inr (lit ''{}'')"
  by (simp add: wire_eval)

lemma long_created: "mk_message RGST s (PBytes (lit ''{}'')) =
    (if length s > 16 then Inl MalformedMessage else Inr \<lparr>msg_class = RGST, msg_sender = s, msg_data = PDict []\<rparr>)"
  using unpack_payload [OF _ long_payload] by (simp add: mk_message_def)

lemma long_received: "read_message \<lparr>pending = long_frame, sched = []\<rparr> = Inr
    \<lparr>msg_class = RGST, msg_sender = [0xE9, 0xE9, 0xE9, 0xE9, 0xE9, 0xE9, 0xE9, 0xE9], msg_data = PDict []\<rparr>"
proof -
  have "take 16 (drop 4 long_frame) = [0xC3, 0xA9, 0xC3, 0xA9, 0xC3, 0xA9, 0xC3, 0xA9, 0xC3, 0xA9, 0xC3, 0xA9, 0xC3, 0xA9, 0xC3, 0xA9]" "take 4 long_frame = header RGST"
    "take 4 (drop 20 long_frame) = [0, 0, 0, 2]" "drop 24 long_frame = lit ''{}''" "length long_frame = 26"
    by (simp_all add: long_frame_def lit_def)
  moreover have "utf8_decode (strip_nul ([0xC3, 0xA9, 0xC3, 0xA9, 0xC3, 0xA9, 0xC3, 0xA9, 0xC3, 0xA9, 0xC3, 0xA9, 0xC3, 0xA9, 0xC3, 0xA9])) = Inr ([0xE9, 0xE9, 0xE9, 0xE9, 0xE9, 0xE9, 0xE9, 0xE9])"
    by (simp add: strip_nul_def utf8_decode_def cont_def)
  ultimately show ?thesis
    using long_created [of "[0xE9, 0xE9, 0xE9, 0xE9, 0xE9, 0xE9, 0xE9, 0xE9]"] map_of_message_mapping [of RGST]
    by (simp add: read_message_whole whole_fields_def create_message_def from_bytes_def del: header.simps)
qed

theorem long_utf8_sender_lost_witness:
  "msg_sender \<lparr>msg_class = RGST, msg_sender = [0xE9, 0xE9, 0xE9, 0xE9, 0xE9, 0xE9, 0xE9, 0xE9], msg_data = PDict []\<rparr> \<noteq> msg_sender long_message"
proof (rule long_utf8_sender_lost [OF _ _ _ _ long_received])
  show "mk_message RGST long_name (PDict []) = Inr long_message"
    by (simp add: mk_message_def long_name_def long_message_def unpack_message_data_def)
  show "utf8_encode long_name = Inr ([0xC3, 0xA9, 0xC3, 0xA9, 0xC3, 0xA9, 0xC3, 0xA9, 0xC3, 0xA9, 0xC3, 0xA9, 0xC3, 0xA9, 0xC3, 0xA9, 0xC3, 0xA9])"
    by (simp add: long_name_def wire_eval)
  show "encode_message long_message = Inr long_frame"
    by (simp add: long_message_def long_name_def long_frame_def wire_eval)
qed simp
end
