(* ===== verification/Mailbox.thy ===== *)
theory Mailbox
  imports Messages
begin

text \<open>
  \<^verbatim>\<open>qchat/mailbox.py\<close>: the store of received chat messages. Each method body runs under
  the mailbox's lock, so a concurrent history is a sequence of whole operations.
\<close>

record mailbox =
  mb_messages :: "message list"

definition mailbox_init :: mailbox where
  "mailbox_init = \<lparr>mb_messages = []\<rparr>"

definition storeMessage :: "message \<Rightarrow> mailbox \<Rightarrow> mailbox" where
  "storeMessage m b = b\<lparr>mb_messages := mb_messages b @ [m]\<rparr>"

definition getMessages :: "mailbox \<Rightarrow> message list" where
  "getMessages b = mb_messages b"

definition popMessages :: "mailbox \<Rightarrow> message list \<times> mailbox" where
  "popMessages b = (mb_messages b, b\<lparr>mb_messages := []\<rparr>)"

interpretation mail: buffer getMessages storeMessage popMessages
  by unfold_locales (simp_all add: getMessages_def storeMessage_def popMessages_def)

text \<open>A history of mailbox calls: what all the \<open>popMessages\<close> calls returned, and the end state.\<close>

fun mailbox_run :: "message buffer_op list \<Rightarrow> mailbox \<Rightarrow> message list \<times> mailbox" where
  "mailbox_run [] b = ([], b)"
| "mailbox_run (Deposit m # ops) b = mailbox_run ops (storeMessage m b)"
| "mailbox_run (Drain # ops) b =
     (let (ms, b') = popMessages b; (ms', b'') = mailbox_run ops b' in (ms @ ms', b''))"

fun stored :: "message buffer_op list \<Rightarrow> message list" where
  "stored [] = []"
| "stored (Deposit m # ops) = m # stored ops"
| "stored (Drain # ops) = stored ops"

lemma mailbox_run_ops: "mailbox_run ops b = mail.run_ops ops b"
proof (induction ops arbitrary: b)
  case (Cons op ops)
  then show ?case by (cases op) (simp_all add: case_prod_beta)
qed simp

lemma stored_deposits: "stored ops = mail.deposits ops"
  by (induction ops rule: stored.induct) simp_all

text \<open>
  C33. Under any interleaving of stores and pops of a new mailbox, what the pops returned followed
  by what is left is exactly what was stored, in order: nothing is lost, duplicated or reordered.
\<close>

theorem mailbox_exactly_once:
  "fst (mailbox_run ops mailbox_init) @ getMessages (snd (mailbox_run ops mailbox_init)) = stored ops"
  using mail.exactly_once [of ops mailbox_init]
  by (simp add: mailbox_run_ops stored_deposits getMessages_def mailbox_init_def)

end
