(* ===== verification/User_DB.thy ===== *)
theory User_DB
  imports Codec
begin

text \<open>
  \<^verbatim>\<open>qchat/db.py\<close>: the user database, a dictionary of dictionaries in insertion order.
  The store is given as an interface (\<open>user_store\<close>) that the core's handlers rely on, and as a
  refinement of a map from users to field maps.

  A user is a string in normal use, but the handlers pass on whatever value a message holds, so
  users are values here; \<open>db_key\<close> is the hashing that the dictionary applies to one.
\<close>

section \<open>The operations\<close>

type_synonym user = pyval
type_synonym userdb = "(user \<times> dict) list"

text \<open>
  Using a value as a key: lists and dictionaries are not hashable, a boolean is the same key as
  0 or 1. (A float is kept as its text, so it never meets the integer it equals.)
\<close>

definition db_key :: "pyval \<Rightarrow> user res" where
  "db_key v = (case v of
     PList _ \<Rightarrow> Inl TypeError
   | PDict _ \<Rightarrow> Inl TypeError
   | PBool b \<Rightarrow> Inr (PInt (if b then 1 else 0))
   | _ \<Rightarrow> Inr v)"

lemma db_key_PStr [simp]: "db_key (PStr s) = Inr (PStr s)"
  by (simp add: db_key_def)

definition get_user :: "userdb \<Rightarrow> user \<Rightarrow> dict option" where
  "get_user db user = map_of db user"

definition hasUser :: "userdb \<Rightarrow> user \<Rightarrow> bool" where
  "hasUser db user \<longleftrightarrow> get_user db user \<noteq> None"

text \<open>\<open>info.get(k)\<close>: \<open>None\<close> when the key is absent.\<close>

definition dict_get :: "dict \<Rightarrow> string \<Rightarrow> pyval" where
  "dict_get info k = (case map_of info (str k) of None \<Rightarrow> PNone | Some v \<Rightarrow> v)"

text \<open>The three getters share a body: an absent or an empty record raises.\<close>

definition get_field :: "string \<Rightarrow> userdb \<Rightarrow> user \<Rightarrow> pyval res" where
  "get_field k db user = (case get_user db user of
     None \<Rightarrow> Inl DBException
   | Some info \<Rightarrow> if info = [] then Inl DBException else Inr (dict_get info k))"

definition getPublicKey :: "userdb \<Rightarrow> user \<Rightarrow> pyval res" where
  "getPublicKey = get_field ''pub''"

definition getMessageKey :: "userdb \<Rightarrow> user \<Rightarrow> pyval res" where
  "getMessageKey = get_field ''message_key''"

definition getConnectionInfo :: "userdb \<Rightarrow> user \<Rightarrow> pyval res" where
  "getConnectionInfo = get_field ''connection''"

text \<open>The deletion loop stops at the first absent field, with the earlier ones gone.\<close>

fun pop_fields :: "pystr list \<Rightarrow> dict \<Rightarrow> unit res \<times> dict" where
  "pop_fields [] info = (Inr (), info)"
| "pop_fields (f # fs) info = (case dpop f info of
     Inl e \<Rightarrow> (Inl e, info)
   | Inr (_, info') \<Rightarrow> pop_fields fs info')"

definition deleteUserInfo :: "user \<Rightarrow> pystr list \<Rightarrow> userdb \<Rightarrow> unit res \<times> userdb" where
  "deleteUserInfo user fields db = (case get_user db user of
     None \<Rightarrow> (Inl DBException, db)
   | Some info \<Rightarrow> if info = [] then (Inl DBException, db)
       else (let (r, info') = pop_fields fields info in (r, dset user info' db)))"

definition deleteUser :: "user \<Rightarrow> userdb \<Rightarrow> unit res \<times> userdb" where
  "deleteUser user db = (case dpop user db of Inl e \<Rightarrow> (Inl e, db) | Inr (_, db') \<Rightarrow> (Inr (), db'))"

definition changeUserInfo :: "user \<Rightarrow> dict \<Rightarrow> userdb \<Rightarrow> userdb" where
  "changeUserInfo user kwargs db = (case get_user db user of
     None \<Rightarrow> db
   | Some info \<Rightarrow> dset user (dupdate info kwargs) db)"

definition addUser :: "user \<Rightarrow> dict \<Rightarrow> userdb \<Rightarrow> userdb" where
  "addUser user kwargs db =
     (let info = (case get_user db user of None \<Rightarrow> [] | Some info \<Rightarrow> info)
      in dset user (dupdate info kwargs) db)"

text \<open>\<open>v.decode("ISO-8859-1")\<close> on a stored value: only bytes have that method.\<close>

definition decode_latin1 :: "pyval \<Rightarrow> pyval res" where
  "decode_latin1 v = (case v of PBytes b \<Rightarrow> Inr (PStr (latin1_decode b)) | _ \<Rightarrow> Inl AttributeError)"

definition public_record :: "userdb \<Rightarrow> user \<Rightarrow> pyval res" where
  "public_record db user =
     bindE (getConnectionInfo db user) (\<lambda>connection.
     bindE (getPublicKey db user) (\<lambda>pub.
     bindE (decode_latin1 pub) (\<lambda>pub'.
     Inr (PDict [(str ''connection'', connection), (str ''pub'', pub'), (str ''user'', user)]))))"

definition getPublicUserInfo :: "userdb \<Rightarrow> user \<Rightarrow> pyval res" where
  "getPublicUserInfo db user =
     (if user = PStr (str ''*'') then
        bindE (foldE (\<lambda>u acc. bindE (public_record db u) (\<lambda>r. Inr (acc @ [r]))) (dkeys db) []) (\<lambda>infos.
        Inr (PDict [(str ''user'', PStr (str ''*'')), (str ''info'', PList infos)]))
      else public_record db user)"

lemmas getter_defs = getPublicKey_def getMessageKey_def getConnectionInfo_def get_field_def

section \<open>The store as an interface\<close>

locale user_store =
  fixes lookup :: "'d \<Rightarrow> user \<Rightarrow> dict option"
    and add :: "user \<Rightarrow> dict \<Rightarrow> 'd \<Rightarrow> 'd"
    and change :: "user \<Rightarrow> dict \<Rightarrow> 'd \<Rightarrow> 'd"
  assumes lookup_add: "lookup (add u kw d) v =
      (if v = u then Some (dupdate (case lookup d u of None \<Rightarrow> [] | Some i \<Rightarrow> i) kw) else lookup d v)"
    and lookup_change: "lookup (change u kw d) v =
      (if v = u then map_option (\<lambda>i. dupdate i kw) (lookup d u) else lookup d v)"
begin

lemma add_other: "v \<noteq> u \<Longrightarrow> lookup (add u kw d) v = lookup d v"
  by (simp add: lookup_add)

lemma add_known: "lookup (add u kw d) u \<noteq> None"
  by (simp add: lookup_add)

lemma change_unknown: "lookup d u = None \<Longrightarrow> lookup (change u kw d) v = lookup d v"
  by (simp add: lookup_change)

lemma add_known_change: "lookup d u \<noteq> None \<Longrightarrow> lookup (add u kw d) v = lookup (change u kw d) v"
  by (auto simp: lookup_add lookup_change)

lemma change_keeps_users: "lookup (change u kw d) v = None \<longleftrightarrow> lookup d v = None"
  by (auto simp: lookup_change)

text \<open>Adding only users that are not known yet changes no known record.\<close>

definition add_new :: "user \<times> dict \<Rightarrow> 'd \<Rightarrow> 'd" where
  "add_new p d = (if lookup d (fst p) = None then add (fst p) (snd p) d else d)"

lemma add_new_keeps: "lookup d v = Some i \<Longrightarrow> lookup (add_new p d) v = Some i"
  by (auto simp: add_new_def lookup_add)

lemma fold_add_new_keeps: "lookup d v = Some i \<Longrightarrow> lookup (fold add_new ps d) v = Some i"
  by (induction ps arbitrary: d) (simp_all add: add_new_keeps)

end

interpretation users: user_store get_user addUser changeUserInfo
  by unfold_locales (auto simp: get_user_def addUser_def changeUserInfo_def Let_def split: option.split)

section \<open>Well-formed databases\<close>

definition db_ok :: "userdb \<Rightarrow> bool" where
  "db_ok db \<longleftrightarrow> wf_dict db \<and> (\<forall>u i. get_user db u = Some i \<longrightarrow> wf_dict i)"

lemma db_okI: "wf_dict db \<Longrightarrow> (\<And>u i. get_user db u = Some i \<Longrightarrow> wf_dict i) \<Longrightarrow> db_ok db"
  by (simp add: db_ok_def)

lemma db_ok_set: "db_ok db \<Longrightarrow> wf_dict i \<Longrightarrow> db_ok (dset u i db)"
  by (auto simp: db_ok_def get_user_def)

lemma wf_pop_fields: "wf_dict i \<Longrightarrow> wf_dict (snd (pop_fields fs i))"
  by (induction fs i rule: pop_fields.induct) (auto simp: dpop_def split: option.split)

lemma db_ok_addUser: "db_ok db \<Longrightarrow> db_ok (addUser u kw db)"
  unfolding addUser_def Let_def
  by (rule db_ok_set) (auto simp: db_ok_def split: option.split)

lemma db_ok_changeUserInfo: "db_ok db \<Longrightarrow> db_ok (changeUserInfo u kw db)"
  by (auto simp: changeUserInfo_def db_ok_def get_user_def split: option.split)

lemma db_ok_deleteUserInfo: "db_ok db \<Longrightarrow> db_ok (snd (deleteUserInfo u fs db))"
  by (auto simp: deleteUserInfo_def case_prod_beta intro!: db_ok_set wf_pop_fields
      split: option.split) (simp add: db_ok_def)

lemma db_ok_deleteUser: "db_ok db \<Longrightarrow> db_ok (snd (deleteUser u db))"
  by (auto simp: deleteUser_def dpop_def db_ok_def get_user_def delete_conv' split: option.split if_splits)

text \<open>The operations as commands, for the invariant.\<close>

datatype db_op =
    AddUser user dict
  | ChangeUserInfo user dict
  | DeleteUserInfo user "pystr list"
  | DeleteUser user

fun db_step :: "db_op \<Rightarrow> userdb \<Rightarrow> unit res \<times> userdb" where
  "db_step (AddUser u kw) db = (Inr (), addUser u kw db)"
| "db_step (ChangeUserInfo u kw) db = (Inr (), changeUserInfo u kw db)"
| "db_step (DeleteUserInfo u fs) db = deleteUserInfo u fs db"
| "db_step (DeleteUser u) db = deleteUser u db"

definition db_run :: "db_op list \<Rightarrow> userdb \<Rightarrow> userdb" where
  "db_run ops db = fold (\<lambda>op db. snd (db_step op db)) ops db"

lemma db_ok_step: "db_ok db \<Longrightarrow> db_ok (snd (db_step op db))"
  by (cases op) (simp_all add: db_ok_addUser db_ok_changeUserInfo db_ok_deleteUserInfo db_ok_deleteUser)

text \<open>
  From an empty database, any sequence of additions, changes and deletions (failed ones
  included, which may stop half-way) leaves every user and every field of a user listed once.
\<close>

theorem db_invariant: "db_ok (db_run ops [])"
proof -
  have "db_ok db \<Longrightarrow> db_ok (db_run ops db)" for db
    unfolding db_run_def by (induction ops arbitrary: db) (simp_all add: db_ok_step)
  moreover have "db_ok []" by (simp add: db_ok_def get_user_def)
  ultimately show ?thesis by blast
qed

section \<open>Refinement of a map of maps\<close>

type_synonym abs_db = "user \<rightharpoonup> (pystr \<rightharpoonup> pyval)"

definition abs_db :: "userdb \<Rightarrow> abs_db" where
  "abs_db db = (\<lambda>u. map_option map_of (get_user db u))"

text \<open>The abstract step: which exception, and which map of maps.\<close>

fun abs_pop :: "pystr list \<Rightarrow> (pystr \<rightharpoonup> pyval) \<Rightarrow> unit res \<times> (pystr \<rightharpoonup> pyval)" where
  "abs_pop [] i = (Inr (), i)"
| "abs_pop (f # fs) i = (if i f = None then (Inl KeyError, i) else abs_pop fs (i(f := None)))"

fun abs_step :: "db_op \<Rightarrow> abs_db \<Rightarrow> unit res \<times> abs_db" where
  "abs_step (AddUser u kw) a =
     (Inr (), a(u \<mapsto> (case a u of None \<Rightarrow> Map.empty | Some i \<Rightarrow> i) ++ map_of kw))"
| "abs_step (ChangeUserInfo u kw) a =
     (Inr (), case a u of None \<Rightarrow> a | Some i \<Rightarrow> a(u \<mapsto> i ++ map_of kw))"
| "abs_step (DeleteUserInfo u fs) a = (case a u of
     None \<Rightarrow> (Inl DBException, a)
   | Some i \<Rightarrow> if i = Map.empty then (Inl DBException, a)
       else (fst (abs_pop fs i), a(u \<mapsto> snd (abs_pop fs i))))"
| "abs_step (DeleteUser u) a =
     (if a u = None then (Inl KeyError, a) else (Inr (), a(u := None)))"

fun op_ok :: "db_op \<Rightarrow> bool" where
  "op_ok (AddUser u kw) = wf_dict kw"
| "op_ok (ChangeUserInfo u kw) = wf_dict kw"
| "op_ok _ = True"

lemma pop_fields_abs:
  "fst (pop_fields fs i) = fst (abs_pop fs (map_of i)) \<and> map_of (snd (pop_fields fs i)) = snd (abs_pop fs (map_of i))"
  by (induction fs i rule: pop_fields.induct)
    (auto simp: dpop_def delete_conv' restrict_map_def fun_upd_def split: option.split)

lemma abs_db_set: "abs_db (dset u i db) = (abs_db db)(u \<mapsto> map_of i)"
  by (auto simp: abs_db_def get_user_def)

lemma map_of_empty_iff: "map_of i = Map.empty \<longleftrightarrow> i = []"
  by (cases i) (auto simp: fun_eq_iff split: if_splits)

text \<open>
  C30. The dictionary of dictionaries implements a map from users to field maps: every operation
  raises exactly when, and exactly what, the abstract one does, and ends in the state that
  represents the abstract result. Only \<open>AddUser\<close> creates a user.
\<close>

theorem db_refines_map:
  assumes "op_ok op"
  shows "map_prod id abs_db (db_step op db) = abs_step op (abs_db db)"
proof (cases op)
  case (AddUser u kw)
  then have "wf_dict kw" using assms by simp
  then have "map_of (dupdate (case get_user db u of None \<Rightarrow> [] | Some i \<Rightarrow> i) kw)
      = (case abs_db db u of None \<Rightarrow> Map.empty | Some i \<Rightarrow> i) ++ map_of kw"
    by (auto simp: map_of_dupdate abs_db_def split: option.split)
  then show ?thesis by (simp add: AddUser addUser_def abs_db_set)
next
  case (ChangeUserInfo u kw)
  then have "wf_dict kw" using assms by simp
  then show ?thesis
    by (auto simp: ChangeUserInfo changeUserInfo_def abs_db_set map_of_dupdate abs_db_def [of db]
        split: option.split)
next
  case (DeleteUserInfo u fs)
  show ?thesis
  proof (cases "get_user db u")
    case None
    then have "abs_db db u = None" by (simp add: abs_db_def)
    with None show ?thesis by (simp add: DeleteUserInfo deleteUserInfo_def)
  next
    case (Some i)
    then have "abs_db db u = Some (map_of i)" by (simp add: abs_db_def)
    with Some pop_fields_abs [of fs i] map_of_empty_iff [of i] show ?thesis
      by (auto simp: DeleteUserInfo deleteUserInfo_def case_prod_beta abs_db_set)
  qed
next
  case (DeleteUser u)
  have "abs_db (AList.delete u db) = (abs_db db)(u := None)"
    by (auto simp: abs_db_def get_user_def delete_conv')
  then show ?thesis
    by (auto simp: DeleteUser deleteUser_def dpop_def abs_db_def [of db] get_user_def split: option.split)
qed

section \<open>Records that exist and do not answer\<close>

text \<open>
  Deleting all fields of a user leaves a user that \<open>hasUser\<close> reports and for which every
  getter raises the exception for a user that does not exist.
\<close>

theorem emptied_user_half_exists:
  assumes "get_user db u = Some info" "info \<noteq> []" "wf_dict info"
  defines "db' \<equiv> snd (deleteUserInfo u (dkeys info) db)"
  shows "fst (deleteUserInfo u (dkeys info) db) = Inr () \<and> hasUser db' u \<and>
    getPublicKey db' u = Inl DBException \<and> getMessageKey db' u = Inl DBException \<and>
    getConnectionInfo db' u = Inl DBException"
proof -
  have "pop_fields (dkeys i) i = (Inr (), [])" if "wf_dict i" for i :: dict
    using that
  proof (induction i)
    case (Cons kv i)
    obtain k v where kv: "kv = (k, v)" by (cases kv)
    have "AList.delete k i = i" using Cons.prems kv by (simp add: delete_id map_of_eq_None_iff)
    with Cons kv show ?case by (simp add: dkeys_def dpop_def)
  qed (simp add: dkeys_def)
  then have "deleteUserInfo u (dkeys info) db = (Inr (), dset u [] db)"
    using assms(1-3) by (simp add: deleteUserInfo_def)
  then show ?thesis by (simp add: db'_def hasUser_def getter_defs get_user_def)
qed

text \<open>
  \<open>getPublicUserInfo\<close> answers for a user exactly when the record is not empty and its public
  key is stored as bytes; a key stored as text (as a \<open>PUTU\<close> message delivers it) or missing
  makes it raise \<open>AttributeError\<close>.
\<close>

theorem public_info_needs_bytes:
  assumes "u \<noteq> PStr (str ''*'')" "get_user db u = Some info" "info \<noteq> []"
  shows "getPublicUserInfo db u = (case dict_get info ''pub'' of
      PBytes b \<Rightarrow> Inr (PDict [(str ''connection'', dict_get info ''connection''),
        (str ''pub'', PStr (latin1_decode b)), (str ''user'', u)])
    | _ \<Rightarrow> Inl AttributeError)"
  using assms
  by (simp add: getPublicUserInfo_def public_record_def getter_defs decode_latin1_def split: pyval.split)

section \<open>Instances\<close>

definition demo_info :: dict where
  "demo_info = [(str ''pub'', PBytes (lit ''key'')), (str ''connection'', PNone)]"

theorem db_refines_map_witness:
  "map_prod id abs_db (db_step (AddUser (PStr (str ''Bob'')) demo_info) [(PStr (str ''Eve''), [])])
    = abs_step (AddUser (PStr (str ''Bob'')) demo_info) (abs_db [(PStr (str ''Eve''), [])])"
  by (rule db_refines_map) (simp add: demo_info_def wf_dict_def dkeys_def)

theorem emptied_user_half_exists_witness:
  "hasUser (snd (deleteUserInfo (PStr (str ''Bob'')) (dkeys demo_info) [(PStr (str ''Bob''), demo_info)])) (PStr (str ''Bob''))"
  using emptied_user_half_exists [of "[(PStr (str ''Bob''), demo_info)]" "PStr (str ''Bob'')" demo_info]
  by (simp add: get_user_def demo_info_def wf_dict_def dkeys_def)

theorem public_info_needs_bytes_witness:
  "getPublicUserInfo [(PStr (str ''Bob''), demo_info)] (PStr (str ''Bob'')) =
    Inr (PDict [(str ''connection'', PNone), (str ''pub'', PStr (latin1_decode (lit ''key''))), (str ''user'', PStr (str ''Bob''))])"
  using public_info_needs_bytes [of "PStr (str ''Bob'')" "[(PStr (str ''Bob''), demo_info)]" demo_info]
  by (simp add: get_user_def demo_info_def dict_get_def)

end
