(* ===== verification/Cryptobox.thy ===== *)
theory Cryptobox
  imports Codec
begin

text \<open>
  \<^verbatim>\<open>qchat/cryptobox.py\<close>: the classes are thin wrappers of the PyCryptodome library, which is
  not part of the repository. The library is a parameter: a record of the functions that the
  wrappers call, with the documented laws as predicates that the theorems name as hypotheses.

  \<^item> \<open>rsa_export\<close>: the exported public key of a private key (\<open>key.publickey().exportKey()\<close>).
  \<^item> \<open>rsa_import\<close>: \<open>RSA.import_key\<close> on a value; raises on what is no key.
  \<^item> \<open>rsa_sign\<close>, \<open>rsa_valid\<close>: PKCS#1 v1.5 over SHA-384 of the data.
  \<^item> \<open>gcm_new\<close>: the exception of \<open>AES.new\<close> on a key or nonce that is not one; \<open>gcm_stream\<close> is both
    encryption and decryption under key and nonce, \<open>gcm_tag\<close> the tag of key, nonce, ciphertext.
\<close>

record crypto =
  rsa_export :: "bytes \<Rightarrow> bytes"
  rsa_import :: "pyval \<Rightarrow> bytes res"
  rsa_sign :: "bytes \<Rightarrow> bytes \<Rightarrow> bytes"
  rsa_valid :: "bytes \<Rightarrow> bytes \<Rightarrow> bytes \<Rightarrow> bool"
  gcm_new :: "pyval \<Rightarrow> bytes \<Rightarrow> bytes res"
  gcm_stream :: "bytes \<Rightarrow> bytes \<Rightarrow> bytes \<Rightarrow> bytes"
  gcm_unstream :: "bytes \<Rightarrow> bytes \<Rightarrow> bytes \<Rightarrow> bytes"
  gcm_tag :: "bytes \<Rightarrow> bytes \<Rightarrow> bytes \<Rightarrow> bytes"

section \<open>The wrappers\<close>

text \<open>\<open>encrypt\<close> draws the nonce from the library's random source: it is an argument.\<close>

definition cipher_encrypt :: "crypto \<Rightarrow> pyval \<Rightarrow> bytes \<Rightarrow> bytes \<Rightarrow> (bytes \<times> bytes \<times> bytes) res" where
  "cipher_encrypt C key nonce plaintext = bindE (gcm_new C key nonce) (\<lambda>k.
     let ciphertext = gcm_stream C k nonce plaintext
     in Inr (nonce, ciphertext, gcm_tag C k nonce ciphertext))"

definition cipher_decrypt :: "crypto \<Rightarrow> pyval \<Rightarrow> bytes \<times> bytes \<times> bytes \<Rightarrow> bytes res" where
  "cipher_decrypt C key message = (case message of (nonce, ciphertext, tag) \<Rightarrow>
     bindE (gcm_new C key nonce) (\<lambda>k.
       if tag = gcm_tag C k nonce ciphertext then Inr (gcm_unstream C k nonce ciphertext)
       else Inl ValueError))"

definition get_pub :: "crypto \<Rightarrow> bytes \<Rightarrow> bytes" where
  "get_pub C key = rsa_export C key"

definition sign :: "crypto \<Rightarrow> bytes \<Rightarrow> bytes \<Rightarrow> bytes" where
  "sign C key data = rsa_sign C key data"

text \<open>\<open>QChatVerifier(pubkey).verify(data, sig)\<close>; the constructor's import may raise.\<close>

definition verify :: "crypto \<Rightarrow> pyval \<Rightarrow> bytes \<Rightarrow> bytes \<Rightarrow> bool res" where
  "verify C pubkey data sig = bindE (rsa_import C pubkey) (\<lambda>pk. Inr (rsa_valid C pk data sig))"

section \<open>What the library promises\<close>

definition signatures_ok :: "crypto \<Rightarrow> bool" where
  "signatures_ok C \<longleftrightarrow> (\<forall>k d. \<exists>pk. rsa_import C (PBytes (rsa_export C k)) = Inr pk
     \<and> rsa_valid C pk d (rsa_sign C k d))"

text \<open>\<open>RSA.import_key\<close> takes a key as bytes or as text of the same characters.\<close>

definition import_text_ok :: "crypto \<Rightarrow> bool" where
  "import_text_ok C \<longleftrightarrow> (\<forall>b. rsa_import C (PStr (latin1_decode b)) = rsa_import C (PBytes b))"

definition encryption_ok :: "crypto \<Rightarrow> bool" where
  "encryption_ok C \<longleftrightarrow> (\<forall>k n d. gcm_unstream C k n (gcm_stream C k n d) = d)"

text \<open>\<open>AES.new\<close> takes keys of 16, 24 or 32 bytes, with any nonce but the empty one.\<close>

definition key_sizes_ok :: "crypto \<Rightarrow> bool" where
  "key_sizes_ok C \<longleftrightarrow> (\<forall>b n. length b \<in> {16, 24, 32} \<longrightarrow> n \<noteq> [] \<longrightarrow>
     gcm_new C (PBytes b) n = Inr b)"

lemma verify_sign:
  assumes "signatures_ok C"
  shows "verify C (PBytes (get_pub C k)) d (sign C k d) = Inr True"
proof -
  obtain pk where "rsa_import C (PBytes (rsa_export C k)) = Inr pk" "rsa_valid C pk d (rsa_sign C k d)"
    using assms unfolding signatures_ok_def by blast
  then show ?thesis by (simp add: verify_def get_pub_def sign_def)
qed

lemma verify_sign_text:
  assumes "signatures_ok C" "import_text_ok C"
  shows "verify C (PStr (latin1_decode (get_pub C k))) d (sign C k d) = Inr True"
  using verify_sign [OF assms(1)] assms(2) by (simp add: verify_def import_text_ok_def)

lemma decrypt_encrypt:
  assumes "encryption_ok C" "cipher_encrypt C key nonce p = Inr c"
  shows "cipher_decrypt C key c = Inr p"
  using assms by (auto simp: cipher_encrypt_def cipher_decrypt_def encryption_ok_def bindE_eq_Inr Let_def)

lemma encrypt_total:
  assumes "key_sizes_ok C" "length k = 16" "nonce \<noteq> []"
  shows "\<exists>c. cipher_encrypt C (PBytes k) nonce p = Inr c"
  using assms by (simp add: cipher_encrypt_def key_sizes_ok_def Let_def)

section \<open>An instance\<close>

text \<open>
  Functions with these laws, for the concrete instances of the theorems: a signature is the key
  and the length of the data, the cipher adds the key's first byte.
\<close>

definition demo_crypto :: crypto where
  "demo_crypto = \<lparr>rsa_export = (\<lambda>k. k),
     rsa_import = (\<lambda>v. case v of PBytes b \<Rightarrow> Inr b | PStr s \<Rightarrow> latin1_encode s | _ \<Rightarrow> Inl TypeError),
     rsa_sign = (\<lambda>k d. k @ [of_nat (length d)]),
     rsa_valid = (\<lambda>k d s. s = k @ [of_nat (length d)]),
     gcm_new = (\<lambda>v n. case v of PBytes b \<Rightarrow> (if length b \<in> {16, 24, 32} \<and> n \<noteq> [] then Inr b else Inl ValueError)
       | _ \<Rightarrow> Inl TypeError),
     gcm_stream = (\<lambda>k n. map (\<lambda>x. x + hd k)), gcm_unstream = (\<lambda>k n. map (\<lambda>x. x - hd k)),
     gcm_tag = (\<lambda>k n c. take 16 (k @ n @ c))\<rparr>"

lemma demo_crypto_ok:
  "signatures_ok demo_crypto" "import_text_ok demo_crypto" "encryption_ok demo_crypto"
  "key_sizes_ok demo_crypto"
  by (auto simp: demo_crypto_def signatures_ok_def import_text_ok_def encryption_ok_def key_sizes_ok_def o_def)

end
