(* ===== verification/Py_State.thy ===== *)
theory Py_State
  imports Py_Base
begin

text \<open>
  Methods of an object: a step takes the object's state and gives a result that may be an
  exception, beside the state as it is then. Whatever a step did before it raised stays done.
  The second part is the Python the handlers use on message data: subscripts, comparison of
  plain values, iteration and calls with \<open>**\<close> keyword arguments.
\<close>

section \<open>Steps\<close>

type_synonym ('s, 'a) step = "'s \<Rightarrow> 'a res \<times> 's"

definition ret :: "'a \<Rightarrow> ('s, 'a) step" where
  "ret x s = (Inr x, s)"

definition throw :: "pyexn \<Rightarrow> ('s, 'a) step" where
  "throw e s = (Inl e, s)"

definition lift :: "'a res \<Rightarrow> ('s, 'a) step" where
  "lift r s = (r, s)"

definition gets :: "('s \<Rightarrow> 'a) \<Rightarrow> ('s, 'a) step" where
  "gets f s = (Inr (f s), s)"

definition modifies :: "('s \<Rightarrow> 's) \<Rightarrow> ('s, unit) step" where
  "modifies f s = (Inr (), f s)"

definition andThen :: "('s, 'a) step \<Rightarrow> ('a \<Rightarrow> ('s, 'b) step) \<Rightarrow> ('s, 'b) step" where
  "andThen m f s = (case m s of (Inl e, t) \<Rightarrow> (Inl e, t) | (Inr x, t) \<Rightarrow> f x t)"

text \<open>A \<open>for\<close> loop, stopped by the first exception with the earlier turns done.\<close>

fun for_each :: "('a \<Rightarrow> ('s, unit) step) \<Rightarrow> 'a list \<Rightarrow> ('s, unit) step" where
  "for_each f [] s = (Inr (), s)"
| "for_each f (x # xs) s = (case f x s of (Inl e, t) \<Rightarrow> (Inl e, t) | (Inr _, t) \<Rightarrow> for_each f xs t)"

text \<open>\<open>try: m except Exception: pass\<close>\<close>

definition swallow :: "('s, unit) step \<Rightarrow> ('s, unit) step" where
  "swallow m s = (Inr (), snd (m s))"

named_theorems step_simps

lemma ret_apply [step_simps]: "ret x s = (Inr x, s)"
  by (simp add: ret_def)

lemma throw_apply [step_simps]: "throw e s = (Inl e, s)"
  by (simp add: throw_def)

lemma lift_apply [step_simps]: "lift r s = (r, s)"
  by (simp add: lift_def)

lemma gets_apply [step_simps]: "gets f s = (Inr (f s), s)"
  by (simp add: gets_def)

lemma modifies_apply [step_simps]: "modifies f s = (Inr (), f s)"
  by (simp add: modifies_def)

lemma andThen_Inr [step_simps]: "m s = (Inr x, t) \<Longrightarrow> andThen m f s = f x t"
  by (simp add: andThen_def)

lemma andThen_Inl [step_simps]: "m s = (Inl e, t) \<Longrightarrow> andThen m f s = (Inl e, t)"
  by (simp add: andThen_def)

lemma andThen_eq_Inr:
  "andThen m f s = (Inr y, u) \<longleftrightarrow> (\<exists>x t. m s = (Inr x, t) \<and> f x t = (Inr y, u))"
  by (auto simp: andThen_def split: prod.splits sum.splits)

lemma andThen_lift: "andThen (lift r) f s = (case r of Inl e \<Rightarrow> (Inl e, s) | Inr x \<Rightarrow> f x s)"
  by (cases r) (simp_all add: andThen_def lift_def)

lemma andThen_assoc: "andThen (andThen m f) g = andThen m (\<lambda>x. andThen (f x) g)"
  by (auto simp: andThen_def fun_eq_iff split: prod.splits sum.splits)

text \<open>An invariant of the state, kept whether or not the step raises.\<close>

definition keeps :: "('s \<Rightarrow> bool) \<Rightarrow> ('s, 'a) step \<Rightarrow> bool" where
  "keeps P m \<longleftrightarrow> (\<forall>s. P s \<longrightarrow> P (snd (m s)))"

named_theorems keeps_rules

lemma keepsI: "(\<And>s. P s \<Longrightarrow> P (snd (m s))) \<Longrightarrow> keeps P m"
  by (simp add: keeps_def)

lemma keepsD: "keeps P m \<Longrightarrow> P s \<Longrightarrow> P (snd (m s))"
  by (simp add: keeps_def)

lemma keeps_ret [keeps_rules]: "keeps P (ret x)"
  by (simp add: keeps_def ret_def)

lemma keeps_throw [keeps_rules]: "keeps P (throw e)"
  by (simp add: keeps_def throw_def)

lemma keeps_lift [keeps_rules]: "keeps P (lift r)"
  by (simp add: keeps_def lift_def)

lemma keeps_gets [keeps_rules]: "keeps P (gets f)"
  by (simp add: keeps_def gets_def)

lemma keeps_modifies: "(\<And>s. P s \<Longrightarrow> P (f s)) \<Longrightarrow> keeps P (modifies f)"
  by (simp add: keeps_def modifies_def)

lemma keeps_andThen [keeps_rules]:
  assumes "keeps P m" "\<And>x. keeps P (f x)"
  shows "keeps P (andThen m f)"
proof (rule keepsI)
  fix s assume "P s"
  then have "P (snd (m s))" using assms(1) by (simp add: keeps_def)
  then show "P (snd (andThen m f s))"
    using assms(2) by (auto simp: andThen_def keeps_def split: prod.splits sum.splits)
qed

lemma keeps_if [keeps_rules]: "keeps P m \<Longrightarrow> keeps P m' \<Longrightarrow> keeps P (if b then m else m')"
  by simp

lemma keeps_for_each [keeps_rules]:
  assumes "\<And>x. keeps P (f x)"
  shows "keeps P (for_each f xs)"
proof (rule keepsI)
  fix s assume "P s"
  then show "P (snd (for_each f xs s))"
  proof (induction xs arbitrary: s)
    case (Cons x xs)
    then have "P (snd (f x s))" using assms by (simp add: keeps_def)
    with Cons.IH show ?case by (auto split: prod.splits sum.splits)
  qed simp
qed

lemma keeps_swallow [keeps_rules]: "keeps P m \<Longrightarrow> keeps P (swallow m)"
  by (simp add: keeps_def swallow_def)

section \<open>Operations on plain values\<close>

text \<open>\<open>v[k]\<close> with a string key: only a dictionary has string keys.\<close>

definition getitem :: "pyval \<Rightarrow> string \<Rightarrow> pyval res" where
  "getitem v k = (case v of PDict d \<Rightarrow> dget d (str k) | _ \<Rightarrow> Inl TypeError)"

text \<open>\<open>v.pop(k)\<close> with a string key; returns the dictionary without the entry.\<close>

definition pop_key :: "pyval \<Rightarrow> string \<Rightarrow> (pyval \<times> pyval) res" where
  "pop_key v k = (case v of
     PDict d \<Rightarrow> bindE (dpop (str k) d) (\<lambda>(x, d'). Inr (x, PDict d'))
   | PList _ \<Rightarrow> Inl TypeError
   | _ \<Rightarrow> Inl AttributeError)"

text \<open>\<open>v[k] = x\<close> with a string key.\<close>

definition setitem :: "pyval \<Rightarrow> string \<Rightarrow> pyval \<Rightarrow> pyval res" where
  "setitem v k x = (case v of PDict d \<Rightarrow> Inr (PDict (dset (str k) x d)) | _ \<Rightarrow> Inl TypeError)"

text \<open>The values of a \<open>for\<close> loop: a string gives its characters, a dictionary its keys.\<close>

definition iterate :: "pyval \<Rightarrow> pyval list res" where
  "iterate v = (case v of
     PList xs \<Rightarrow> Inr xs
   | PStr s \<Rightarrow> Inr (map (\<lambda>c. PStr [c]) s)
   | PBytes b \<Rightarrow> Inr (map (\<lambda>x. PInt (uint x)) b)
   | PDict d \<Rightarrow> Inr (map (\<lambda>p. PStr (fst p)) d)
   | _ \<Rightarrow> Inl TypeError)"

text \<open>\<open>==\<close> on plain values: booleans are the integers 0 and 1.\<close>

definition int_of_val :: "pyval \<Rightarrow> int option" where
  "int_of_val v = (case v of PBool b \<Rightarrow> Some (if b then 1 else 0) | PInt i \<Rightarrow> Some i | _ \<Rightarrow> None)"

definition py_eq :: "pyval \<Rightarrow> pyval \<Rightarrow> bool" where
  "py_eq a b = (case int_of_val a of
     Some i \<Rightarrow> int_of_val b = Some i
   | None \<Rightarrow> int_of_val b = None \<and> a = b)"

lemma py_eq_refl [simp]: "py_eq a a"
  by (simp add: py_eq_def split: option.split)

text \<open>
  \<open>handler(**v)\<close> for a bound method: \<open>v\<close> must be a dictionary, without the key \<open>self\<close>; with
  exactly the named parameters, or with at least them and the rest collected.
\<close>

definition call_kwargs :: "string list \<Rightarrow> pyval \<Rightarrow> dict res" where
  "call_kwargs params v = (case v of
     PDict d \<Rightarrow> if set (dkeys d) = set (map str params) then Inr d else Inl TypeError
   | _ \<Rightarrow> Inl TypeError)"

definition call_var_kwargs :: "string \<Rightarrow> pyval \<Rightarrow> (pyval \<times> dict) res" where
  "call_var_kwargs param v = (case v of
     PDict d \<Rightarrow> if str ''self'' \<in> set (dkeys d) then Inl TypeError
       else (case dpop (str param) d of Inl _ \<Rightarrow> Inl TypeError | Inr (x, d') \<Rightarrow> Inr (x, d'))
   | _ \<Rightarrow> Inl TypeError)"

end
