(* ===== verification/Core.thy ===== *)
theory Core
  imports Py_State Cryptobox Connection User_DB
begin

text \<open>
  \<^verbatim>\<open>qchat/core.py\<close>: what server and client share. The state of a host is a record, a method
  is a step of it. The messages of one host are handled in threads of their own; the model runs
  one handler at a time, except where a handler waits for the others: there the states that the
  other threads leave behind are an argument (\<open>turns\<close>).
\<close>

section \<open>State\<close>

record core =
  core_name :: pystr
  config :: pyval
  root_config :: pyval
  signer_key :: bytes
  allow_invalid :: bool
  conn :: connection
  userDB :: userdb
  qubit_history :: "user \<Rightarrow> int list"
  control_message_queue :: "pystr \<Rightarrow> message list"

type_synonym ('a, 'r) op = "('a core_scheme, 'r) step"

text \<open>\<open>base_config.get(name)\<close>; the name comes out of the configuration and may be \<open>None\<close>.\<close>

definition load_server_config :: "dict \<Rightarrow> pyval \<Rightarrow> pyval res" where
  "load_server_config base_config name = (case name of
     PStr n \<Rightarrow> Inr (case map_of base_config n of None \<Rightarrow> PNone | Some v \<Rightarrow> v)
   | PList _ \<Rightarrow> Inl TypeError
   | PDict _ \<Rightarrow> Inl TypeError
   | _ \<Rightarrow> Inr PNone)"

section \<open>Access to the parts\<close>

definition has_user :: "pyval \<Rightarrow> ('a, bool) op" where
  "has_user user = andThen (lift (db_key user)) (\<lambda>k. gets (\<lambda>s. hasUser (userDB s) k))"

definition core_getPublicKey :: "pyval \<Rightarrow> ('a, pyval) op" where
  "core_getPublicKey user s = (bindE (db_key user) (getPublicKey (userDB s)), s)"

definition core_getConnectionInfo :: "pyval \<Rightarrow> ('a, pyval) op" where
  "core_getConnectionInfo user s = (bindE (db_key user) (getConnectionInfo (userDB s)), s)"

definition getPublicInfo :: "pyval \<Rightarrow> ('a, pyval) op" where
  "getPublicInfo user s = (bindE (db_key user) (getPublicUserInfo (userDB s)), s)"

definition db_add :: "pyval \<Rightarrow> dict \<Rightarrow> ('a, unit) op" where
  "db_add user kwargs = andThen (lift (db_key user)) (\<lambda>k.
     modifies (\<lambda>s. s\<lparr>userDB := addUser k kwargs (userDB s)\<rparr>))"

definition send_to :: "pyval \<Rightarrow> pyval \<Rightarrow> bytes \<Rightarrow> ('a, unit) op" where
  "send_to host port b s =
     (fst (send_message host port b (conn s)), s\<lparr>conn := snd (send_message host port b (conn s))\<rparr>)"

text \<open>\<open>send_message(target["host"], target["port"], m.encode_message())\<close>\<close>

definition send_encoded :: "pyval \<Rightarrow> message \<Rightarrow> ('a, unit) op" where
  "send_encoded target m =
     andThen (lift (getitem target ''host'')) (\<lambda>host.
     andThen (lift (getitem target ''port'')) (\<lambda>port.
     andThen (lift (encode_message m)) (send_to host port)))"

section \<open>Signatures\<close>

definition sign_message :: "crypto \<Rightarrow> message \<Rightarrow> ('a, message) op" where
  "sign_message C m s = (bindE (encode_message m) (\<lambda>b.
     bindE (setitem (msg_data m) ''sig'' (PStr (latin1_decode (sign C (signer_key s) b)))) (\<lambda>d.
     Inr (m\<lparr>msg_data := d\<rparr>))), s)"

text \<open>\<open>v.encode("ISO-8859-1")\<close>: only text has that method.\<close>

definition encode_latin1 :: "pyval \<Rightarrow> bytes res" where
  "encode_latin1 v = (case v of PStr t \<Rightarrow> latin1_encode t | _ \<Rightarrow> Inl AttributeError)"

definition strip_signature :: "message \<Rightarrow> (message \<times> bytes) res" where
  "strip_signature m = bindE (pop_key (msg_data m) ''sig'') (\<lambda>(v, d).
     bindE (encode_latin1 v) (\<lambda>signature. Inr (m\<lparr>msg_data := d\<rparr>, signature)))"

definition verify_message :: "crypto \<Rightarrow> message \<Rightarrow> bytes \<Rightarrow> ('a, unit) op" where
  "verify_message C m signature s = (bindE (encode_message m) (\<lambda>data.
     bindE (getPublicKey (userDB s) (PStr (msg_sender m))) (\<lambda>pub.
     bindE (verify C pub data signature) (\<lambda>ok.
     if ok then Inr () else Inl (PyException ''Obtained message with incorrect signature'')))), s)"

section \<open>Requests\<close>

text \<open>
  The wait loop: the user is looked up in the present state, then in each state that the other
  threads produce, until the clock has passed ten seconds (the end of the list).
\<close>

fun await_user :: "pyval \<Rightarrow> 'a core_scheme list \<Rightarrow> ('a, unit) op" where
  "await_user user turns s = (case fst (has_user user s) of
     Inl e \<Rightarrow> (Inl e, s)
   | Inr known \<Rightarrow> if known then (Inr (), s)
       else (case turns of
           [] \<Rightarrow> (Inl (PyException ''Failed to get info from registry''), s)
         | s' # rest \<Rightarrow> await_user user rest s'))"

definition requestUserInfo :: "crypto \<Rightarrow> 'a core_scheme list \<Rightarrow> pyval \<Rightarrow> ('a, unit) op" where
  "requestUserInfo C turns user =
     andThen (gets (\<lambda>s. PDict (dupdate [(str ''user'', user)] (get_connection_info (conn s))))) (\<lambda>data.
     andThen (gets core_name) (\<lambda>name.
     andThen (lift (mk_message GETU name data)) (\<lambda>m.
     andThen (sign_message C m) (\<lambda>m.
     andThen (gets root_config) (\<lambda>root.
     andThen (send_encoded root m) (\<lambda>_.
     if \<not> py_eq user (PStr (str ''*'')) then await_user user turns else ret ()))))))"

definition sendUserInfo :: "crypto \<Rightarrow> pyval \<Rightarrow> pyval \<Rightarrow> ('a, unit) op" where
  "sendUserInfo C user connection =
     andThen (getPublicInfo user) (\<lambda>info.
     andThen (gets core_name) (\<lambda>name.
     andThen (lift (mk_message PUTU name info)) (\<lambda>m.
     andThen (sign_message C m) (\<lambda>m.
     send_encoded connection m))))"

definition sendMessage :: "crypto \<Rightarrow> 'a core_scheme list \<Rightarrow> pyval \<Rightarrow> message \<Rightarrow> ('a, unit) op" where
  "sendMessage C turns user m =
     andThen (has_user user) (\<lambda>known.
     andThen (if known then ret () else requestUserInfo C turns user) (\<lambda>_.
     andThen (core_getConnectionInfo user) (\<lambda>info.
     andThen (lift (getitem info ''host'')) (\<lambda>host.
     andThen (lift (getitem info ''port'')) (\<lambda>port.
     andThen (sign_message C m) (\<lambda>m.
     andThen (lift (encode_message m)) (send_to host port)))))))"

section \<open>Registration\<close>

definition get_registration_data :: "('a, pyval) op" where
  "get_registration_data s = (bindE (getPublicKey (userDB s) (PStr (core_name s))) (\<lambda>pub.
     bindE (decode_latin1 pub) (\<lambda>pub'.
     Inr (PDict (dupdate [(str ''user'', PStr (core_name s)), (str ''pub'', pub')]
       (get_connection_info (conn s)))))), s)"

definition sendRegistration :: "pyval \<Rightarrow> pyval \<Rightarrow> ('a, unit) op" where
  "sendRegistration host port =
     andThen (gets core_name) (\<lambda>name.
     andThen get_registration_data (\<lambda>data.
     andThen (lift (mk_message RGST name data)) (\<lambda>m.
     andThen (lift (encode_message m)) (send_to host port))))"

definition register_with_root_server :: "('a, unit) op" where
  "register_with_root_server = swallow (
     andThen (gets root_config) (\<lambda>root.
     andThen (lift (getitem root ''host'')) (\<lambda>root_host.
     andThen (lift (getitem root ''port'')) (\<lambda>root_port.
     andThen (gets config) (\<lambda>cfg.
     andThen (lift (getitem cfg ''host'')) (\<lambda>host.
     if py_eq host root_host then
       andThen (lift (getitem cfg ''port'')) (\<lambda>port.
         if py_eq port root_port then ret () else sendRegistration root_host root_port)
     else sendRegistration root_host root_port))))))"

text \<open>
  The constructor: configuration, signing key (drawn by the library: an argument), connection,
  the host's own database entry, registration. \<open>route\<close> is the network.
\<close>

definition core_init ::
  "crypto \<Rightarrow> dict \<Rightarrow> pystr \<Rightarrow> bytes \<Rightarrow> bool \<Rightarrow> (pyval \<Rightarrow> pyval \<Rightarrow> pyexn option) \<Rightarrow> core res" where
  "core_init C base_config name key allow route =
     bindE (load_server_config base_config (PStr name)) (\<lambda>cfg.
     bindE (case cfg of PDict d \<Rightarrow> Inr (dict_get d ''root'') | _ \<Rightarrow> Inl AttributeError) (\<lambda>root.
     bindE (load_server_config base_config root) (\<lambda>root_cfg.
     bindE (getitem cfg ''host'') (\<lambda>host.
     bindE (getitem cfg ''port'') (\<lambda>port.
     let c = \<lparr>conn_name = name, conn_host = host, conn_port = port, message_queue = [],
           conn_route = route, conn_sent = []\<rparr>;
         s = \<lparr>core_name = name, config = cfg, root_config = root_cfg, signer_key = key,
           allow_invalid = allow, conn = c,
           userDB = addUser (PStr name) ((str ''pub'', PBytes (get_pub C key)) # get_connection_info c) [],
           qubit_history = (\<lambda>_. []), control_message_queue = (\<lambda>_. [])\<rparr>
     in Inr (snd (register_with_root_server s)))))))"

section \<open>Inbound messages\<close>

definition add_one_info :: "pyval \<Rightarrow> ('a, unit) op" where
  "add_one_info info =
     andThen (lift (pop_key info ''user'')) (\<lambda>(user_name, rest).
     andThen (has_user user_name) (\<lambda>known.
     if known then ret ()
     else (case rest of
         PDict d \<Rightarrow> if str ''self'' \<in> set (dkeys d) then throw TypeError else db_add user_name d
       | _ \<Rightarrow> throw TypeError)))"

definition addUserInfo :: "pyval \<Rightarrow> dict \<Rightarrow> ('a, unit) op" where
  "addUserInfo user kwargs =
     (if py_eq user (PStr (str ''*'')) then
        andThen (lift (bindE (dget kwargs (str ''info'')) iterate)) (for_each add_one_info)
      else db_add user kwargs)"

text \<open>The three handlers behind \<open>_pass_message_data\<close>.\<close>

definition pass_sendUserInfo :: "crypto \<Rightarrow> message \<Rightarrow> ('a, unit) op" where
  "pass_sendUserInfo C m = andThen (lift (call_kwargs [''user'', ''connection''] (msg_data m))) (\<lambda>d.
     sendUserInfo C (dict_get d ''user'') (dict_get d ''connection''))"

definition pass_addUserInfo :: "message \<Rightarrow> ('a, unit) op" where
  "pass_addUserInfo m = andThen (lift (call_var_kwargs ''user'' (msg_data m))) (\<lambda>(user, kwargs).
     addUserInfo user kwargs)"

definition store_control_message :: "message \<Rightarrow> ('a, unit) op" where
  "store_control_message m = modifies (\<lambda>s. s\<lparr>control_message_queue :=
     (control_message_queue s)(msg_sender m := control_message_queue s (msg_sender m) @ [m])\<rparr>)"

text \<open>\<open>proc_map.get(header, _store_control_message)\<close> applied to the message.\<close>

type_synonym 'a handlers = "msg_class \<Rightarrow> (message \<Rightarrow> ('a, unit) op) option"

definition dispatch :: "'a handlers \<Rightarrow> message \<Rightarrow> ('a, unit) op" where
  "dispatch proc_map m = (case proc_map (msg_class m) of
     Some handler \<Rightarrow> handler m
   | None \<Rightarrow> store_control_message m)"

definition process_message ::
  "crypto \<Rightarrow> 'a handlers \<Rightarrow> 'a core_scheme list \<Rightarrow> message \<Rightarrow> ('a, unit) op" where
  "process_message C proc_map turns m =
     (if msg_verify (msg_class m) then
        andThen (has_user (PStr (msg_sender m))) (\<lambda>known.
        andThen (if known then ret () else requestUserInfo C turns (PStr (msg_sender m))) (\<lambda>_.
        andThen (lift (strip_signature m)) (\<lambda>(m', signature).
        andThen (gets allow_invalid) (\<lambda>allow.
        andThen (if allow then ret () else verify_message C m' signature) (\<lambda>_.
        dispatch proc_map m')))))
      else if msg_strip (msg_class m) then
        andThen (lift (strip_signature m)) (\<lambda>(m', _). dispatch proc_map m')
      else dispatch proc_map m)"

text \<open>One turn of the reading thread: the message that a new handler thread is started with.\<close>

definition read_from_connection :: "('a, message option) op" where
  "read_from_connection s = (case recv_message (conn s) of
     Inl e \<Rightarrow> (Inl e, s)
   | Inr (m, c) \<Rightarrow> (Inr m, s\<lparr>conn := c\<rparr>))"

section \<open>Signed messages\<close>

text \<open>Whether the signature on a message verifies under the key that the database holds for its sender.\<close>

definition authentic :: "crypto \<Rightarrow> userdb \<Rightarrow> message \<Rightarrow> bool" where
  "authentic C db m =
     (case bindE (strip_signature m) (\<lambda>(m', signature).
        bindE (encode_message m') (\<lambda>data.
        bindE (getPublicKey db (PStr (msg_sender m'))) (\<lambda>pub. verify C pub data signature))) of
      Inl _ \<Rightarrow> False | Inr ok \<Rightarrow> ok)"

text \<open>The message without its signature, as the handlers see it.\<close>

definition stripped :: "message \<Rightarrow> message" where
  "stripped m = (case strip_signature m of Inl _ \<Rightarrow> m | Inr (m', _) \<Rightarrow> m')"

lemma authentic_strip: "authentic C db m \<Longrightarrow> \<exists>sg. strip_signature m = Inr (stripped m, sg)"
  by (cases "strip_signature m") (auto simp: authentic_def stripped_def)

lemma verify_authentic:
  assumes "strip_signature m = Inr (m', sg)"
  shows "authentic C (userDB s) m \<longleftrightarrow> fst (verify_message C m' sg s) = Inr ()"
    and "snd (verify_message C m' sg s) = s"
  using assms
  by (auto simp: authentic_def verify_message_def bindE_def split: sum.splits)

text \<open>The lookup of an unknown sender that precedes verification.\<close>

definition know_sender :: "crypto \<Rightarrow> 'a core_scheme list \<Rightarrow> message \<Rightarrow> ('a, unit) op" where
  "know_sender C turns m = andThen (has_user (PStr (msg_sender m))) (\<lambda>known.
     if known then ret () else requestUserInfo C turns (PStr (msg_sender m)))"

lemma process_verified:
  assumes "msg_verify (msg_class m)"
  shows "process_message C proc_map turns m =
    andThen (know_sender C turns m) (\<lambda>_.
    andThen (lift (strip_signature m)) (\<lambda>(m', signature).
    andThen (gets allow_invalid) (\<lambda>allow.
    andThen (if allow then ret () else verify_message C m' signature) (\<lambda>_.
    dispatch proc_map m'))))"
  using assms by (simp add: process_message_def know_sender_def andThen_assoc)

text \<open>
  C11. The authentication gate: for a message class that must be verified, the handler runs
  exactly when the signature verifies under the key that the database holds for the sender (after
  the lookup of an unknown one). Otherwise the handler thread ends with an exception in the state
  that the lookup left, whatever the handlers are.
\<close>

theorem authentication_gate:
  assumes "msg_verify (msg_class m)" "know_sender C turns m s = (r, s1)" "\<not> allow_invalid s1"
  shows "\<exists>e. process_message C proc_map turns m s =
    (case r of Inl e' \<Rightarrow> (Inl e', s1)
     | Inr _ \<Rightarrow> if authentic C (userDB s1) m then dispatch proc_map (stripped m) s1 else (Inl e, s1))"
proof (cases r)
  case Inl
  with assms(2) show ?thesis by (simp add: process_verified [OF assms(1)] step_simps)
next
  case (Inr u)
  show ?thesis
  proof (cases "strip_signature m")
    case (Inl e)
    then have "\<not> authentic C (userDB s1) m" by (simp add: authentic_def)
    with Inr Inl assms(2) show ?thesis
      by (simp add: process_verified [OF assms(1)] step_simps)
  next
    case sg: (Inr p)
    obtain m' sg where p: "p = (m', sg)" by (cases p)
    note v = verify_authentic [of m m' sg, OF sg [unfolded p]]
    have "stripped m = m'" using sg p by (simp add: stripped_def)
    with Inr sg p assms(2,3) v [of C s1] show ?thesis
      by (cases "verify_message C m' sg s1"; cases "fst (verify_message C m' sg s1)")
        (auto simp: process_verified [OF assms(1)] step_simps)
  qed
qed

section \<open>A signed message end to end\<close>

definition with_sig :: "crypto \<Rightarrow> bytes \<Rightarrow> bytes \<Rightarrow> message \<Rightarrow> message" where
  "with_sig C key b m = (case msg_data m of
     PDict d \<Rightarrow> m\<lparr>msg_data := PDict (dset (str ''sig'') (PStr (latin1_decode (sign C key b))) d)\<rparr>
   | _ \<Rightarrow> m)"

lemma sign_message_dict:
  "msg_data m = PDict d \<Longrightarrow> encode_message m = Inr b \<Longrightarrow>
   sign_message C m s = (Inr (with_sig C (signer_key s) b m), s)"
  by (simp add: sign_message_def setitem_def with_sig_def)

lemma strip_with_sig:
  assumes "msg_data m = PDict d" "map_of d (str ''sig'') = None"
  shows "strip_signature (with_sig C key b m) = Inr (m, sign C key b)"
  using assms dpop_dset_fresh [OF assms(2)]
  by (simp add: strip_signature_def with_sig_def pop_key_def encode_latin1_def)

lemma with_sig_simps [simp]:
  "msg_class (with_sig C key b m) = msg_class m"
  "msg_sender (with_sig C key b m) = msg_sender m"
  by (simp_all add: with_sig_def split: pyval.split)

lemma has_user_PStr: "has_user (PStr n) s = (Inr (hasUser (userDB s) (PStr n)), s)"
  by (simp add: has_user_def step_simps)

lemma getPublicKey_known: "getPublicKey db u = Inr v \<Longrightarrow> hasUser db u"
  by (auto simp: getPublicKey_def get_field_def hasUser_def split: option.splits)

lemma signed_dispatch:
  assumes "signatures_ok C" "msg_verify (msg_class m)"
    and "msg_data m = PDict d" "map_of d (str ''sig'') = None" "encode_message m = Inr b"
    and "getPublicKey (userDB s) (PStr (msg_sender m)) = Inr (PBytes (get_pub C key))"
  shows "process_message C proc_map turns (with_sig C key b m) s = dispatch proc_map m s"
proof -
  let ?m = "with_sig C key b m"
  note strip = strip_with_sig [OF assms(3,4), of C key b]
  have known: "know_sender C turns ?m s = (Inr (), s)"
    using getPublicKey_known [OF assms(6)] by (simp add: know_sender_def has_user_PStr step_simps)
  have "verify_message C m (sign C key b) s = (Inr (), s)"
    using assms(5,6) verify_sign [OF assms(1), of key b] by (simp add: verify_message_def)
  with known strip show ?thesis
    using assms(2) by (simp add: process_verified step_simps)
qed

text \<open>The same when the database holds the key as text, as it was learnt from the wire.\<close>

lemma signed_dispatch_text:
  assumes "signatures_ok C" "import_text_ok C" "msg_verify (msg_class m)"
    and "msg_data m = PDict d" "map_of d (str ''sig'') = None" "encode_message m = Inr b"
    and "getPublicKey (userDB s) (PStr (msg_sender m)) = Inr (PStr (latin1_decode (get_pub C key)))"
  shows "process_message C proc_map turns (with_sig C key b m) s = dispatch proc_map m s"
proof -
  have known: "know_sender C turns (with_sig C key b m) s = (Inr (), s)"
    using getPublicKey_known [OF assms(7)] by (simp add: know_sender_def has_user_PStr step_simps)
  have "verify_message C m (sign C key b) s = (Inr (), s)"
    using assms(6,7) verify_sign_text [OF assms(1,2), of key b] by (simp add: verify_message_def)
  with known strip_with_sig [OF assms(4,5), of C key b] show ?thesis
    using assms(3) by (simp add: process_verified step_simps)
qed

text \<open>A host that can verify what a user signs: it holds the key in either form.\<close>

definition holds_key :: "crypto \<Rightarrow> userdb \<Rightarrow> pystr \<Rightarrow> bytes \<Rightarrow> bool" where
  "holds_key C db u key \<longleftrightarrow> getPublicKey db (PStr u) = Inr (PBytes (get_pub C key))
     \<or> import_text_ok C \<and> getPublicKey db (PStr u) = Inr (PStr (latin1_decode (get_pub C key)))"

lemma signed_dispatch_held:
  assumes "signatures_ok C" "msg_verify (msg_class m)" "msg_data m = PDict d" "map_of d (str ''sig'') = None"
    and "encode_message m = Inr b" "holds_key C (userDB s) (msg_sender m) key"
  shows "process_message C proc_map turns (with_sig C key b m) s = dispatch proc_map m s"
  using assms(6) signed_dispatch [OF assms(1-5)] signed_dispatch_text [OF assms(1) _ assms(2-5)]
  unfolding holds_key_def by blast

text \<open>A frame that arrives at an idle host is the next message that the host takes.\<close>

lemma frame_taken:
  assumes "sendable m" "encode_message m = Inr frame" "message_queue (conn s) = []" "whole_fields f"
  shows "read_from_connection (s\<lparr>conn := snd (handle_connection \<lparr>pending = frame, sched = f\<rparr> (conn s))\<rparr>) = (Inr (Some m), s)"
  using read_frame [OF assms(1,2), of "\<lparr>pending = frame, sched = f\<rparr>" "[]"] assms(3,4)
  by (simp add: handle_connection_def read_from_connection_def recv_message_def append_message_to_queue_def
      pop_message_from_queue_def)

text \<open>
  C15. End to end: a message that a host signs and frames, arriving over any fragmentation of the
  payload at a host that holds the signer's public key and has nothing else queued, is taken
  from the queue, verified, and handed to its handler exactly as it was before signing.
\<close>

theorem signed_delivery:
  assumes "signatures_ok C" "msg_verify (msg_class m)"
    and "sendable m" "msg_data m = PDict d" "map_of d (str ''sig'') = None"
    and "sign_message C m a = (Inr m1, a)" "sendable m1" "encode_message m1 = Inr b"
    and "getPublicKey (userDB s) (PStr (msg_sender m)) = Inr (PBytes (get_pub C (signer_key a)))"
    and "message_queue (conn s) = []" "whole_fields f"
  defines "s1 \<equiv> s\<lparr>conn := snd (handle_connection \<lparr>pending = b, sched = f\<rparr> (conn s))\<rparr>"
  shows "read_from_connection s1 = (Inr (Some m1), s) \<and>
    process_message C proc_map turns m1 s = dispatch proc_map m s"
proof
  show "read_from_connection s1 = (Inr (Some m1), s)"
    unfolding s1_def by (rule frame_taken [OF assms(7,8,10,11)])
  obtain b0 where b0: "encode_message m = Inr b0"
    using encode_message_shape [of m] assms(3) by (auto simp: sendable_def)
  then have m1: "m1 = with_sig C (signer_key a) b0 m"
    using assms(6) sign_message_dict [OF assms(4) b0, of C a] by simp
  show "process_message C proc_map turns m1 s = dispatch proc_map m s"
    unfolding m1 by (rule signed_dispatch [OF assms(1,2,4,5) b0 assms(9)])
qed

section \<open>Keys that arrive in a PUTU message\<close>

lemma not_star: "u \<noteq> str ''*'' \<Longrightarrow> \<not> py_eq (PStr u) (PStr (str ''*''))"
  by (simp add: py_eq_def int_of_val_def)

lemma map_of_delete: "k' \<noteq> k \<Longrightarrow> map_of (AList.delete k d) k' = map_of d k'"
  by (simp add: delete_conv')

text \<open>What the handler of a \<open>PUTU\<close> message for one user does.\<close>

lemma putu_effect:
  assumes "wf_dict d" "map_of d (str ''user'') = Some (PStr u)" "u \<noteq> str ''*''"
    and "map_of d (str ''sig'') = Some (PStr g)" "latin1_encode g = Inr gb"
    and "map_of d (str ''self'') = None"
    and "proc_map PUTU = Some pass_addUserInfo"
    and "msg_class m = PUTU" "msg_data m = PDict d"
  defines "kw \<equiv> AList.delete (str ''user'') (AList.delete (str ''sig'') d)"
  shows "process_message C proc_map turns m s =
    (Inr (), s\<lparr>userDB := addUser (PStr u) kw (userDB s)\<rparr>)"
proof -
  have "strip_signature m = Inr (m\<lparr>msg_data := PDict (AList.delete (str ''sig'') d)\<rparr>, gb)"
    using assms by (simp add: strip_signature_def pop_key_def dpop_def encode_latin1_def)
  moreover have "str ''self'' \<notin> set (dkeys (AList.delete (str ''sig'') d))"
    using assms(6) by (auto simp: dkeys_def delete_keys map_of_eq_None_iff)
  then have "call_var_kwargs ''user'' (PDict (AList.delete (str ''sig'') d)) = Inr (PStr u, kw)"
    using assms(2) by (simp add: call_var_kwargs_def dpop_def map_of_delete kw_def)
  ultimately show ?thesis
    using assms(3,7,8)
    by (simp add: process_message_def msg_verify_def msg_strip_def step_simps dispatch_def
        pass_addUserInfo_def addUserInfo_def not_star db_add_def)
qed

lemma putu_key:
  assumes "wf_dict d" "map_of d (str ''pub'') = Some v"
  defines "kw \<equiv> AList.delete (str ''user'') (AList.delete (str ''sig'') d)"
  shows "getPublicKey (addUser k kw db) k = Inr v"
proof -
  have wf: "wf_dict kw" and v: "map_of kw (str ''pub'') = Some v"
    using assms by (simp_all add: kw_def map_of_delete)
  have "map_of (dupdate i kw) (str ''pub'') = Some v" for i
    using v by (simp add: map_of_dupdate [OF wf])
  moreover from this have "dupdate i kw \<noteq> []" for i by (metis map_of.simps(1) option.distinct(1))
  ultimately show ?thesis
    by (simp add: getPublicKey_def get_field_def users.lookup_add dict_get_def)
qed

text \<open>
  C31. A \<open>PUTU\<close> message is not verified, so it replaces the key of a user who is known already:
  after one \<open>PUTU\<close> that names a victim and the attacker's public key, whoever sent it and
  whatever its signature, the host accepts messages that the attacker signs in the victim's name.
\<close>

theorem putu_takeover:
  assumes "signatures_ok C" "import_text_ok C"
    and "proc_map PUTU = Some pass_addUserInfo" "msg_class p = PUTU" "msg_data p = PDict d" "wf_dict d"
    and "map_of d (str ''user'') = Some (PStr victim)" "victim \<noteq> str ''*''"
    and "map_of d (str ''pub'') = Some (PStr (latin1_decode (get_pub C key)))"
    and "map_of d (str ''sig'') = Some (PStr g)" "latin1_encode g = Inr gb" "map_of d (str ''self'') = None"
    and "msg_verify (msg_class m)" "msg_sender m = victim" "msg_data m = PDict e"
    and "map_of e (str ''sig'') = None" "encode_message m = Inr b"
  shows "\<exists>s'. process_message C proc_map turns p s = (Inr (), s') \<and>
    process_message C proc_map turns' (with_sig C key b m) s' = dispatch proc_map m s'"
proof -
  define s' where "s' = s\<lparr>userDB := addUser (PStr victim)
    (AList.delete (str ''user'') (AList.delete (str ''sig'') d)) (userDB s)\<rparr>"
  have 1: "process_message C proc_map turns p s = (Inr (), s')"
    using putu_effect [of d victim g gb proc_map p C turns s] assms by (simp add: s'_def)
  have key: "getPublicKey (userDB s') (PStr victim) = Inr (PStr (latin1_decode (get_pub C key)))"
    using putu_key [OF assms(6,9)] by (simp add: s'_def)
  have "process_message C proc_map turns' (with_sig C key b m) s' = dispatch proc_map m s'"
    by (rule signed_dispatch_text [OF assms(1,2,13,15,16,17)]) (simp add: assms(14) key)
  with 1 show ?thesis by blast
qed

text \<open>
  A record learnt from a \<open>PUTU\<close> message holds the key as text, and the host cannot pass it
  on: answering a request for that user raises \<open>AttributeError\<close> and sends nothing.
\<close>

theorem putu_record_not_served:
  assumes "proc_map PUTU = Some pass_addUserInfo" "msg_class p = PUTU" "msg_data p = PDict d" "wf_dict d"
    and "map_of d (str ''user'') = Some (PStr u)" "u \<noteq> str ''*''"
    and "map_of d (str ''pub'') = Some (PStr k)"
    and "map_of d (str ''sig'') = Some (PStr g)" "latin1_encode g = Inr gb" "map_of d (str ''self'') = None"
  shows "\<exists>s'. process_message C proc_map turns p s = (Inr (), s') \<and>
    sendUserInfo C (PStr u) target s' = (Inl AttributeError, s')"
proof -
  define s' where "s' = s\<lparr>userDB := addUser (PStr u)
    (AList.delete (str ''user'') (AList.delete (str ''sig'') d)) (userDB s)\<rparr>"
  have 1: "process_message C proc_map turns p s = (Inr (), s')"
    using putu_effect [of d u g gb proc_map p C turns s] assms by (simp add: s'_def)
  have key: "getPublicKey (userDB s') (PStr u) = Inr (PStr k)"
    using putu_key [OF assms(4,7)] by (simp add: s'_def)
  then have "\<exists>c. getConnectionInfo (userDB s') (PStr u) = Inr c"
    by (auto simp: getter_defs split: option.splits if_splits)
  with key have "getPublicInfo (PStr u) s' = (Inl AttributeError, s')"
    using assms(6) by (auto simp: getPublicInfo_def getPublicUserInfo_def public_record_def decode_latin1_def)
  then have "sendUserInfo C (PStr u) target s' = (Inl AttributeError, s')"
    by (simp add: sendUserInfo_def step_simps)
  with 1 show ?thesis by blast
qed

section \<open>Bulk information\<close>

lemma db_add_keeps:
  "v \<noteq> k \<Longrightarrow> db_key u = Inr k \<Longrightarrow>
   get_user (userDB (snd (db_add u kw s))) v = get_user (userDB s) v"
  by (simp add: db_add_def step_simps users.add_other)

lemma keeps_add_one_info: "keeps (\<lambda>s. get_user (userDB s) v = Some i) (add_one_info info)"
proof (rule keepsI)
  fix s :: "'a core_scheme"
  assume known: "get_user (userDB s) v = Some i"
  show "get_user (userDB (snd (add_one_info info s))) v = Some i"
  proof (cases "pop_key info ''user''")
    case (Inr p)
    obtain u rest where p: "p = (u, rest)" by (cases p)
    show ?thesis
    proof (cases "db_key u")
      case (Inl e)
      then show ?thesis using known Inr p by (simp add: add_one_info_def has_user_def step_simps)
    next
      case k: (Inr k)
      show ?thesis
      proof (cases "hasUser (userDB s) k")
        case True
        then show ?thesis using known Inr p k by (simp add: add_one_info_def has_user_def step_simps)
      next
        case False
        then have "v \<noteq> k" using known by (auto simp: hasUser_def)
        then show ?thesis using False known Inr p k
          by (simp add: add_one_info_def has_user_def step_simps db_add_keeps split: pyval.split)
      qed
    qed
  qed (use known in \<open>simp add: add_one_info_def step_simps\<close>)
qed

text \<open>
  Bulk information never changes a user who is known: whatever a \<open>PUTU\<close> for all users
  carries, and even when its processing stops with an exception, every record that the database
  held is still there, unchanged.
\<close>

theorem bulk_keeps_known:
  fixes s :: "'a core_scheme"
  assumes "get_user (userDB s) v = Some i"
  shows "get_user (userDB (snd (addUserInfo (PStr (str ''*'')) kwargs s))) v = Some i"
proof -
  have "keeps (\<lambda>s :: 'a core_scheme. get_user (userDB s) v = Some i) (addUserInfo (PStr (str ''*'')) kwargs)"
    by (simp add: addUserInfo_def) (intro keeps_rules keeps_add_one_info)
  then show ?thesis using assms by (simp add: keeps_def)
qed

section \<open>Waiting and registering\<close>

text \<open>
  A request for a user's information comes back without exception, when its message could be
  sent, exactly when the user is in one of the states that the host goes through before the
  deadline, and then in the first such state; otherwise it raises.
\<close>

theorem await_first_known:
  "await_user (PStr u) turns s =
    (case List.find (\<lambda>t. hasUser (userDB t) (PStr u)) (s # turns) of
       Some t \<Rightarrow> (Inr (), t)
     | None \<Rightarrow> (Inl (PyException ''Failed to get info from registry''), last (s # turns)))"
  by (induction turns arbitrary: s)
    (simp_all add: has_user_PStr split: option.split)

declare await_user.simps [simp del]

text \<open>What a step sends: nothing, or one frame of a class to an address; nothing else changes.\<close>

definition sends :: "msg_class \<Rightarrow> pyval \<Rightarrow> pyval \<Rightarrow> 'a core_scheme \<Rightarrow> 'a core_scheme \<Rightarrow> bool" where
  "sends cl host port s s' \<longleftrightarrow> s' = s \<or> (\<exists>b. take 4 b = header cl \<and>
     s' = s\<lparr>conn := (conn s)\<lparr>conn_sent := conn_sent (conn s) @ [(host, port, b)]\<rparr>\<rparr>)"

lemma sends_refl [simp]: "sends cl host port s s"
  by (simp add: sends_def)

lemma encode_message_header: "encode_message m = Inr b \<Longrightarrow> take 4 b = header (msg_class m)"
  by (auto simp: encode_message_def bindE_eq_Inr)

lemma sends_send_to:
  "encode_message m = Inr b \<Longrightarrow> sends (msg_class m) host port s (snd (send_to host port b s))"
  using encode_message_header [of m b]
  by (cases "conn_route (conn s) host port") (auto simp: sends_def send_to_def send_message_def)

lemma sends_encoded:
  "sends (msg_class m) host port s (snd (andThen (lift (encode_message m)) (send_to host port) s))"
  by (cases "encode_message m") (simp_all add: andThen_lift sends_send_to)

lemma sends_registration: "sends RGST host port s (snd (sendRegistration host port s))"
proof (cases "fst (get_registration_data s)")
  case (Inl e)
  then have "get_registration_data s = (Inl e, s)" by (simp add: get_registration_data_def)
  then show ?thesis by (simp add: sendRegistration_def step_simps)
next
  case (Inr data)
  then have data: "get_registration_data s = (Inr data, s)" by (simp add: get_registration_data_def)
  show ?thesis
  proof (cases "mk_message RGST (core_name s) data")
    case (Inl e)
    with data show ?thesis by (simp add: sendRegistration_def step_simps)
  next
    case (Inr m)
    then have "msg_class m = RGST" by (simp add: mk_message_Inr)
    with data Inr sends_encoded [of m host port s] show ?thesis
      by (simp add: sendRegistration_def step_simps)
  qed
qed

lemma registration_sends:
  "\<exists>host port. fst (register_with_root_server s) = Inr ()
    \<and> sends RGST host port s (snd (register_with_root_server s))
    \<and> (snd (register_with_root_server s) = s \<or>
       getitem (root_config s) ''host'' = Inr host \<and> getitem (root_config s) ''port'' = Inr port)"
proof (cases "getitem (root_config s) ''host''")
  case (Inl e)
  then show ?thesis by (simp add: register_with_root_server_def swallow_def step_simps)
next
  case host: (Inr host)
  show ?thesis
  proof (cases "getitem (root_config s) ''port''")
    case (Inl e)
    with host show ?thesis by (simp add: register_with_root_server_def swallow_def step_simps)
  next
    case port: (Inr port)
    have "fst (register_with_root_server s) = Inr ()"
      by (simp add: register_with_root_server_def swallow_def)
    moreover have "sends RGST host port s (snd (register_with_root_server s))"
      using host port sends_registration [of host port s]
      by (cases "getitem (config s) ''host''"; cases "getitem (config s) ''port''")
        (simp_all add: register_with_root_server_def swallow_def step_simps)
    ultimately show ?thesis using host port by blast
  qed
qed

text \<open>
  Registration never raises, and sends at most one frame, to the root server's address: a
  registration of this host under its own name. Nothing else of the host's state changes.
\<close>

theorem registration_effect:
  "\<exists>host port. fst (register_with_root_server s) = Inr ()
    \<and> sends RGST host port s (snd (register_with_root_server s))
    \<and> (snd (register_with_root_server s) = s \<or>
       getitem (root_config s) ''host'' = Inr host \<and> getitem (root_config s) ''port'' = Inr port)"
  by (rule registration_sends)

section \<open>Instances\<close>

definition demo_ack :: message where
  "demo_ack = \<lparr>msg_class = BB84, msg_sender = str ''Alice'', msg_data = PDict [(str ''ack'', PBool True)]\<rparr>"

definition demo_ack_frame :: bytes where
  "demo_ack_frame = lit ''BB84'' @ replicate 11 0 @ lit ''Alice'' @ [0, 0, 0, 13] @
     map (\<lambda>b. if b = 42 then 34 else b) (lit ''{*ack*: true}'')"

definition demo_signed :: message where
  "demo_signed = demo_ack\<lparr>msg_data := PDict [(str ''ack'', PBool True), (str ''sig'', PStr (str ''k%''))]\<rparr>"

definition demo_signed_frame :: bytes where
  "demo_signed_frame = lit ''BB84'' @ replicate 11 0 @ lit ''Alice'' @ [0, 0, 0, 26] @
     map (\<lambda>b. if b = 42 then 34 else b) (lit ''{*ack*: true, *sig*: *k%*}'')"

definition demo_core :: "string \<Rightarrow> userdb \<Rightarrow> core" where
  "demo_core n db = \<lparr>core_name = str n, config = PNone,
     root_config = PDict [(str ''host'', PStr (str ''root'')), (str ''port'', PInt 8004)],
     signer_key = lit ''k'', allow_invalid = False, conn = demo_connection\<lparr>message_queue := []\<rparr>,
     userDB = db, qubit_history = (\<lambda>_. []), control_message_queue = (\<lambda>_. [])\<rparr>"

definition demo_db :: userdb where
  "demo_db = [(PStr (str ''Alice''), [(str ''pub'', PBytes (lit ''k'')), (str ''connection'', PNone)])]"

lemma demo_ack_sendable: "sendable demo_ack" "encode_message demo_ack = Inr demo_ack_frame"
  by (simp_all add: demo_ack_def demo_ack_frame_def sendable_def wire_name_def payload_fits_def
      wf_dict_def dkeys_def wire_eval)

lemma demo_ack_facts:
  "msg_verify (msg_class demo_ack)" "msg_sender demo_ack = str ''Alice''"
  "msg_data demo_ack = PDict [(str ''ack'', PBool True)]"
  "map_of [(str ''ack'', PBool True)] (str ''sig'') = None"
  by (simp_all add: demo_ack_def msg_verify_def)

lemma demo_signed_sendable: "sendable demo_signed" "encode_message demo_signed = Inr demo_signed_frame"
  by (simp_all add: demo_ack_def demo_signed_def demo_signed_frame_def sendable_def wire_name_def payload_fits_def
      wf_dict_def dkeys_def wire_eval)

lemma demo_signing:
  "sign_message demo_crypto demo_ack (demo_core n db) = (Inr demo_signed, demo_core n db)"
proof -
  have "length demo_ack_frame = 37" by (simp add: demo_ack_frame_def)
  then show ?thesis
    using demo_ack_sendable(2)
    by (simp add: sign_message_def setitem_def demo_core_def sign_def demo_crypto_def latin1_decode_def
        str_def lit_def demo_signed_def) (simp add: demo_ack_def str_def dset_def)
qed

lemma demo_known: "getPublicKey demo_db (PStr (str ''Alice'')) = Inr (PBytes (lit ''k''))"
  by (simp add: demo_db_def getPublicKey_def get_field_def get_user_def dict_get_def)

theorem signed_delivery_witness:
  "process_message demo_crypto (\<lambda>_. None) [] demo_signed (demo_core ''Bob'' demo_db)
    = store_control_message demo_ack (demo_core ''Bob'' demo_db)"
proof -
  have "process_message demo_crypto (\<lambda>_. None) [] demo_signed (demo_core ''Bob'' demo_db)
    = dispatch (\<lambda>_. None) demo_ack (demo_core ''Bob'' demo_db)"
    by (rule signed_delivery [OF demo_crypto_ok(1) demo_ack_facts(1) demo_ack_sendable(1) demo_ack_facts(3,4)
            demo_signing [of "''Alice''" "[]"] demo_signed_sendable,
          where f = "[]", THEN conjunct2])
      (use demo_known in \<open>simp_all add: demo_ack_facts demo_core_def get_pub_def demo_crypto_def [THEN arg_cong, of rsa_export] whole_fields_def\<close>)
  then show ?thesis by (simp add: dispatch_def)
qed

theorem authentication_gate_witness:
  "\<exists>e. process_message demo_crypto (\<lambda>_. None) [] demo_ack (demo_core ''Bob'' demo_db)
    = (Inl e, demo_core ''Bob'' demo_db)"
proof -
  have "know_sender demo_crypto [] demo_ack (demo_core ''Bob'' demo_db) = (Inr (), demo_core ''Bob'' demo_db)"
    using getPublicKey_known [OF demo_known]
    by (simp add: know_sender_def has_user_PStr demo_ack_def demo_core_def step_simps)
  moreover have "strip_signature demo_ack = Inl KeyError"
    by (simp add: strip_signature_def pop_key_def dpop_def demo_ack_def)
  then have "\<not> authentic demo_crypto (userDB (demo_core ''Bob'' demo_db)) demo_ack"
    by (simp add: authentic_def)
  ultimately show ?thesis
    using authentication_gate [of demo_ack demo_crypto "[]" "demo_core ''Bob'' demo_db" "Inr ()"
        "demo_core ''Bob'' demo_db" "\<lambda>_. None"]
    by (simp add: demo_ack_def [THEN arg_cong, of msg_class] msg_verify_def demo_core_def [THEN arg_cong, of allow_invalid])
qed

definition demo_putu :: dict where
  "demo_putu = [(str ''connection'', PNone), (str ''pub'', PStr (latin1_decode (lit ''k''))),
     (str ''user'', PStr (str ''Alice'')), (str ''sig'', PStr [])]"

definition demo_old_db :: userdb where
  "demo_old_db = [(PStr (str ''Alice''), [(str ''pub'', PBytes (lit ''another''))])]"

definition demo_putu_message :: message where
  "demo_putu_message = \<lparr>msg_class = PUTU, msg_sender = str ''Eve'', msg_data = PDict demo_putu\<rparr>"

lemma demo_putu_facts:
  "wf_dict demo_putu" "map_of demo_putu (str ''user'') = Some (PStr (str ''Alice''))"
  "map_of demo_putu (str ''pub'') = Some (PStr (latin1_decode (get_pub demo_crypto (lit ''k''))))"
  "map_of demo_putu (str ''sig'') = Some (PStr [])" "latin1_encode [] = Inr []"
  "map_of demo_putu (str ''self'') = None"
  "msg_class demo_putu_message = PUTU" "msg_data demo_putu_message = PDict demo_putu"
  by (simp_all add: demo_putu_def demo_putu_message_def wf_dict_def dkeys_def latin1_encode_def
      get_pub_def demo_crypto_def)

theorem putu_takeover_witness:
  "\<exists>s'. process_message demo_crypto [PUTU \<mapsto> pass_addUserInfo] [] demo_putu_message
      (demo_core ''Bob'' demo_old_db) = (Inr (), s') \<and>
    process_message demo_crypto [PUTU \<mapsto> pass_addUserInfo] [] (with_sig demo_crypto (lit ''k'') demo_ack_frame demo_ack) s'
    = dispatch [PUTU \<mapsto> pass_addUserInfo] demo_ack s'"
  by (rule putu_takeover [OF demo_crypto_ok(1,2) _ demo_putu_facts(7,8,1,2) _ demo_putu_facts(3-6)
        demo_ack_facts demo_ack_sendable(2)]) simp_all

theorem putu_record_not_served_witness:
  "\<exists>s'. process_message demo_crypto [PUTU \<mapsto> pass_addUserInfo] [] demo_putu_message
      (demo_core ''Bob'' demo_old_db) = (Inr (), s') \<and>
    sendUserInfo demo_crypto (PStr (str ''Alice'')) PNone s' = (Inl AttributeError, s')"
  by (rule putu_record_not_served [OF _ demo_putu_facts(7,8,1,2) _ demo_putu_facts(3-6)]) simp_all

theorem bulk_keeps_known_witness:
  "get_user (userDB (snd (addUserInfo (PStr (str ''*''))
      [(str ''info'', PList [PDict [(str ''user'', PStr (str ''Alice'')), (str ''pub'', PNone)], PNone])]
      (demo_core ''Bob'' demo_db)))) (PStr (str ''Alice'')) = Some (snd (hd demo_db))"
  by (rule bulk_keeps_known) (simp add: demo_core_def demo_db_def get_user_def)

end
