(* ===== verification/Core_Run.thy ===== *)
theory Core_Run
  imports Core
begin

text \<open>
  Hosts as state machines: an invariant is a predicate that every single update of the state keeps;
  the locale derives from that that every operation of the core does, and the processing of a
  message when its handler does.
\<close>

section \<open>Invariants of the core's operations\<close>

locale core_steps =
  fixes P :: "'a core_scheme \<Rightarrow> bool"
  assumes P_conn: "P s \<Longrightarrow> message_queue c = message_queue (conn s) \<Longrightarrow> P (s\<lparr>conn := c\<rparr>)"
    and P_add: "P s \<Longrightarrow> P (s\<lparr>userDB := addUser k kw (userDB s)\<rparr>)"
begin

lemma keeps_send_to [keeps_rules]: "keeps P (send_to host port b)"
  by (rule keepsI) (auto simp: send_to_def send_message_def intro!: P_conn split: option.split)

lemma keeps_encoded [keeps_rules]: "keeps P (send_encoded target m)"
  unfolding send_encoded_def by (intro keeps_rules)

lemma keeps_lookups [keeps_rules]:
  "keeps P (has_user user)" "keeps P (getPublicInfo user)" "keeps P (core_getConnectionInfo user)"
  "keeps P (sign_message C m)" "keeps P (verify_message C m sg)"
  by (simp_all add: keeps_def has_user_def getPublicInfo_def core_getConnectionInfo_def sign_message_def
      verify_message_def andThen_lift gets_def split: sum.split)

lemma keeps_await: "list_all P ts \<Longrightarrow> keeps P (await_user user ts)"
proof (rule keepsI)
  fix s
  show "list_all P ts \<Longrightarrow> P s \<Longrightarrow> P (snd (await_user user ts s))"
    by (induction ts arbitrary: s) (auto simp: await_user.simps split: sum.split)
qed

lemma keeps_request: "list_all P ts \<Longrightarrow> keeps P (requestUserInfo C ts user)"
  unfolding requestUserInfo_def by (intro keeps_rules keeps_await)

lemma keeps_send_info [keeps_rules]: "keeps P (sendUserInfo C user connection)"
  unfolding sendUserInfo_def by (intro keeps_rules)

lemma keeps_sendMessage: "list_all P ts \<Longrightarrow> keeps P (sendMessage C ts user m)"
  unfolding sendMessage_def by (intro keeps_rules keeps_request)

lemma keeps_db_add [keeps_rules]: "keeps P (db_add user kw)"
  unfolding db_add_def by (intro keeps_rules keeps_modifies P_add)

lemma keeps_add_info [keeps_rules]: "keeps P (addUserInfo user kw)"
  unfolding addUserInfo_def add_one_info_def
  by (intro keeps_rules) (auto split: prod.split pyval.split intro!: keeps_rules)

lemma keeps_passed [keeps_rules]:
  "keeps P (pass_sendUserInfo C m)" "keeps P (pass_addUserInfo m)"
  unfolding pass_sendUserInfo_def pass_addUserInfo_def
  by (auto split: prod.split intro!: keeps_rules)

lemma keeps_know_sender: "list_all P ts \<Longrightarrow> keeps P (know_sender C ts m)"
  unfolding know_sender_def by (intro keeps_rules keeps_request)

text \<open>
  A message of a verified class reaches its handler in a state where its signature is valid, unless
  the host was told to accept any; then what the handler keeps, the processing keeps.
\<close>

lemma process_keeps:
  assumes "P s" "list_all P ts"
    and "\<And>m'. m' = m \<or> m' = stripped m \<Longrightarrow>
      (msg_verify (msg_class m) \<Longrightarrow> m' = stripped m \<and>
        (allow_invalid (snd (know_sender C ts m s)) \<or> authentic C (userDB (snd (know_sender C ts m s))) m)) \<Longrightarrow>
      keeps P (dispatch proc_map m')"
  shows "P (snd (process_message C proc_map ts m s))"
proof (cases "msg_verify (msg_class m)")
  case False
  then have d: "keeps P (dispatch proc_map m)" "keeps P (dispatch proc_map (stripped m))" using assms(3) by blast+
  show ?thesis
  proof (cases "strip_signature m")
    case (Inl e)
    with False d(1) assms(1) show ?thesis by (simp add: process_message_def andThen_lift keeps_def)
  next
    case (Inr p)
    then have "stripped m = fst p" by (simp add: stripped_def split: prod.split)
    with Inr False d assms(1) show ?thesis
      by (cases p) (simp add: process_message_def andThen_lift keeps_def)
  qed
next
  case True
  obtain r s1 where k: "know_sender C ts m s = (r, s1)" by fastforce
  have P1: "P s1" using keepsD [OF keeps_know_sender [OF assms(2), of C m] assms(1)] by (simp add: k)
  show ?thesis
  proof (cases r)
    case Inl
    with k P1 show ?thesis by (simp add: process_verified [OF True] step_simps)
  next
    case (Inr u)
    show ?thesis
    proof (cases "strip_signature m")
      case (Inl e)
      with Inr k P1 show ?thesis by (simp add: process_verified [OF True] step_simps)
    next
      case sg: (Inr p)
      obtain m' sg where p: "p = (m', sg)" by (cases p)
      have m': "m' = stripped m" using sg p by (simp add: stripped_def)
      note v = verify_authentic [of m m' sg, OF sg [unfolded p], of C s1]
      have d: "P (snd (dispatch proc_map m' s1))" if "allow_invalid s1 \<or> authentic C (userDB s1) m"
        using assms(3) [of m'] that P1 by (simp add: m' k keeps_def)
      show ?thesis
        using Inr sg p k P1 v d
        by (cases "verify_message C m' sg s1"; cases "fst (verify_message C m' sg s1)"; cases "allow_invalid s1")
          (auto simp: process_verified [OF True] step_simps)
    qed
  qed
qed

end

section \<open>Taking a message\<close>

lemma queue_ok_read: "queue_ok (conn s) \<Longrightarrow> queue_ok (conn (snd (read_from_connection s)))"
  by (auto simp: read_from_connection_def recv_message_def pop_message_from_queue_def queue_ok_def
      split: list.split)

lemma read_state: "\<exists>c. snd (read_from_connection s) = s\<lparr>conn := c\<rparr>"
  by (cases "recv_message (conn s)") (auto simp: read_from_connection_def intro: exI [of _ "conn s"])

lemma list_all_both: "list_all (\<lambda>x. P x \<and> Q x) xs \<Longrightarrow> list_all Q xs"
  by (simp add: list_all_iff)

text \<open>The state of a new host.\<close>

lemma core_init_state:
  assumes "core_init C base name key allow route = Inr s"
  shows "message_queue (conn s) = [] \<and> allow_invalid s = allow \<and> qubit_history s = (\<lambda>_. [])
    \<and> control_message_queue s = (\<lambda>_. [])
    \<and> (\<exists>cn. userDB s = addUser (PStr name) ((str ''pub'', PBytes (get_pub C key)) # get_connection_info cn) [])"
proof -
  from assms obtain cfg root cn where r: "s = snd (register_with_root_server \<lparr>core_name = name, config = cfg,
      root_config = root, signer_key = key, allow_invalid = allow, conn = cn,
      userDB = addUser (PStr name) ((str ''pub'', PBytes (get_pub C key)) # get_connection_info cn) [],
      qubit_history = (\<lambda>_. []), control_message_queue = (\<lambda>_. [])\<rparr>)" (is "s = snd (register_with_root_server ?s)")
    and "message_queue cn = []"
    by (auto simp: core_init_def bindE_eq_Inr Let_def)
  moreover obtain host port where "sends RGST host port ?s s" using registration_sends [of ?s] r by blast
  ultimately show ?thesis by (auto simp: sends_def)
qed

end
