(* ===== verification/Server.thy ===== *)
theory Server
  imports Core
begin

text \<open>
  \<^verbatim>\<open>qchat/server.py\<close>: the registry. It registers users, answers requests for their public
  information and, for the purified BB84 protocol, is the source of the EPR pairs. The quantum
  network (the CQC library) is not part of the repository: its calls are arguments, and a qubit
  is the opaque handle that they pass around.
\<close>

section \<open>Registration\<close>

definition registerUser :: "pyval \<Rightarrow> pyval \<Rightarrow> pyval \<Rightarrow> ('a, unit) op" where
  "registerUser user connection pub =
     andThen (has_user user) (\<lambda>known.
     if known then throw (PyException ''User already registered'')
     else andThen (lift (encode_latin1 pub)) (\<lambda>key.
       addUserInfo user [(str ''pub'', PBytes key), (str ''connection'', connection)]))"

definition pass_registerUser :: "message \<Rightarrow> ('a, unit) op" where
  "pass_registerUser m =
     andThen (lift (call_kwargs [''user'', ''connection'', ''pub''] (msg_data m))) (\<lambda>d.
     registerUser (dict_get d ''user'') (dict_get d ''connection'') (dict_get d ''pub''))"

section \<open>Distribution of EPR pairs\<close>

record 'q cqc =
  createEPR :: "pyval \<Rightarrow> 'q res"
  sendQubit :: "'q \<Rightarrow> pyval \<Rightarrow> unit res"
  measure_qubit :: "'q \<Rightarrow> int res"
  new_qubit :: "'q res"

text \<open>
  \<open>p\<close> is the value of \<open>random.random()\<close> in units of \<open>2 ** -53\<close> (the library draws 53 random
  bits), an integer. The attack branch is kept as it is written.
\<close>

definition distribute_qubits :: "'q cqc \<Rightarrow> int \<Rightarrow> message \<Rightarrow> ('a, unit) op" where
  "distribute_qubits Q p m =
     andThen (lift (createEPR Q (PStr (msg_sender m)))) (\<lambda>q.
     andThen (lift (getitem (msg_data m) ''user'')) (\<lambda>peer.
     andThen (if p < 0 then
         andThen (lift (measure_qubit Q q)) (\<lambda>outcome.
         andThen (lift (db_key peer)) (\<lambda>k.
         andThen (modifies (\<lambda>s. s\<lparr>qubit_history :=
           (qubit_history s)(k := qubit_history s k @ [outcome])\<rparr>)) (\<lambda>_.
         lift (new_qubit Q))))
       else ret q) (\<lambda>q'.
     lift (sendQubit Q q' peer))))"

definition server_handlers :: "crypto \<Rightarrow> 'q cqc \<Rightarrow> int \<Rightarrow> 'a handlers" where
  "server_handlers C Q p = (\<lambda>c. case c of
     RGST \<Rightarrow> Some pass_registerUser
   | GETU \<Rightarrow> Some (pass_sendUserInfo C)
   | PUTU \<Rightarrow> Some pass_addUserInfo
   | RQQB \<Rightarrow> Some (distribute_qubits Q p)
   | _ \<Rightarrow> None)"

section \<open>Registering once\<close>

text \<open>
  The registry refuses to register a known user again: whatever the second registration
  says, the handler raises and the host's state is unchanged, so the first key stays.
\<close>

theorem reregistration_refused:
  assumes "msg_class m = RGST" "msg_data m = PDict d" "set (dkeys d) = {str ''user'', str ''connection'', str ''pub''}"
    and "map_of d (str ''user'') = Some (PStr u)" "hasUser (userDB s) (PStr u)"
  shows "process_message C (server_handlers C Q p) turns m s = (Inl (PyException ''User already registered''), s)"
proof -
  have "call_kwargs [''user'', ''connection'', ''pub''] (msg_data m) = Inr d"
    using assms(2,3) by (simp add: call_kwargs_def)
  moreover have "dict_get d ''user'' = PStr u" using assms(4) by (simp add: dict_get_def)
  ultimately show ?thesis
    using assms(1,5)
    by (simp add: process_message_def msg_verify_def msg_strip_def dispatch_def server_handlers_def
        pass_registerUser_def registerUser_def has_user_PStr step_simps)
qed

text \<open>The registration that a host sends, once it has its own entry in its database.\<close>

definition registers_as :: "'a core_scheme \<Rightarrow> bytes \<Rightarrow> bool" where
  "registers_as a key \<longleftrightarrow> getPublicKey (userDB a) (PStr (core_name a)) = Inr (PBytes key)"

lemma registration_data:
  assumes "registers_as a key"
  shows "get_registration_data a = (Inr (PDict [(str ''user'', PStr (core_name a)),
     (str ''pub'', PStr (latin1_decode key)),
     (str ''connection'', PDict [(str ''host'', conn_host (conn a)), (str ''port'', conn_port (conn a))])]), a)"
  using assms
  by (simp add: get_registration_data_def registers_as_def decode_latin1_def get_connection_info_def
      dupdate_def dset_def)

lemma core_init_registers:
  "core_init C base name key allow route = Inr a \<Longrightarrow> registers_as a (get_pub C key) \<and> core_name a = name"
proof -
  assume init: "core_init C base name key allow route = Inr a"
  then obtain c cfg root where a: "a = snd (register_with_root_server \<lparr>core_name = name, config = cfg,
      root_config = root, signer_key = key, allow_invalid = allow, conn = c,
      userDB = addUser (PStr name) ((str ''pub'', PBytes (get_pub C key)) # get_connection_info c) [],
      qubit_history = (\<lambda>_. []), control_message_queue = (\<lambda>_. [])\<rparr>)" (is "a = snd (register_with_root_server ?s)")
    by (auto simp: core_init_def bindE_eq_Inr Let_def)
  have "getPublicKey (userDB ?s) (PStr name) = Inr (PBytes (get_pub C key))"
    by (simp add: getPublicKey_def get_field_def addUser_def get_user_def dict_get_def
        get_connection_info_def dupdate_def dset_def)
  moreover obtain host port where "sends RGST host port ?s a"
    using registration_sends [of ?s] a by blast
  then have "userDB a = userDB ?s \<and> core_name a = name" by (auto simp: sends_def)
  ultimately show ?thesis by (simp add: registers_as_def)
qed

text \<open>
  C32. Registration and lookup fit together: after the registry has processed the registration of
  a host it did not know, the public information it serves for that host is the registration
  itself, with the key as bytes in the database and as the same text on the wire.
\<close>

theorem registration_served:
  assumes "core_init C base name key allow route = Inr a" "name \<noteq> str ''*''"
    and "get_registration_data a = (Inr data, a)"
    and "mk_message RGST name data = Inr m" "\<not> hasUser (userDB s) (PStr name)"
  shows "\<exists>s'. process_message C' (server_handlers C' Q p) turns m s = (Inr (), s')
    \<and> getPublicKey (userDB s') (PStr name) = Inr (PBytes (get_pub C key))
    \<and> getPublicUserInfo (userDB s') (PStr name) = Inr (PDict [
        (str ''connection'', PDict [(str ''host'', conn_host (conn a)), (str ''port'', conn_port (conn a))]),
        (str ''pub'', PStr (latin1_decode (get_pub C key))), (str ''user'', PStr name)])
    \<and> (\<forall>v. v \<noteq> PStr name \<longrightarrow> get_user (userDB s') v = get_user (userDB s) v)"
proof -
  from core_init_registers [OF assms(1)] have reg: "registers_as a (get_pub C key)" "core_name a = name"
    by simp_all
  define ci where "ci = PDict [(str ''host'', conn_host (conn a)), (str ''port'', conn_port (conn a))]"
  define kw where "kw = [(str ''pub'', PBytes (get_pub C key)), (str ''connection'', ci)]"
  define s' where "s' = s\<lparr>userDB := addUser (PStr name) kw (userDB s)\<rparr>"
  from registration_data [OF reg(1)] reg(2) assms(3,4) have m: "msg_class m = RGST" and
    d: "msg_data m = PDict [(str ''user'', PStr name), (str ''pub'', PStr (latin1_decode (get_pub C key))),
      (str ''connection'', ci)]"
    by (auto simp: mk_message_Inr unpack_message_data_def ci_def)
  have args: "call_kwargs [''user'', ''connection'', ''pub''] (msg_data m) = Inr [(str ''user'', PStr name),
      (str ''pub'', PStr (latin1_decode (get_pub C key))), (str ''connection'', ci)]"
    by (auto simp: d call_kwargs_def dkeys_def)
  have "process_message C' (server_handlers C' Q p) turns m s = (Inr (), s')"
    using m args assms(2,5)
    by (simp add: process_message_def msg_verify_def msg_strip_def dispatch_def server_handlers_def
        pass_registerUser_def registerUser_def has_user_PStr step_simps dict_get_def encode_latin1_def
        addUserInfo_def not_star db_add_def s'_def kw_def)
  moreover have info: "get_user (userDB s') (PStr name) = Some kw"
    using assms(5) by (simp add: s'_def users.lookup_add hasUser_def kw_def dupdate_def dset_def)
  then have "getPublicKey (userDB s') (PStr name) = Inr (PBytes (get_pub C key))"
    by (simp add: getPublicKey_def get_field_def dict_get_def kw_def)
  moreover have "getPublicUserInfo (userDB s') (PStr name) = Inr (PDict [(str ''connection'', ci),
      (str ''pub'', PStr (latin1_decode (get_pub C key))), (str ''user'', PStr name)])"
    using info assms(2)
    by (simp add: getPublicUserInfo_def public_record_def getter_defs dict_get_def kw_def decode_latin1_def)
  moreover have "\<forall>v. v \<noteq> PStr name \<longrightarrow> get_user (userDB s') v = get_user (userDB s) v"
    by (simp add: s'_def users.add_other)
  ultimately show ?thesis unfolding ci_def by blast
qed

section \<open>The EPR source\<close>

text \<open>
  The eavesdropping branch is dead: \<open>random.random()\<close> is never negative, so a distribution request sends the second
  half of the pair on to the named peer, measures nothing and records nothing.
\<close>

theorem distribution_is_honest:
  assumes "0 \<le> p"
  shows "distribute_qubits Q p m s =
    (bindE (createEPR Q (PStr (msg_sender m))) (\<lambda>q.
     bindE (getitem (msg_data m) ''user'') (\<lambda>peer. sendQubit Q q peer)), s)"
  using assms by (cases "createEPR Q (PStr (msg_sender m))"; cases "getitem (msg_data m) ''user''")
    (simp_all add: distribute_qubits_def step_simps)

section \<open>Instances\<close>

definition demo_base :: dict where
  "demo_base = [(str ''Alice'', PDict [(str ''host'', PStr (str ''localhost'')), (str ''port'', PInt 8000)])]"

definition demo_host :: core where
  "demo_host = \<lparr>core_name = str ''Alice'',
     config = PDict [(str ''host'', PStr (str ''localhost'')), (str ''port'', PInt 8000)], root_config = PNone,
     signer_key = lit ''k'', allow_invalid = False,
     conn = \<lparr>conn_name = str ''Alice'', conn_host = PStr (str ''localhost''), conn_port = PInt 8000,
       message_queue = [], conn_route = (\<lambda>_ _. None), conn_sent = []\<rparr>,
     userDB = [(PStr (str ''Alice''), [(str ''pub'', PBytes (lit ''k'')), (str ''connection'',
       PDict [(str ''host'', PStr (str ''localhost'')), (str ''port'', PInt 8000)])])],
     qubit_history = (\<lambda>_. []), control_message_queue = (\<lambda>_. [])\<rparr>"

definition demo_registration :: pyval where
  "demo_registration = PDict [(str ''user'', PStr (str ''Alice'')), (str ''pub'', PStr (latin1_decode (lit ''k''))),
     (str ''connection'', PDict [(str ''host'', PStr (str ''localhost'')), (str ''port'', PInt 8000)])]"

lemma demo_host_init:
  "core_init demo_crypto demo_base (str ''Alice'') (lit ''k'') False (\<lambda>_ _. None) = Inr demo_host"
  by (simp add: core_init_def load_server_config_def demo_base_def dict_get_def getitem_def dget_def
      register_with_root_server_def swallow_def step_simps addUser_def get_user_def get_connection_info_def
      get_pub_def demo_crypto_def dupdate_def dset_def demo_host_def)

lemma demo_host_data: "get_registration_data demo_host = (Inr demo_registration, demo_host)"
  using registration_data [of demo_host "lit ''k''"] core_init_registers [OF demo_host_init]
  by (simp add: demo_registration_def demo_host_def get_pub_def demo_crypto_def)

theorem registration_served_witness:
  "\<exists>s'. process_message demo_crypto (server_handlers demo_crypto (undefined :: unit cqc) 0) []
      \<lparr>msg_class = RGST, msg_sender = str ''Alice'', msg_data = demo_registration\<rparr> (demo_core ''Root'' [])
      = (Inr (), s')
    \<and> getPublicKey (userDB s') (PStr (str ''Alice'')) = Inr (PBytes (get_pub demo_crypto (lit ''k'')))"
  using registration_served [OF demo_host_init _ demo_host_data,
      of "\<lparr>msg_class = RGST, msg_sender = str ''Alice'', msg_data = demo_registration\<rparr>"
        "demo_core ''Root'' []" demo_crypto "undefined :: unit cqc" 0 "[]"]
  by (force simp: mk_message_def unpack_message_data_def demo_registration_def demo_core_def hasUser_def get_user_def)

theorem reregistration_refused_witness:
  "process_message demo_crypto (server_handlers demo_crypto (undefined :: unit cqc) 0) []
      \<lparr>msg_class = RGST, msg_sender = str ''Alice'', msg_data = demo_registration\<rparr> demo_host
    = (Inl (PyException ''User already registered''), demo_host)"
  by (rule reregistration_refused [OF _ _ _ _ , where u = "str ''Alice''"])
    (auto simp: demo_registration_def dkeys_def demo_host_def hasUser_def get_user_def)

theorem distribution_is_honest_witness:
  "distribute_qubits \<lparr>createEPR = (\<lambda>_. Inr ()), sendQubit = (\<lambda>_ _. Inr ()), measure_qubit = (\<lambda>_. Inr 1),
      new_qubit = Inr ()\<rparr> 5 \<lparr>msg_class = RQQB, msg_sender = str ''Alice'',
        msg_data = PDict [(str ''user'', PStr (str ''Bob''))]\<rparr> demo_host = (Inr (), demo_host)"
  by (subst distribution_is_honest) (simp_all add: getitem_def dget_def)

end
