(* ===== verification/Server_Run.thy ===== *)
theory Server_Run
  imports Server Core_Run
begin

text \<open>
  The registry as a state machine: its constructor, the frames that arrive, and the messages that
  its threads take and handle, in any order.
\<close>

text \<open>The server has no state of its own beyond the core's and its handler table.\<close>

definition server_init ::
  "crypto \<Rightarrow> dict \<Rightarrow> pystr \<Rightarrow> bytes \<Rightarrow> bool \<Rightarrow> (pyval \<Rightarrow> pyval \<Rightarrow> pyexn option) \<Rightarrow> core res" where
  "server_init C base_config name key allow route = core_init C base_config name key allow route"

text \<open>What \<open>random.random()\<close> gives is never negative.\<close>

inductive server_reaches ::
  "crypto \<Rightarrow> 'q cqc \<Rightarrow> dict \<Rightarrow> pystr \<Rightarrow> bytes \<Rightarrow> bool \<Rightarrow> (pyval \<Rightarrow> pyval \<Rightarrow> pyexn option) \<Rightarrow> core \<Rightarrow> bool"
  for C Q base name key allow route
where
  made: "server_init C base name key allow route = Inr s \<Longrightarrow> server_reaches C Q base name key allow route s"
| arrives: "server_reaches C Q base name key allow route s \<Longrightarrow>
    server_reaches C Q base name key allow route (s\<lparr>conn := snd (handle_connection st (conn s))\<rparr>)"
| takes: "server_reaches C Q base name key allow route s \<Longrightarrow>
    server_reaches C Q base name key allow route (snd (read_from_connection s))"
| handles: "server_reaches C Q base name key allow route s \<Longrightarrow>
    server_reaches C Q base name key allow route t \<Longrightarrow> read_from_connection t = (Inr (Some m), t') \<Longrightarrow>
    list_all (server_reaches C Q base name key allow route) ts \<Longrightarrow> 0 \<le> p \<Longrightarrow>
    server_reaches C Q base name key allow route (snd (process_message C (server_handlers C Q p) ts m s))"

definition server_ok :: "core \<Rightarrow> bool" where
  "server_ok s \<longleftrightarrow> db_ok (userDB s) \<and> queue_ok (conn s) \<and> qubit_history s = (\<lambda>_. [])
     \<and> (\<forall>u. \<forall>m \<in> set (control_message_queue s u). msg_sender m = u \<and> msg_class m \<notin> {RGST, GETU, PUTU, RQQB})"

interpretation serving: core_steps server_ok
  by unfold_locales (auto simp: server_ok_def queue_ok_def db_ok_addUser)

lemma server_dispatch:
  assumes "0 \<le> p"
  shows "keeps server_ok (dispatch (server_handlers C Q p) m)"
proof -
  have "keeps server_ok (pass_registerUser m)"
    unfolding pass_registerUser_def registerUser_def by (intro keeps_rules serving.keeps_lookups serving.keeps_add_info)
  moreover have "keeps server_ok (distribute_qubits Q p m)"
    unfolding distribute_qubits_def using assms by (simp, intro keeps_rules)
  moreover have "keeps server_ok (store_control_message m)" if "msg_class m \<notin> {RGST, GETU, PUTU, RQQB}"
    unfolding store_control_message_def using that by (intro keeps_modifies) (auto simp: server_ok_def)
  ultimately show ?thesis
    unfolding dispatch_def server_handlers_def
    by (cases "msg_class m") (auto intro: serving.keeps_passed)
qed



end
