(* ===== verification/Lookup.thy ===== *)
theory Lookup
  imports Server
begin

text \<open>
  How a host gets to know a user: its request to the registry, the registry's answer, and what the
  host accepts from that user afterwards.
\<close>

section \<open>The two messages\<close>

definition address :: "'a core_scheme \<Rightarrow> pyval" where
  "address a = PDict [(str ''host'', conn_host (conn a)), (str ''port'', conn_port (conn a))]"

definition request_for :: "'a core_scheme \<Rightarrow> pystr \<Rightarrow> message" where
  "request_for a u = \<lparr>msg_class = GETU, msg_sender = core_name a,
     msg_data = PDict [(str ''user'', PStr u), (str ''connection'', address a)]\<rparr>"

definition answer_on :: "'a core_scheme \<Rightarrow> pystr \<Rightarrow> pyval \<Rightarrow> bytes \<Rightarrow> message" where
  "answer_on s u connection key = \<lparr>msg_class = PUTU, msg_sender = core_name s,
     msg_data = PDict [(str ''connection'', connection), (str ''pub'', PStr (latin1_decode key)), (str ''user'', PStr u)]\<rparr>"

lemma message_parts [simp]:
  "msg_class (request_for a u) = GETU" "msg_class (answer_on s u c k) = PUTU"
  "msg_data (request_for a u) = PDict [(str ''user'', PStr u), (str ''connection'', address a)]"
  "msg_data (answer_on s u c k) = PDict [(str ''connection'', c), (str ''pub'', PStr (latin1_decode k)), (str ''user'', PStr u)]"
  by (simp_all add: request_for_def answer_on_def)

definition sent_frame :: "'a core_scheme \<Rightarrow> pyval \<Rightarrow> pyval \<Rightarrow> bytes \<Rightarrow> 'a core_scheme" where
  "sent_frame s host port b = s\<lparr>conn := (conn s)\<lparr>conn_sent := conn_sent (conn s) @ [(host, port, b)]\<rparr>\<rparr>"

lemma sent_frame_simps [simp]:
  "userDB (sent_frame s h p b) = userDB s"
  "message_queue (conn (sent_frame s h p b)) = message_queue (conn s)"
  by (simp_all add: sent_frame_def)

lemma send_to_routed: "conn_route (conn s) host port = None \<Longrightarrow> send_to host port b s = (Inr (), sent_frame s host port b)"
  by (simp add: send_to_def send_message_def sent_frame_def)

text \<open>A signed message to an address that can be reached is sent as one frame.\<close>

lemma send_encoded_routed:
  assumes "getitem target ''host'' = Inr host" "getitem target ''port'' = Inr port" "encode_message m = Inr b"
    and "conn_route (conn s) host port = None"
  shows "send_encoded target m s = (Inr (), sent_frame s host port b)"
  using assms by (simp add: send_encoded_def step_simps send_to_routed)

section \<open>The three steps\<close>

lemma request_sent:
  assumes "length (core_name a) \<le> 16" "getitem (root_config a) ''host'' = Inr rh" "getitem (root_config a) ''port'' = Inr rp"
    and "conn_route (conn a) rh rp = None" "u \<noteq> str ''*''"
    and "encode_message (request_for a u) = Inr b" "encode_message (with_sig C (signer_key a) b (request_for a u)) = Inr frame"
  shows "requestUserInfo C ts (PStr u) a = await_user (PStr u) ts (sent_frame a rh rp frame)"
proof -
  have data: "PDict (dupdate [(str ''user'', PStr u)] (get_connection_info (conn a))) =
      PDict [(str ''user'', PStr u), (str ''connection'', address a)]"
    by (simp add: get_connection_info_def dupdate_def dset_def address_def)
  have make: "mk_message GETU (core_name a) (PDict [(str ''user'', PStr u), (str ''connection'', address a)])
      = Inr (request_for a u)"
    using assms(1) by (simp add: mk_message_def unpack_message_data_def request_for_def)
  have signed: "sign_message C (request_for a u) a = (Inr (with_sig C (signer_key a) b (request_for a u)), a)"
    by (rule sign_message_dict [OF _ assms(6)]) simp
  show ?thesis
    by (simp add: requestUserInfo_def step_simps data make signed not_star [OF assms(5)]
        send_encoded_routed [OF assms(2,3,7,4)])
qed

lemma request_answered:
  assumes "length (core_name s) \<le> 16" "u \<noteq> str ''*''"
    and "getConnectionInfo (userDB s) (PStr u) = Inr connection" "getPublicKey (userDB s) (PStr u) = Inr (PBytes pub)"
    and "encode_message (answer_on s u connection pub) = Inr b"
    and "encode_message (with_sig C (signer_key s) b (answer_on s u connection pub)) = Inr frame"
    and "conn_route (conn s) (conn_host (conn a)) (conn_port (conn a)) = None"
  shows "process_message C (server_handlers C Q p) ts (with_sig C key b1 (request_for a u)) s
    = (Inr (), sent_frame s (conn_host (conn a)) (conn_port (conn a)) frame)"
proof -
  have strip: "strip_signature (with_sig C key b1 (request_for a u)) = Inr (request_for a u, sign C key b1)"
    by (rule strip_with_sig [OF message_parts(3)]) simp
  have args: "call_kwargs [''user'', ''connection''] (msg_data (request_for a u)) =
      Inr [(str ''user'', PStr u), (str ''connection'', address a)]"
    by (simp add: call_kwargs_def dkeys_def)
  have info: "getPublicInfo (PStr u) s =
      (Inr (PDict [(str ''connection'', connection), (str ''pub'', PStr (latin1_decode pub)), (str ''user'', PStr u)]), s)"
    using assms(2-4) by (simp add: getPublicInfo_def getPublicUserInfo_def public_record_def decode_latin1_def)
  have make: "mk_message PUTU (core_name s) (PDict [(str ''connection'', connection),
      (str ''pub'', PStr (latin1_decode pub)), (str ''user'', PStr u)]) = Inr (answer_on s u connection pub)"
    using assms(1) by (simp add: mk_message_def unpack_message_data_def answer_on_def)
  have signed: "sign_message C (answer_on s u connection pub) s
      = (Inr (with_sig C (signer_key s) b (answer_on s u connection pub)), s)"
    by (rule sign_message_dict [OF _ assms(5)]) simp
  have target: "getitem (address a) ''host'' = Inr (conn_host (conn a))" "getitem (address a) ''port'' = Inr (conn_port (conn a))"
    by (simp_all add: address_def getitem_def dget_def)
  show ?thesis
    by (simp add: process_message_def msg_verify_def msg_strip_def strip step_simps dispatch_def server_handlers_def
        pass_sendUserInfo_def args [simplified] dict_get_def sendUserInfo_def info make signed
        send_encoded_routed [OF target assms(6,7)])
qed

definition learnt :: "pystr \<Rightarrow> pyval \<Rightarrow> bytes \<Rightarrow> 'a core_scheme \<Rightarrow> 'a core_scheme" where
  "learnt u connection pub a = a\<lparr>userDB := addUser (PStr u)
     [(str ''connection'', connection), (str ''pub'', PStr (latin1_decode pub))] (userDB a)\<rparr>"

lemma answer_learnt:
  assumes "u \<noteq> str ''*''" "proc_map PUTU = Some pass_addUserInfo"
  shows "process_message C proc_map ts (with_sig C key b (answer_on s u connection pub)) a = (Inr (), learnt u connection pub a)"
proof -
  let ?m = "with_sig C key b (answer_on s u connection pub)"
  let ?d = "[(str ''connection'', connection), (str ''pub'', PStr (latin1_decode pub)), (str ''user'', PStr u),
    (str ''sig'', PStr (latin1_decode (sign C key b)))]"
  have data: "msg_data ?m = PDict ?d" by (simp add: with_sig_def dset_def)
  have "process_message C proc_map ts ?m a =
      (Inr (), a\<lparr>userDB := addUser (PStr u) (AList.delete (str ''user'') (AList.delete (str ''sig'') ?d)) (userDB a)\<rparr>)"
    using putu_effect [where d = ?d and u = u and m = ?m and s = a] assms data by (simp add: wf_dict_def dkeys_def)
  then show ?thesis by (simp add: learnt_def)
qed

lemma learnt_facts:
  "getPublicKey (userDB (learnt u connection pub a)) (PStr u) = Inr (PStr (latin1_decode pub))"
  "getConnectionInfo (userDB (learnt u connection pub a)) (PStr u) = Inr connection"
proof -
  let ?kw = "[(str ''connection'', connection), (str ''pub'', PStr (latin1_decode pub))]"
  have wf: "wf_dict ?kw" by (simp add: wf_dict_def dkeys_def)
  have "map_of (dupdate i ?kw) (str ''pub'') = Some (PStr (latin1_decode pub))"
    "map_of (dupdate i ?kw) (str ''connection'') = Some connection" for i
    by (simp_all add: map_of_dupdate [OF wf])
  moreover from this have "dupdate i ?kw \<noteq> []" for i by (metis map_of.simps(1) option.distinct(1))
  ultimately show "getPublicKey (userDB (learnt u connection pub a)) (PStr u) = Inr (PStr (latin1_decode pub))"
    "getConnectionInfo (userDB (learnt u connection pub a)) (PStr u) = Inr connection"
    by (simp_all add: learnt_def getter_defs users.lookup_add dict_get_def)
qed

text \<open>
  C16. An introduction. A host that asks the registry for a user it does not know, whom the registry
  knows, is answered: its request is one frame to the registry, which sends one frame back to
  the address named in the request; when that arrives before the deadline the call returns, the host
  knows the user's address, and from then on accepts what the user signs.
\<close>

theorem registry_introduces:
  fixes a s :: "'a core_scheme"
  assumes "signatures_ok C" "import_text_ok C" "length (core_name a) \<le> 16" "length (core_name s) \<le> 16" "u \<noteq> str ''*''"
    and "getitem (root_config a) ''host'' = Inr rh" "getitem (root_config a) ''port'' = Inr rp" "conn_route (conn a) rh rp = None"
    and "\<not> hasUser (userDB a) (PStr u)" "proc_map PUTU = Some pass_addUserInfo"
    and "getConnectionInfo (userDB s) (PStr u) = Inr connection"
    and "getPublicKey (userDB s) (PStr u) = Inr (PBytes (get_pub C key))"
    and "conn_route (conn s) (conn_host (conn a)) (conn_port (conn a)) = None"
    and "message_queue (conn a) = []" "message_queue (conn s) = []" "whole_fields f" "whole_fields g"
    and "encode_message (request_for a u) = Inr b" "m1 = with_sig C (signer_key a) b (request_for a u)"
    and "sendable m1" "encode_message m1 = Inr asked"
    and "encode_message (answer_on s u connection (get_pub C key)) = Inr b'"
    and "m2 = with_sig C (signer_key s) b' (answer_on s u connection (get_pub C key))"
    and "sendable m2" "encode_message m2 = Inr answered"
  defines "a1 \<equiv> sent_frame a rh rp asked" and "a2 \<equiv> learnt u connection (get_pub C key) (sent_frame a rh rp asked)"
  shows "requestUserInfo C [a2] (PStr u) a = (Inr (), a2)
    \<and> read_from_connection (s\<lparr>conn := snd (handle_connection \<lparr>pending = asked, sched = f\<rparr> (conn s))\<rparr>) = (Inr (Some m1), s)
    \<and> process_message C (server_handlers C Q p) ts m1 s = (Inr (), sent_frame s (conn_host (conn a)) (conn_port (conn a)) answered)
    \<and> read_from_connection (a1\<lparr>conn := snd (handle_connection \<lparr>pending = answered, sched = g\<rparr> (conn a1))\<rparr>) = (Inr (Some m2), a1)
    \<and> process_message C proc_map ts m2 a1 = (Inr (), a2)
    \<and> getConnectionInfo (userDB a2) (PStr u) = Inr connection
    \<and> (\<forall>m e bm. msg_verify (msg_class m) \<and> msg_sender m = u \<and> msg_data m = PDict e \<and> map_of e (str ''sig'') = None
        \<and> encode_message m = Inr bm \<longrightarrow> process_message C proc_map ts (with_sig C key bm m) a2 = dispatch proc_map m a2)"
proof (intro conjI allI impI)
  note known = learnt_facts [of u connection "get_pub C key" a1]
  have has: "hasUser (userDB a2) (PStr u)" unfolding a1_def a2_def using getPublicKey_known [OF learnt_facts(1)] .
  have fresh: "\<not> hasUser (userDB a1) (PStr u)" using assms(9) by (simp add: a1_def)
  show "requestUserInfo C [a2] (PStr u) a = (Inr (), a2)"
    using request_sent [OF assms(3,6,7,8,5,18) assms(21) [unfolded assms(19)], of "[a2]"] has fresh
    by (simp add: a1_def await_user.simps has_user_PStr)
  show "read_from_connection (s\<lparr>conn := snd (handle_connection \<lparr>pending = asked, sched = f\<rparr> (conn s))\<rparr>) = (Inr (Some m1), s)"
    by (rule frame_taken [OF assms(20,21,15,16)])
  show "process_message C (server_handlers C Q p) ts m1 s = (Inr (), sent_frame s (conn_host (conn a)) (conn_port (conn a)) answered)"
    unfolding assms(19) by (rule request_answered [OF assms(4,5,11,12,22) assms(25) [unfolded assms(23)] assms(13)])
  have "message_queue (conn a1) = []" using assms(14) by (simp add: a1_def)
  then show "read_from_connection (a1\<lparr>conn := snd (handle_connection \<lparr>pending = answered, sched = g\<rparr> (conn a1))\<rparr>) = (Inr (Some m2), a1)"
    by (rule frame_taken [OF assms(24,25) _ assms(17)])
  show "process_message C proc_map ts m2 a1 = (Inr (), a2)"
    unfolding assms(23) a1_def a2_def using assms(5,10) by (intro answer_learnt)
  show "getConnectionInfo (userDB a2) (PStr u) = Inr connection" unfolding a2_def by (rule learnt_facts)
  fix m e bm
  assume m: "msg_verify (msg_class m) \<and> msg_sender m = u \<and> msg_data m = PDict e \<and> map_of e (str ''sig'') = None
    \<and> encode_message m = Inr bm"
  have "getPublicKey (userDB a2) (PStr (msg_sender m)) = Inr (PStr (latin1_decode (get_pub C key)))"
    using m learnt_facts(1) by (simp add: a2_def)
  with m show "process_message C proc_map ts (with_sig C key bm m) a2 = dispatch proc_map m a2"
    using signed_dispatch_text [OF assms(1,2), of m e bm a2] by simp
qed

section \<open>Instances\<close>

definition demo_asking :: core where
  "demo_asking = demo_core ''Bob'' []"

definition demo_registry :: core where
  "demo_registry = demo_core ''Root'' demo_db"

definition demo_request :: message where
  "demo_request = \<lparr>msg_class = GETU, msg_sender = str ''Bob'', msg_data = PDict [(str ''user'', PStr (str ''Alice'')),
     (str ''connection'', PDict [(str ''host'', PStr (str ''localhost'')), (str ''port'', PInt 8000)])]\<rparr>"

definition demo_answer :: message where
  "demo_answer = \<lparr>msg_class = PUTU, msg_sender = str ''Root'',
     msg_data = PDict [(str ''connection'', PNone), (str ''pub'', PStr (str ''k'')), (str ''user'', PStr (str ''Alice''))]\<rparr>"

lemma demo_messages:
  "request_for demo_asking (str ''Alice'') = demo_request"
  "answer_on demo_registry (str ''Alice'') PNone (get_pub demo_crypto (lit ''k'')) = demo_answer"
  by (simp_all add: request_for_def answer_on_def demo_request_def demo_answer_def demo_asking_def demo_registry_def
      demo_core_def address_def demo_connection_def get_pub_def demo_crypto_def latin1_decode_def lit_def str_def)

definition demo_request_frame :: bytes where
  "demo_request_frame = lit ''GETU'' @ replicate 13 0 @ lit ''Bob'' @ [0, 0, 0, 68] @
     map (\<lambda>b. if b = 42 then 34 else b) (lit ''{*user*: *Alice*, *connection*: {*host*: *localhost*, *port*: 8000}}'')"

definition demo_answer_frame :: bytes where
  "demo_answer_frame = lit ''PUTU'' @ replicate 12 0 @ lit ''Root'' @ [0, 0, 0, 49] @
     map (\<lambda>b. if b = 42 then 34 else b) (lit ''{*connection*: null, *pub*: *k*, *user*: *Alice*}'')"

lemma demo_frames:
  "encode_message demo_request = Inr demo_request_frame" "encode_message demo_answer = Inr demo_answer_frame"
  by (simp add: demo_request_def demo_request_frame_def wire_eval) (simp add: demo_answer_def demo_answer_frame_def wire_eval)

lemma demo_signed_frames:
  "sendable (with_sig demo_crypto (lit ''k'') demo_request_frame demo_request)"
  "sendable (with_sig demo_crypto (lit ''k'') demo_answer_frame demo_answer)"
proof -
  have len: "length demo_request_frame = 92" "length demo_answer_frame = 73"
    by (simp_all add: demo_request_frame_def demo_answer_frame_def)
  show "sendable (with_sig demo_crypto (lit ''k'') demo_request_frame demo_request)"
    by (simp add: with_sig_def sign_def demo_crypto_def len demo_request_def sendable_def wire_name_def payload_fits_def
        wf_dict_def dkeys_def dset_def latin1_decode_def wire_eval)
  show "sendable (with_sig demo_crypto (lit ''k'') demo_answer_frame demo_answer)"
    by (simp add: with_sig_def sign_def demo_crypto_def len demo_answer_def sendable_def wire_name_def payload_fits_def
        wf_dict_def dkeys_def dset_def latin1_decode_def wire_eval)
qed

lemma sendable_encodes: "sendable m \<Longrightarrow> \<exists>b. encode_message m = Inr b"
  using encode_message_shape [of m] by (auto simp: sendable_def)

theorem registry_introduces_witness:
  "\<exists>a2. requestUserInfo demo_crypto [a2] (PStr (str ''Alice'')) demo_asking = (Inr (), a2)
    \<and> process_message demo_crypto [PUTU \<mapsto> pass_addUserInfo] []
      (with_sig demo_crypto (lit ''k'') demo_ack_frame demo_ack) a2 = dispatch [PUTU \<mapsto> pass_addUserInfo] demo_ack a2"
proof -
  have sizes: "length (core_name demo_asking) \<le> 16" "length (core_name demo_registry) \<le> 16" "str ''Alice'' \<noteq> str ''*''"
    by (simp_all add: demo_asking_def demo_registry_def demo_core_def str_def)
  have root: "getitem (root_config demo_asking) ''host'' = Inr (PStr (str ''root''))"
    "getitem (root_config demo_asking) ''port'' = Inr (PInt 8004)"
    "conn_route (conn demo_asking) (PStr (str ''root'')) (PInt 8004) = None"
    "\<not> hasUser (userDB demo_asking) (PStr (str ''Alice''))"
    by (simp_all add: demo_asking_def demo_core_def getitem_def dget_def hasUser_def get_user_def demo_connection_def)
  have putu: "[PUTU \<mapsto> pass_addUserInfo] PUTU = Some pass_addUserInfo" by simp
  have registry: "getConnectionInfo (userDB demo_registry) (PStr (str ''Alice'')) = Inr PNone"
    "getPublicKey (userDB demo_registry) (PStr (str ''Alice'')) = Inr (PBytes (get_pub demo_crypto (lit ''k'')))"
    "conn_route (conn demo_registry) (conn_host (conn demo_asking)) (conn_port (conn demo_asking)) = None"
    by (simp_all add: demo_registry_def demo_core_def demo_db_def getter_defs get_user_def dict_get_def demo_connection_def
        get_pub_def demo_crypto_def)
  have idle: "message_queue (conn demo_asking) = []" "message_queue (conn demo_registry) = []" "whole_fields []"
    by (simp_all add: demo_asking_def demo_registry_def demo_core_def whole_fields_def)
  have keys: "signer_key demo_asking = lit ''k''" "signer_key demo_registry = lit ''k''"
    by (simp_all add: demo_asking_def demo_registry_def demo_core_def)
  obtain asked where asked: "encode_message (with_sig demo_crypto (lit ''k'') demo_request_frame demo_request) = Inr asked"
    using sendable_encodes [OF demo_signed_frames(1)] ..
  obtain answered where answered: "encode_message (with_sig demo_crypto (lit ''k'') demo_answer_frame demo_answer) = Inr answered"
    using sendable_encodes [OF demo_signed_frames(2)] ..
  note facts = registry_introduces [where proc_map = "[PUTU \<mapsto> pass_addUserInfo]" and ts = "[]", OF demo_crypto_ok(1,2) sizes root putu registry idle idle(3), unfolded demo_messages keys,
      OF demo_frames(1) refl demo_signed_frames(1) asked demo_frames(2) refl demo_signed_frames(2) answered]
  then show ?thesis using demo_ack_facts demo_ack_sendable(2) by blast
qed

end
