(* ===== verification/Process.thy ===== *)
theory Process
  imports Py_State Messages
begin

text \<open>
  A key or message protocol is a program of one thread that sends messages to its peer, waits for
  the peer's, draws random numbers and uses qubits. It is modelled as an interaction tree, and two
  of them run against each other through two message queues. The queues keep the order in which
  the messages were sent; the schedule is free. What a party draws and what its quantum library
  answers is its \<open>tape\<close>.

  The main result here is that the schedule does not matter: if one schedule ends a session, all
  do, after the same number of steps and in the same state. So the protocol theorems exhibit one
  run and hold for all.
\<close>

section \<open>Programs\<close>

text \<open>The calls to the quantum library and the request to the source; a qubit is a number.\<close>

datatype quantum_op =
    RequestEPR pyval pyval bytes
  | RecvEPR
  | RecvQubit
  | CreateEPR pyval
  | SendQubit int pyval
  | GateX int
  | GateZ int
  | GateH int
  | GateCNOT int int
  | RotY int int
  | Measure int

text \<open>\<open>Stuck\<close> is where a loop ran out of the fuel that the model gave it.\<close>

datatype 'a proc =
    Ret 'a
  | Raise pyexn
  | Stuck
  | Put message "'a proc"
  | Get "message option \<Rightarrow> 'a proc"
  | Rand int int "int \<Rightarrow> 'a proc"
  | Sample nat nat "nat list \<Rightarrow> 'a proc"
  | Quant quantum_op "int res \<Rightarrow> 'a proc"

primrec bind_proc :: "'a proc \<Rightarrow> ('a \<Rightarrow> 'b proc) \<Rightarrow> 'b proc" where
  "bind_proc (Ret x) f = f x"
| "bind_proc (Raise e) f = Raise e"
| "bind_proc Stuck f = Stuck"
| "bind_proc (Put m p) f = Put m (bind_proc p f)"
| "bind_proc (Get k) f = Get (\<lambda>m. bind_proc (k m) f)"
| "bind_proc (Rand lo hi k) f = Rand lo hi (\<lambda>v. bind_proc (k v) f)"
| "bind_proc (Sample n c k) f = Sample n c (\<lambda>js. bind_proc (k js) f)"
| "bind_proc (Quant q k) f = Quant q (\<lambda>v. bind_proc (k v) f)"

definition of_res :: "'a res \<Rightarrow> 'a proc" where
  "of_res r = (case r of Inl e \<Rightarrow> Raise e | Inr x \<Rightarrow> Ret x)"

text \<open>A call of the quantum library whose exception is the protocol's.\<close>

definition quantum :: "quantum_op \<Rightarrow> int proc" where
  "quantum q = Quant q of_res"

text \<open>A loop over a list, with an accumulator.\<close>

fun fold_proc :: "('a \<Rightarrow> 's \<Rightarrow> 's proc) \<Rightarrow> 'a list \<Rightarrow> 's \<Rightarrow> 's proc" where
  "fold_proc f [] s = Ret s"
| "fold_proc f (x # xs) s = bind_proc (f x s) (fold_proc f xs)"

lemma of_res_simps [simp]:
  "of_res (Inl e) = Raise e"
  "of_res (Inr x) = Ret x"
  by (simp_all add: of_res_def)

lemma bind_proc_assoc: "bind_proc (bind_proc p f) g = bind_proc p (\<lambda>x. bind_proc (f x) g)"
  by (induction p) simp_all

lemma bind_proc_Ret: "bind_proc p Ret = p"
  by (induction p) simp_all

section \<open>Two parties\<close>

text \<open>
  What a party is given: the value of a draw or of a library call, the indices of a sample, or the
  library's exception.
\<close>

datatype answer = Num int | Nums "nat list" | Fail pyexn

type_synonym tape = "answer list"

text \<open>One step of a party: with its inbox, to its next program, tape, inbox and what it sends.\<close>

fun advance :: "'a proc \<Rightarrow> tape \<Rightarrow> message list \<Rightarrow> ('a proc \<times> tape \<times> message list \<times> message list) option" where
  "advance (Put m p) t q = Some (p, t, q, [m])"
| "advance (Get k) t (m # q) = Some (k (Some m), t, q, [])"
| "advance (Rand lo hi k) (Num v # t) q =
     (if lo \<le> v \<and> v \<le> hi then Some (k v, t, q, []) else None)"
| "advance (Sample n c k) (Nums js # t) q =
     (if length js = c \<and> distinct js \<and> (\<forall>j \<in> set js. j < n) then Some (k js, t, q, []) else None)"
| "advance (Quant op k) (Num v # t) q = Some (k (Inr v), t, q, [])"
| "advance (Quant op k) (Fail e # t) q = Some (k (Inl e), t, q, [])"
| "advance _ _ _ = None"

text \<open>A session: the two programs with their tapes, and the messages on the way to each.\<close>

type_synonym ('a, 'b) session =
  "('a proc \<times> tape) \<times> ('b proc \<times> tape) \<times> message list \<times> message list"

inductive sstep :: "('a, 'b) session \<Rightarrow> ('a, 'b) session \<Rightarrow> bool" where
  left: "advance p t ql = Some (p', t', ql', out) \<Longrightarrow>
    sstep ((p, t), (r, u), ql, qr) ((p', t'), (r, u), ql', qr @ out)"
| right: "advance r u qr = Some (r', u', qr', out) \<Longrightarrow>
    sstep ((p, t), (r, u), ql, qr) ((p, t), (r', u'), ql @ out, qr')"

inductive_cases sstepE: "sstep ((p, t), (r, u), ql, qr) c"

lemma sstep_elim:
  assumes "sstep ((p, t), (r, u), ql, qr) c"
  obtains (L) p' t' ql' out where "c = ((p', t'), (r, u), ql', qr @ out)" "advance p t ql = Some (p', t', ql', out)"
    | (R) r' u' qr' out where "c = ((p, t), (r', u'), ql @ out, qr')" "advance r u qr = Some (r', u', qr', out)"
  using assms by (rule sstepE) auto

lemma advance_more:
  "advance p t q = Some (p', t', q', out) \<Longrightarrow> advance p t (q @ x) = Some (p', t', q' @ x, out)"
  by (induction p t q rule: advance.induct) (auto split: if_splits)

lemma advance_bind:
  "advance p t q = Some (p', t', q', out) \<Longrightarrow>
   advance (bind_proc p f) t q = Some (bind_proc p' f, t', q', out)"
  by (induction p t q rule: advance.induct) (auto split: if_splits)

section \<open>The schedule does not matter\<close>

lemma sstep_diamond:
  assumes "sstep c d" "sstep c e" "d \<noteq> e"
  shows "\<exists>f. sstep d f \<and> sstep e f"
  using assms(1)
proof (cases rule: sstep.cases)
  case l: (left p t ql p' t' ql' out r u qr)
  from assms(2) [unfolded l(1)] show ?thesis
  proof (cases rule: sstep_elim)
    case L
    with l assms(3) show ?thesis by simp
  next
    case r: (R r' u' qr' out')
    have "sstep ((p', t'), (r, u), ql', qr @ out) ((p', t'), (r', u'), ql' @ out', qr' @ out)"
      by (rule sstep.right [OF advance_more [OF r(2)]])
    moreover have "sstep ((p, t), (r', u'), ql @ out', qr') ((p', t'), (r', u'), ql' @ out', qr' @ out)"
      by (rule sstep.left [OF advance_more [OF l(3)]])
    ultimately show ?thesis using l(2) r(1) by blast
  qed
next
  case l: (right r u qr r' u' qr' out p t ql)
  from assms(2) [unfolded l(1)] show ?thesis
  proof (cases rule: sstep_elim)
    case r: (L p' t' ql' out')
    have "sstep ((p, t), (r', u'), ql @ out, qr') ((p', t'), (r', u'), ql' @ out, qr' @ out')"
      by (rule sstep.left [OF advance_more [OF r(2)]])
    moreover have "sstep ((p', t'), (r, u), ql', qr @ out') ((p', t'), (r', u'), ql' @ out, qr' @ out')"
      by (rule sstep.right [OF advance_more [OF l(3)]])
    ultimately show ?thesis using l(2) r(1) by blast
  next
    case R
    with l assms(3) show ?thesis by simp
  qed
qed

lemma sstep_toward_end:
  assumes "(sstep ^^ n) c z" "\<And>d. \<not> sstep z d" "sstep c e"
  shows "\<exists>k. n = Suc k \<and> (sstep ^^ k) e z"
  using assms(1,3)
proof (induction n arbitrary: c e)
  case 0
  then show ?case using assms(2) by simp
next
  case (Suc n)
  from Suc.prems(1) obtain d where d: "sstep c d" "(sstep ^^ n) d z" by (blast dest: relpowp_Suc_D2)
  show ?case
  proof (cases "d = e")
    case True
    with d show ?thesis by simp
  next
    case False
    with sstep_diamond [OF d(1) Suc.prems(2)] obtain f where f: "sstep d f" "sstep e f" by blast
    from Suc.IH [OF d(2) f(1)] obtain k where "n = Suc k" "(sstep ^^ k) f z" by blast
    with f(2) show ?thesis by (metis relpowp_Suc_I2)
  qed
qed

lemma sstep_run_to_end:
  assumes "(sstep ^^ n) c z" "\<forall>d. \<not> sstep z d" "(sstep ^^ k) c e"
  shows "k \<le> n \<and> (sstep ^^ (n - k)) e z"
  using assms(3,1)
proof (induction k arbitrary: c n)
  case 0
  then show ?case by simp
next
  case (Suc k)
  from Suc.prems(1) obtain d where d: "sstep c d" "(sstep ^^ k) d e" by (blast dest: relpowp_Suc_D2)
  from sstep_toward_end [OF Suc.prems(2) _ d(1)] assms(2) obtain l where
    l: "n = Suc l" "(sstep ^^ l) d z" by blast
  from Suc.IH [OF d(2) l(2)] l(1) show ?case by simp
qed

section \<open>Composing sessions\<close>

text \<open>
  \<open>runs p r t u p' r'\<close>: the left program \<open>p\<close> with the tape \<open>t\<close> and the right one \<open>r\<close> with \<open>u\<close> get to
  \<open>p'\<close> and \<open>r'\<close>, with their tapes used up and no message left over.
\<close>

definition runs :: "'a proc \<Rightarrow> 'b proc \<Rightarrow> tape \<Rightarrow> tape \<Rightarrow> 'a proc \<Rightarrow> 'b proc \<Rightarrow> bool" where
  "runs p r t u p' r' \<longleftrightarrow>
     (\<forall>T U. sstep\<^sup>*\<^sup>* ((p, t @ T), (r, u @ U), [], []) ((p', T), (r', U), [], []))"

lemma runs_refl: "runs p r [] [] p r"
  by (simp add: runs_def)

lemma runs_trans:
  assumes "runs p r t u p' r'" "runs p' r' t' u' p'' r''"
  shows "runs p r (t @ t') (u @ u') p'' r''"
  unfolding runs_def
proof (intro allI)
  fix T U
  have "sstep\<^sup>*\<^sup>* ((p, t @ (t' @ T)), (r, u @ (u' @ U)), [], []) ((p', t' @ T), (r', u' @ U), [], [])"
    using assms(1) unfolding runs_def by blast
  moreover have "sstep\<^sup>*\<^sup>* ((p', t' @ T), (r', u' @ U), [], []) ((p'', T), (r'', U), [], [])"
    using assms(2) unfolding runs_def by blast
  ultimately show "sstep\<^sup>*\<^sup>* ((p, (t @ t') @ T), (r, (u @ u') @ U), [], []) ((p'', T), (r'', U), [], [])"
    by simp
qed

definition with_rest :: "('a \<Rightarrow> 'c proc) \<Rightarrow> ('b \<Rightarrow> 'd proc) \<Rightarrow> ('a, 'b) session \<Rightarrow> ('c, 'd) session" where
  "with_rest f g c = (case c of ((p, t), (r, u), q) \<Rightarrow> ((bind_proc p f, t), (bind_proc r g, u), q))"

lemma sstep_with_rest: "sstep c d \<Longrightarrow> sstep (with_rest f g c) (with_rest f g d)"
  by (induction rule: sstep.induct) (auto simp: with_rest_def intro: sstep.intros dest: advance_bind)

lemma runs_bind:
  assumes "runs p r t u p' r'"
  shows "runs (bind_proc p f) (bind_proc r g) t u (bind_proc p' f) (bind_proc r' g)"
  unfolding runs_def
proof (intro allI)
  fix T U
  have "sstep\<^sup>*\<^sup>* c d \<Longrightarrow> sstep\<^sup>*\<^sup>* (with_rest f g c) (with_rest f g d)" for c d
    by (induction rule: rtranclp_induct) (auto intro: rtranclp.rtrancl_into_rtrancl sstep_with_rest)
  from this [OF assms [unfolded runs_def, rule_format, of T U]]
  show "sstep\<^sup>*\<^sup>* ((bind_proc p f, t @ T), (bind_proc r g, u @ U), [], [])
      ((bind_proc p' f, T), (bind_proc r' g, U), [], [])"
    by (simp add: with_rest_def)
qed

text \<open>Sequential composition of two programs that both return.\<close>

lemma runs_seq:
  assumes "runs p r t u (Ret a) (Ret b)" "runs (f a) (g b) t' u' p' r'"
  shows "runs (bind_proc p f) (bind_proc r g) (t @ t') (u @ u') p' r'"
  using runs_trans [OF runs_bind [OF assms(1), of f g]] assms(2) by simp

text \<open>Single steps, one party at a time.\<close>

lemma runs_left:
  assumes "\<And>T. advance p (t @ T) [] = Some (p', t' @ T, [], [])" "runs p' r t' u p'' r''"
  shows "runs p r t u p'' r''"
  unfolding runs_def
proof (intro allI)
  fix T U
  have "sstep ((p, t @ T), (r, u @ U), [], []) ((p', t' @ T), (r, u @ U), [], [])"
    using sstep.left [OF assms(1)] by force
  then show "sstep\<^sup>*\<^sup>* ((p, t @ T), (r, u @ U), [], []) ((p'', T), (r'', U), [], [])"
    using assms(2) by (auto simp: runs_def intro: converse_rtranclp_into_rtranclp)
qed

lemma runs_right:
  assumes "\<And>U. advance r (u @ U) [] = Some (r', u' @ U, [], [])" "runs p r' t u' p'' r''"
  shows "runs p r t u p'' r''"
  unfolding runs_def
proof (intro allI)
  fix T U
  have "sstep ((p, t @ T), (r, u @ U), [], []) ((p, t @ T), (r', u' @ U), [], [])"
    using sstep.right [OF assms(1)] by force
  then show "sstep\<^sup>*\<^sup>* ((p, t @ T), (r, u @ U), [], []) ((p'', T), (r'', U), [], [])"
    using assms(2) by (auto simp: runs_def intro: converse_rtranclp_into_rtranclp)
qed

text \<open>A message from the left to the right, and back.\<close>

lemma runs_send_right:
  assumes "runs p (k (Some m)) t u p' r'"
  shows "runs (Put m p) (Get k) t u p' r'"
  unfolding runs_def
proof (intro allI)
  fix T U
  have 1: "sstep ((Put m p, t @ T), (Get k, u @ U), [], []) ((p, t @ T), (Get k, u @ U), [], [] @ [m])"
    by (rule sstep.left) simp
  have 2: "sstep ((p, t @ T), (Get k, u @ U), [], [m]) ((p, t @ T), (k (Some m), u @ U), [] @ [], [])"
    by (rule sstep.right) simp
  from 1 2 assms [unfolded runs_def, rule_format, of T U] show "sstep\<^sup>*\<^sup>* ((Put m p, t @ T), (Get k, u @ U), [], []) ((p', T), (r', U), [], [])"
    by (simp add: converse_rtranclp_into_rtranclp)
qed

lemma runs_send_left:
  assumes "runs (k (Some m)) r t u p' r'"
  shows "runs (Get k) (Put m r) t u p' r'"
  unfolding runs_def
proof (intro allI)
  fix T U
  have 1: "sstep ((Get k, t @ T), (Put m r, u @ U), [], []) ((Get k, t @ T), (r, u @ U), [] @ [m], [])"
    by (rule sstep.right) simp
  have 2: "sstep ((Get k, t @ T), (r, u @ U), [m], []) ((k (Some m), t @ T), (r, u @ U), [], [] @ [])"
    by (rule sstep.left) simp
  from 1 2 assms [unfolded runs_def, rule_format, of T U] show "sstep\<^sup>*\<^sup>* ((Get k, t @ T), (Put m r, u @ U), [], []) ((p', T), (r', U), [], [])"
    by (simp add: converse_rtranclp_into_rtranclp)
qed

text \<open>Programs that have ended, and what a completed session says about every schedule.\<close>

fun ended :: "'a proc \<Rightarrow> bool" where
  "ended (Ret x) = True"
| "ended (Raise e) = True"
| "ended Stuck = True"
| "ended _ = False"

lemma ended_no_advance: "ended p \<Longrightarrow> advance p t q = None"
  by (cases p) simp_all

lemma runs_every_schedule:
  assumes "runs p r t u p' r'" "ended p'" "ended r'"
    and "sstep\<^sup>*\<^sup>* ((p, t), (r, u), [], []) c"
  shows "sstep\<^sup>*\<^sup>* c ((p', []), (r', []), [], [])"
proof -
  let ?z = "((p', [] :: tape), (r', [] :: tape), [], [])"
  have "sstep\<^sup>*\<^sup>* ((p, t), (r, u), [], []) ?z"
    using assms(1) [unfolded runs_def, rule_format, of "[]" "[]"] by simp
  then obtain n where n: "(sstep ^^ n) ((p, t), (r, u), [], []) ?z" by (auto simp: rtranclp_power)
  from assms(4) obtain k where k: "(sstep ^^ k) ((p, t), (r, u), [], []) c" by (auto simp: rtranclp_power)
  have stop: "\<forall>d. \<not> sstep ?z d"
    using assms(2,3) by (auto elim!: sstepE simp: ended_no_advance)
  have "k \<le> n \<and> (sstep ^^ (n - k)) c ?z" using n stop k by (rule sstep_run_to_end)
  then show ?thesis by (auto simp: rtranclp_power)
qed


text \<open>One party sends, the other draws a number first; the draw may come before or after the message.\<close>

definition demo_hello :: message where
  "demo_hello = \<lparr>msg_class = BB84, msg_sender = str ''Alice'', msg_data = PDict []\<rparr>"


end
