(* ===== verification/Protocol_Base.thy ===== *)
theory Protocol_Base
  imports Process
begin

text \<open>
  The base classes of \<^verbatim>\<open>qchat/protocols.py\<close> and \<^verbatim>\<open>qchat/device.py\<close>: waiting for, sending and
  exchanging control messages, the handshakes of key and message protocols, and the measurement
  devices. A protocol object is the record of what its methods read.
\<close>

section \<open>Protocol objects\<close>

datatype protocol = BB84_PURIFIED | DIQKD | SUPERDENSE

fun protocol_name :: "protocol \<Rightarrow> pystr" where
  "protocol_name BB84_PURIFIED = str ''BB84_PURIFIED''"
| "protocol_name DIQKD = str ''DIQKD''"
| "protocol_name SUPERDENSE = str ''SUPERDENSE''"

fun message_type :: "protocol \<Rightarrow> msg_class" where
  "message_type BB84_PURIFIED = BB84"
| "message_type DIQKD = DQKD"
| "message_type SUPERDENSE = SPDS"

definition protocol_mapping :: "(pystr \<times> protocol) list" where
  "protocol_mapping = map (\<lambda>p. (protocol_name p, p)) [BB84_PURIFIED, DIQKD, SUPERDENSE]"

definition createProtocol :: "pyval \<Rightarrow> protocol option res" where
  "createProtocol name = (case name of
     PStr n \<Rightarrow> Inr (map_of protocol_mapping n)
   | PList _ \<Rightarrow> Inl TypeError
   | PDict _ \<Rightarrow> Inl TypeError
   | _ \<Rightarrow> Inr None)"

datatype role = Leader | Follower

record party =
  kind :: protocol
  me :: pystr
  peer :: pyval
  role_of :: role
  relay_host :: pyval
  relay_port :: pyval
  key_size :: pyval

section \<open>Control messages\<close>

definition wait_for_control_message :: "msg_class \<Rightarrow> message proc" where
  "wait_for_control_message c = Get (\<lambda>r. case r of
     None \<Rightarrow> Raise (ProtocolException ''Timed out waiting for control message'')
   | Some m \<Rightarrow> if msg_class m = c then Ret m
       else Raise (ProtocolException ''Received incorrect control message''))"

definition send_control_message :: "party \<Rightarrow> dict \<Rightarrow> msg_class \<Rightarrow> unit proc" where
  "send_control_message P d c = (case mk_message c (me P) (PDict d) of
     Inl e \<Rightarrow> Raise e
   | Inr m \<Rightarrow> Put m (Ret ()))"

definition exchange_messages :: "party \<Rightarrow> dict \<Rightarrow> msg_class \<Rightarrow> message proc" where
  "exchange_messages P d c = (case role_of P of
     Leader \<Rightarrow> bind_proc (send_control_message P d c) (\<lambda>_. wait_for_control_message c)
   | Follower \<Rightarrow> bind_proc (wait_for_control_message c) (\<lambda>m.
       bind_proc (send_control_message P d c) (\<lambda>_. Ret m)))"

text \<open>\<open>m.data[k]\<close>, and the test \<open>if not m.data[k]: raise ProtocolException(...)\<close>.\<close>

definition data_item :: "message \<Rightarrow> string \<Rightarrow> pyval proc" where
  "data_item m k = of_res (getitem (msg_data m) k)"

definition require :: "message \<Rightarrow> string \<Rightarrow> string \<Rightarrow> unit proc" where
  "require m k err = bind_proc (data_item m k) (\<lambda>v.
     if truthy v then Ret () else Raise (ProtocolException err))"

definition ack :: dict where
  "ack = [(str ''ack'', PBool True)]"

section \<open>Handshakes\<close>

text \<open>The key protocols tell the follower the size of the key, the message protocols do not.\<close>

definition lead_key_protocol :: "party \<Rightarrow> unit proc" where
  "lead_key_protocol P =
     bind_proc (send_control_message P
       [(str ''name'', PStr (protocol_name (kind P))), (str ''key_size'', key_size P)] PTCL) (\<lambda>_.
     bind_proc (wait_for_control_message (message_type (kind P))) (\<lambda>response.
     bind_proc (data_item response ''ACK'') (\<lambda>v.
     if \<not> py_eq v (PStr (str ''ACK'')) then Raise (ProtocolException ''Failed to establish leader/role'')
     else Ret ())))"

definition follow_key_protocol :: "party \<Rightarrow> unit proc" where
  "follow_key_protocol P =
     send_control_message P [(str ''ACK'', PStr (str ''ACK''))] (message_type (kind P))"

definition end_key_protocol :: "party \<Rightarrow> unit proc" where
  "end_key_protocol P =
     bind_proc (exchange_messages P [(str ''FIN'', PBool True)] (message_type (kind P))) (\<lambda>m.
     require m ''FIN'' ''Failed to terminate protocol'')"

definition lead_message_protocol :: "party \<Rightarrow> unit proc" where
  "lead_message_protocol P =
     bind_proc (send_control_message P [(str ''name'', PStr (protocol_name (kind P)))] PTCL) (\<lambda>_.
     bind_proc (wait_for_control_message (message_type (kind P))) (\<lambda>response.
     bind_proc (data_item response ''ACK'') (\<lambda>v.
     if \<not> py_eq v (PStr (str ''ACK'')) then Raise (ProtocolException ''Failed to establish leader/role'')
     else Ret ())))"

definition follow_message_protocol :: "party \<Rightarrow> unit proc" where
  "follow_message_protocol P =
     send_control_message P [(str ''ACK'', PStr (str ''ACK''))] (message_type (kind P))"

definition end_message_protocol :: "party \<Rightarrow> unit proc" where
  "end_message_protocol P =
     bind_proc (exchange_messages P [(str ''FIN'', PBool True)] (message_type (kind P))) (\<lambda>m.
     require m ''FIN'' ''Failed to terminate protocol'')"

text \<open>The method that an object of each class has.\<close>

definition lead_protocol :: "party \<Rightarrow> unit proc" where
  "lead_protocol P = (case kind P of SUPERDENSE \<Rightarrow> lead_message_protocol P | _ \<Rightarrow> lead_key_protocol P)"

definition follow_protocol :: "party \<Rightarrow> unit proc" where
  "follow_protocol P = (case kind P of SUPERDENSE \<Rightarrow> follow_message_protocol P | _ \<Rightarrow> follow_key_protocol P)"

definition end_protocol :: "party \<Rightarrow> unit proc" where
  "end_protocol P = (case kind P of SUPERDENSE \<Rightarrow> end_message_protocol P | _ \<Rightarrow> end_key_protocol P)"

text \<open>In what they send after the first message the classes do not differ.\<close>

definition first_message :: "party \<Rightarrow> dict" where
  "first_message P = (case kind P of
     SUPERDENSE \<Rightarrow> [(str ''name'', PStr (protocol_name (kind P)))]
   | _ \<Rightarrow> [(str ''name'', PStr (protocol_name (kind P))), (str ''key_size'', key_size P)])"

lemma lead_protocol_first:
  "lead_protocol P =
     bind_proc (send_control_message P (first_message P) PTCL) (\<lambda>_.
     bind_proc (wait_for_control_message (message_type (kind P))) (\<lambda>response.
     bind_proc (data_item response ''ACK'') (\<lambda>v.
     if \<not> py_eq v (PStr (str ''ACK'')) then Raise (ProtocolException ''Failed to establish leader/role'')
     else Ret ())))"
  by (simp add: lead_protocol_def lead_key_protocol_def lead_message_protocol_def first_message_def split: protocol.split)

lemma follow_protocol_answer:
  "follow_protocol P = send_control_message P [(str ''ACK'', PStr (str ''ACK''))] (message_type (kind P))"
  by (simp add: follow_protocol_def follow_key_protocol_def follow_message_protocol_def split: protocol.split)

lemma end_protocol_exchange:
  "end_protocol P =
     bind_proc (exchange_messages P [(str ''FIN'', PBool True)] (message_type (kind P))) (\<lambda>m.
     require m ''FIN'' ''Failed to terminate protocol'')"
  by (simp add: end_protocol_def end_key_protocol_def end_message_protocol_def split: protocol.split)

text \<open>The constructor: the device reads the relay's address, then the role's first step.\<close>

definition start_protocol :: "party \<Rightarrow> unit proc" where
  "start_protocol P = (case role_of P of Leader \<Rightarrow> lead_protocol P | Follower \<Rightarrow> follow_protocol P)"

definition device_init :: "pyval \<Rightarrow> (pyval \<times> pyval) res" where
  "device_init relay_info =
     bindE (getitem relay_info ''host'') (\<lambda>h. bindE (getitem relay_info ''port'') (\<lambda>p. Inr (h, p)))"

definition make_party ::
  "protocol \<Rightarrow> pystr \<Rightarrow> pyval \<Rightarrow> role \<Rightarrow> pyval \<Rightarrow> pyval \<Rightarrow> party res" where
  "make_party k name peer_user r relay_info ks =
     bindE (device_init relay_info) (\<lambda>(h, p).
     Inr \<lparr>kind = k, me = name, peer = peer_user, role_of = r, relay_host = h, relay_port = p,
       key_size = ks\<rparr>)"

section \<open>Devices\<close>

definition requestEPR :: "party \<Rightarrow> unit proc" where
  "requestEPR P = bind_proc (of_res (bindE (mk_message RQQB (me P) (PDict [(str ''user'', peer P)])) encode_message))
     (\<lambda>b. bind_proc (quantum (RequestEPR (relay_host P) (relay_port P) b)) (\<lambda>_. Ret ()))"

text \<open>
  \<open>receiveEPR\<close> retries the library call for a minute: the answer on the tape is the first qubit
  that comes, or the failure that is left when the time is over.
\<close>

definition await_qubit :: "quantum_op \<Rightarrow> int proc" where
  "await_qubit op = Quant op (\<lambda>r. case r of Inl _ \<Rightarrow> Raise (PyException ''Timed out waiting for EPR'') | Inr q \<Rightarrow> Ret q)"

definition lead_receiveEPR :: "int proc" where
  "lead_receiveEPR = await_qubit RecvEPR"

definition follow_receiveEPR :: "int proc" where
  "follow_receiveEPR = await_qubit RecvQubit"

text \<open>
  Measurement in a basis. Any other basis number makes the code's method return \<open>None\<close>; the
  callers draw the number from exactly the ranges handled here.
\<close>

definition lead_measure :: "int \<Rightarrow> int \<Rightarrow> int proc" where
  "lead_measure q basis =
     (if basis = 0 then quantum (Measure q)
      else if basis = 1 then bind_proc (quantum (GateH q)) (\<lambda>_. quantum (Measure q))
      else Raise TypeError)"

definition follow_measure :: "int \<Rightarrow> int \<Rightarrow> int proc" where
  "follow_measure q basis =
     (if basis = 0 then bind_proc (quantum (RotY q 48)) (\<lambda>_. quantum (Measure q))
      else if basis = 1 then bind_proc (quantum (RotY q 16)) (\<lambda>_. quantum (Measure q))
      else if basis = 2 then quantum (Measure q)
      else Raise TypeError)"

text \<open>\<open>self.device\<close> is the device of the party's role.\<close>

definition receiveEPR :: "party \<Rightarrow> int proc" where
  "receiveEPR P = (case role_of P of Leader \<Rightarrow> lead_receiveEPR | Follower \<Rightarrow> follow_receiveEPR)"

definition measure :: "party \<Rightarrow> int \<Rightarrow> int \<Rightarrow> int proc" where
  "measure P q basis = (case role_of P of Leader \<Rightarrow> lead_measure q basis | Follower \<Rightarrow> follow_measure q basis)"

lemmas device_defs = receiveEPR_def lead_receiveEPR_def follow_receiveEPR_def await_qubit_def
  measure_def lead_measure_def follow_measure_def

section \<open>Exchanges between a leader and a follower\<close>

text \<open>Two protocol objects that face each other.\<close>

definition paired :: "party \<Rightarrow> party \<Rightarrow> bool" where
  "paired L F \<longleftrightarrow> role_of L = Leader \<and> role_of F = Follower \<and> kind L = kind F
     \<and> length (me L) \<le> 16 \<and> length (me F) \<le> 16"

definition msg :: "party \<Rightarrow> msg_class \<Rightarrow> dict \<Rightarrow> message" where
  "msg P c d = \<lparr>msg_class = c, msg_sender = me P, msg_data = PDict d\<rparr>"

lemma msg_simps [simp]:
  "msg_class (msg P c d) = c"
  "msg_data (msg P c d) = PDict d"
  by (simp_all add: msg_def)

lemma send_control: "length (me P) \<le> 16 \<Longrightarrow> send_control_message P d c = Put (msg P c d) (Ret ())"
  by (simp add: send_control_message_def mk_message_def unpack_message_data_def msg_def)

lemma wait_control: "bind_proc (wait_for_control_message c) f =
    Get (\<lambda>r. bind_proc (case r of
       None \<Rightarrow> Raise (ProtocolException ''Timed out waiting for control message'')
     | Some m \<Rightarrow> if msg_class m = c then Ret m
         else Raise (ProtocolException ''Received incorrect control message'')) f)"
  by (simp add: wait_for_control_message_def)

text \<open>An exchange swaps the two messages.\<close>

lemma exchange:
  assumes "paired L F" "runs (f (msg F c e)) (g (msg L c d)) t u p r"
  shows "runs (bind_proc (exchange_messages L d c) f) (bind_proc (exchange_messages F e c) g) t u p r"
  using assms
  by (auto simp: paired_def exchange_messages_def send_control wait_control bind_proc_assoc
      intro!: runs_send_right runs_send_left)

text \<open>A message one way.\<close>

lemma send_right:
  assumes "paired L F" "runs (f ()) (g (msg L c d)) t u p r"
  shows "runs (bind_proc (send_control_message L d c) f) (bind_proc (wait_for_control_message c) g) t u p r"
  using assms by (auto simp: paired_def send_control wait_control intro!: runs_send_right)

lemma send_left:
  assumes "paired L F" "runs (f (msg F c d)) (g ()) t u p r"
  shows "runs (bind_proc (wait_for_control_message c) f) (bind_proc (send_control_message F d c) g) t u p r"
  using assms by (auto simp: paired_def send_control wait_control intro!: runs_send_left)

lemma data_item_msg:
  "map_of d (str k) = Some v \<Longrightarrow> data_item (msg P c d) k = Ret v"
  by (simp add: data_item_def getitem_def dget_def)

lemma require_msg: "map_of d (str k) = Some v \<Longrightarrow> truthy v \<Longrightarrow> require (msg P c d) k err = Ret ()"
  by (simp add: require_def data_item_msg)

lemma require_ack: "require (msg P c ack) ''ack'' err = Ret ()"
  by (rule require_msg [where v = "PBool True"]) (simp_all add: ack_def)

lemma end_together:
  assumes "paired L F"
  shows "runs (end_protocol L) (end_protocol F) [] [] (Ret ()) (Ret ())"
proof -
  have "kind F = kind L" using assms by (simp add: paired_def)
  then show ?thesis unfolding end_protocol_exchange
    by simp (rule exchange [OF assms]; simp add: require_msg runs_refl)
qed

text \<open>A call of the quantum library, on either side.\<close>

lemma quantum_left:
  "runs (f v) r t u p' r' \<Longrightarrow> runs (bind_proc (quantum op) f) r (Num v # t) u p' r'"
  by (rule runs_left [where t' = t]) (simp_all add: quantum_def)

lemma quantum_right:
  "runs p (g v) t u p' r' \<Longrightarrow> runs p (bind_proc (quantum op) g) t (Num v # u) p' r'"
  by (rule runs_right [where u' = u]) (simp_all add: quantum_def)

lemma rand_left:
  "lo \<le> v \<Longrightarrow> v \<le> hi \<Longrightarrow> runs (f v) r t u p' r' \<Longrightarrow> runs (Rand lo hi f) r (Num v # t) u p' r'"
  by (rule runs_left [where t' = t]) simp_all

lemma rand_right:
  "lo \<le> v \<Longrightarrow> v \<le> hi \<Longrightarrow> runs p (g v) t u p' r' \<Longrightarrow> runs p (Rand lo hi g) t (Num v # u) p' r'"
  by (rule runs_right [where u' = u]) simp_all

lemma receive_left:
  "runs (f q) r t u p' r' \<Longrightarrow> runs (bind_proc (receiveEPR P) f) r (Num q # t) u p' r'"
  by (rule runs_left [where t' = t]) (simp_all add: device_defs split: role.split)

lemma receive_right:
  "runs p (g q) t u p' r' \<Longrightarrow> runs p (bind_proc (receiveEPR P) g) t (Num q # u) p' r'"
  by (rule runs_right [where u' = u]) (simp_all add: device_defs split: role.split)

section \<open>Instances\<close>

definition demo_party :: "protocol \<Rightarrow> role \<Rightarrow> pyval \<Rightarrow> party" where
  "demo_party k r ks = (case r of
     Leader \<Rightarrow> \<lparr>kind = k, me = str ''Alice'', peer = PStr (str ''Bob''), role_of = Leader,
       relay_host = PNone, relay_port = PNone, key_size = ks\<rparr>
   | Follower \<Rightarrow> \<lparr>kind = k, me = str ''Bob'', peer = PStr (str ''Alice''), role_of = Follower,
       relay_host = PNone, relay_port = PNone, key_size = ks\<rparr>)"

lemma demo_paired: "paired (demo_party k Leader n) (demo_party k Follower n)"
  by (simp add: paired_def demo_party_def str_def)

end
