(* ===== verification/BB84.thy ===== *)
theory BB84
  imports Protocol_Base Golay Complex_Main
begin

text \<open>
  The class \<open>BB84_Purified\<close> of \<^verbatim>\<open>qchat/protocols.py\<close>: distribution of the states, sifting, error
  estimation, reconciliation with the Golay code, privacy amplification, and the loop that puts
  the key together. Error rates are compared exactly, as rationals: the code's floating-point
  quotients of small integers compare with its threshold (the double nearest to 3/23) as the
  rationals do. Values that arrive from the peer may have any type; a float, which JSON text could
  hold, is refused where the code would compute with it.
\<close>

section \<open>Distribution and sifting\<close>

definition ROUND_SIZE :: nat where "ROUND_SIZE = 100"
definition BYTE_LEN :: nat where "BYTE_LEN = 8"
definition MAX_GOLAY_ERROR :: rat where "MAX_GOLAY_ERROR = 3 / 23"

definition bits_val :: "int list \<Rightarrow> pyval" where
  "bits_val x = PList (map PInt x)"

text \<open>\<open>n\<close> more states, each measured in a random basis.\<close>

fun receive_states :: "party \<Rightarrow> nat \<Rightarrow> int list \<Rightarrow> int list \<Rightarrow> (int list \<times> int list) proc" where
  "receive_states P 0 x theta = Ret (x, theta)"
| "receive_states P (Suc n) x theta =
     bind_proc (if role_of P = Leader then requestEPR P else Ret ()) (\<lambda>_.
     bind_proc (receiveEPR P) (\<lambda>q.
     Rand 0 1 (\<lambda>basisflip.
     bind_proc (if basisflip \<noteq> 0 then quantum (GateH q) else Ret 0) (\<lambda>_.
     bind_proc (quantum (Measure q)) (\<lambda>v.
     bind_proc (exchange_messages P ack BB84) (\<lambda>r.
     bind_proc (require r ''ack'' ''Error distributing EPR states'') (\<lambda>_.
     receive_states P n (x @ [v]) (theta @ [basisflip]))))))))"

definition receive_bb84_states :: "party \<Rightarrow> (int list \<times> int list) proc" where
  "receive_bb84_states P = receive_states P ROUND_SIZE [] []"

definition sift :: "int list \<Rightarrow> int list \<Rightarrow> pyval list \<Rightarrow> int list" where
  "sift x theta theta_hat = map fst (filter (\<lambda>(bit, basis, basis_hat). py_eq (PInt basis) basis_hat)
     (zip x (zip theta theta_hat)))"

definition filter_theta :: "party \<Rightarrow> int list \<Rightarrow> int list \<Rightarrow> int list proc" where
  "filter_theta P x theta =
     bind_proc (exchange_messages P [(str ''theta'', bits_val theta)] BB84) (\<lambda>response.
     bind_proc (data_item response ''theta'') (\<lambda>v.
     bind_proc (of_res (iterate v)) (\<lambda>theta_hat.
     Ret (sift x theta theta_hat))))"

section \<open>Error estimation\<close>

text \<open>The leader draws up to a quarter of the round's size of test positions, popping each bit.\<close>

fun pick_tests :: "nat \<Rightarrow> int list \<Rightarrow> int list \<Rightarrow> int list \<Rightarrow> (int list \<times> int list \<times> int list) proc" where
  "pick_tests 0 x test_bits test_indices = Ret (x, test_bits, test_indices)"
| "pick_tests (Suc n) x test_bits test_indices =
     (if length x > 0 then
        Rand 0 (int (length x) - 1) (\<lambda>index.
        bind_proc (of_res (py_pop x index)) (\<lambda>(b, x').
        pick_tests n x' (test_bits @ [b]) (test_indices @ [index])))
      else Ret (x, test_bits, test_indices))"

text \<open>The follower pops at the positions it was sent; a position must be an integer.\<close>

definition pop_at :: "pyval \<Rightarrow> int list \<times> int list \<Rightarrow> (int list \<times> int list) res" where
  "pop_at index s = (case s of (x, test_bits) \<Rightarrow>
     bindE (of_option TypeError (int_of_val index)) (\<lambda>i.
     bindE (py_pop x i) (\<lambda>(b, x'). Inr (x', test_bits @ [b]))))"

definition count_errors :: "int list \<Rightarrow> pyval list \<Rightarrow> nat" where
  "count_errors test_bits target = length (filter (\<lambda>(t1, t2). \<not> py_eq (PInt t1) t2) (zip test_bits target))"

text \<open>\<open>num_error / len(test_bits)\<close>, or 1 without a test bit.\<close>

definition error_rate :: "int list \<Rightarrow> pyval list \<Rightarrow> rat" where
  "error_rate test_bits target =
     (if test_bits \<noteq> [] then of_nat (count_errors test_bits target) / of_nat (length test_bits) else 1)"

definition estimate_error_rate :: "party \<Rightarrow> int list \<Rightarrow> (rat \<times> int list) proc" where
  "estimate_error_rate P x =
     bind_proc (case role_of P of
       Leader \<Rightarrow> bind_proc (pick_tests (ROUND_SIZE div 4) x [] []) (\<lambda>(x', test_bits, test_indices).
         bind_proc (exchange_messages P [(str ''test_indices'', bits_val test_indices)] BB84) (\<lambda>r.
         bind_proc (require r ''ack'' ''Error sending test indices'') (\<lambda>_. Ret (x', test_bits))))
     | Follower \<Rightarrow> bind_proc (exchange_messages P ack BB84) (\<lambda>m.
         bind_proc (data_item m ''test_indices'') (\<lambda>v.
         bind_proc (of_res (iterate v)) (\<lambda>test_indices.
         of_res (foldE pop_at test_indices (x, []))))))
     (\<lambda>(x', test_bits).
     bind_proc (exchange_messages P [(str ''test_bits'', bits_val test_bits)] BB84) (\<lambda>m.
     bind_proc (data_item m ''test_bits'') (\<lambda>v.
     bind_proc (of_res (iterate v)) (\<lambda>target.
     bind_proc (exchange_messages P [(str ''fin'', PBool True)] BB84) (\<lambda>r.
     bind_proc (require r ''fin'' ''Error coordinating error estimation'') (\<lambda>_.
     Ret (error_rate test_bits target, x')))))))"

section \<open>Reconciliation\<close>

text \<open>A received syndrome: a list of integers (other values make numpy raise).\<close>

definition syndrome_of :: "pyval \<Rightarrow> vec res" where
  "syndrome_of v = (case v of
     PList xs \<Rightarrow> of_option ValueError (those (map int_of_val xs))
   | _ \<Rightarrow> Inl ValueError)"

fun reconcile_words :: "party \<Rightarrow> vec list \<Rightarrow> vec \<Rightarrow> (vec \<times> vec) proc" where
  "reconcile_words P [] reconciled = Ret ([], reconciled)"
| "reconcile_words P (codeword # rest) reconciled =
     (if length codeword < codeword_length golay then Ret (codeword, reconciled)
      else bind_proc (case role_of P of
          Leader \<Rightarrow> bind_proc (of_res (encode golay codeword)) (\<lambda>s.
            bind_proc (exchange_messages P [(str ''s'', bits_val s)] BB84) (\<lambda>m.
            bind_proc (require m ''ack'' ''Failed to reconcile secrets'') (\<lambda>_. Ret s)))
        | Follower \<Rightarrow> bind_proc (exchange_messages P ack BB84) (\<lambda>m.
            bind_proc (data_item m ''s'') (\<lambda>v. of_res (syndrome_of v))))
      (\<lambda>s. bind_proc (of_res (decode golay codeword s)) (\<lambda>w.
        reconcile_words P rest (reconciled @ w))))"

definition reconcile_information :: "party \<Rightarrow> vec \<Rightarrow> (vec \<times> vec) proc" where
  "reconcile_information P x = reconcile_words P (chunk golay x) []"

section \<open>Privacy amplification\<close>

text \<open>
  \<open>(Y * X[0]).to_bytes(2, 'big')\<close> on a received \<open>Y\<close>: a number that fits; text, bytes, a list
  (repeated) or a float has no such method, nothing else can be multiplied.
\<close>

definition extracted :: "pyval \<Rightarrow> byte \<Rightarrow> bytes res" where
  "extracted Y x0 = (case int_of_val Y of
     Some y \<Rightarrow> to_bytes (y * uint x0) 2
   | None \<Rightarrow> (case Y of PNone \<Rightarrow> Inl TypeError | PDict _ \<Rightarrow> Inl TypeError | _ \<Rightarrow> Inl AttributeError))"

definition amplify_privacy :: "party \<Rightarrow> bytes \<Rightarrow> bytes proc" where
  "amplify_privacy P X =
     (case role_of P of
       Leader \<Rightarrow> Rand 0 255 (\<lambda>Y.
         bind_proc (of_res (extracted (PInt Y) (X ! 0))) (\<lambda>temp.
         bind_proc (exchange_messages P [(str ''Y'', PInt Y),
             (str ''T'', PInt (uint (temp ! 1) + uint (X ! 1)))] BB84) (\<lambda>m.
         bind_proc (data_item m ''ack'') (\<lambda>a.
         if \<not> truthy a then Ret [] else Ret [temp ! 0]))))
     | Follower \<Rightarrow> bind_proc (wait_for_control_message BB84) (\<lambda>m.
         bind_proc (data_item m ''Y'') (\<lambda>Y.
         bind_proc (data_item m ''T'') (\<lambda>T.
         bind_proc (of_res (extracted Y (X ! 0))) (\<lambda>temp.
         if \<not> py_eq T (PInt (uint (X ! 1) + uint (temp ! 1)))
         then bind_proc (send_control_message P [(str ''ack'', PBool False)] BB84) (\<lambda>_. Ret [])
         else bind_proc (send_control_message P ack BB84) (\<lambda>_. Ret [temp ! 0]))))))"

section \<open>The key\<close>

definition distill_tested_data :: "party \<Rightarrow> int list proc" where
  "distill_tested_data P =
     bind_proc (receive_bb84_states P) (\<lambda>(x, theta).
     bind_proc (filter_theta P x theta) (\<lambda>x_remain.
     bind_proc (estimate_error_rate P x_remain) (\<lambda>(rate, x_remain).
     if rate \<ge> MAX_GOLAY_ERROR then Ret [] else Ret x_remain)))"

text \<open>\<open>int(''.join(str(i) ...), 2).to_bytes(2, 'big')\<close> on bits.\<close>

definition bits_bytes :: "int list \<Rightarrow> bytes res" where
  "bits_bytes bs = (if set bs \<subseteq> {0, 1} then to_bytes (foldl (\<lambda>a b. 2 * a + b) 0 bs) 2 else Inl ValueError)"

text \<open>
  The three nested loops, with the source of secret bits as a parameter (\<open>DIQKD\<close> repeats them
  with its own). A turn costs a unit of fuel; each loop has its own.
\<close>

fun collect_bits :: "int list proc \<Rightarrow> nat \<Rightarrow> int list \<Rightarrow> int list proc" where
  "collect_bits distill n secret_bits =
     (if length secret_bits < codeword_length golay then
        (case n of 0 \<Rightarrow> Stuck
         | Suc n' \<Rightarrow> bind_proc distill (\<lambda>d. collect_bits distill n' (secret_bits @ d)))
      else Ret secret_bits)"

fun collect_reconciled :: "party \<Rightarrow> int list proc \<Rightarrow> nat \<Rightarrow> nat \<Rightarrow> int list \<Rightarrow> int list \<Rightarrow> (int list \<times> int list) proc" where
  "collect_reconciled P distill fuel n secret_bits reconciled =
     (if length reconciled < 2 * BYTE_LEN then
        (case n of 0 \<Rightarrow> Stuck
         | Suc n' \<Rightarrow> bind_proc (collect_bits distill fuel secret_bits) (\<lambda>bits.
             bind_proc (reconcile_information P bits) (\<lambda>(secret_bits', reconciled_bits).
             collect_reconciled P distill fuel n' secret_bits' (reconciled @ reconciled_bits))))
      else Ret (secret_bits, reconciled))"

fun collect_key :: "party \<Rightarrow> int list proc \<Rightarrow> nat \<Rightarrow> nat \<Rightarrow> int list \<Rightarrow> int list \<Rightarrow> bytes \<Rightarrow> bytes proc" where
  "collect_key P distill fuel n secret_bits reconciled key =
     bind_proc (of_res (of_option TypeError (int_of_val (key_size P)))) (\<lambda>size.
     if int (length key) < size then
       (case n of 0 \<Rightarrow> Stuck
        | Suc n' \<Rightarrow> bind_proc (collect_reconciled P distill fuel fuel secret_bits reconciled) (\<lambda>(secret_bits', reconciled').
            bind_proc (of_res (bits_bytes (take (2 * BYTE_LEN) reconciled'))) (\<lambda>X.
            bind_proc (amplify_privacy P X) (\<lambda>b.
            collect_key P distill fuel n' secret_bits' (drop (2 * BYTE_LEN) reconciled') (key @ b)))))
     else Ret key)"

declare collect_bits.simps [simp del] collect_reconciled.simps [simp del] collect_key.simps [simp del]

definition execute_with :: "int list proc \<Rightarrow> nat \<Rightarrow> party \<Rightarrow> bytes proc" where
  "execute_with distill fuel P =
     bind_proc (collect_key P distill fuel fuel [] [] []) (\<lambda>key.
     bind_proc (end_protocol P) (\<lambda>_. Ret key))"

definition bb84_execute :: "nat \<Rightarrow> party \<Rightarrow> bytes proc" where
  "bb84_execute fuel P = execute_with (distill_tested_data P) fuel P"

end
