(* ===== verification/BB84_Correct.thy ===== *)
theory BB84_Correct
  imports BB84
begin

text \<open>
  What the purified BB84 protocol achieves when both parties follow it: phase by phase a session
  of leader and follower, then the whole key loop. Each theorem exhibits one run; by
  \<^verbatim>\<open>Process.schedule_independent\<close> every schedule of the same session ends the same way.
\<close>

section \<open>Distribution\<close>

text \<open>One round as a party sees it: the basis it drew and the bit it measured.\<close>

type_synonym round = "int \<times> int"

definition flip_tape :: "int \<Rightarrow> tape" where
  "flip_tape b = (if b \<noteq> 0 then [Num 0] else [])"

definition lead_tape :: "round list \<Rightarrow> tape" where
  "lead_tape rs = concat (map (\<lambda>(b, v). [Num 0, Num 0, Num b] @ flip_tape b @ [Num v]) rs)"

definition follow_tape :: "round list \<Rightarrow> tape" where
  "follow_tape rs = concat (map (\<lambda>(b, v). [Num 0, Num b] @ flip_tape b @ [Num v]) rs)"

definition basis_ok :: "round list \<Rightarrow> bool" where
  "basis_ok rs \<longleftrightarrow> list_all (\<lambda>(b, v). b \<in> {0, 1}) rs"

definition can_request :: "party \<Rightarrow> bool" where
  "can_request L \<longleftrightarrow> (\<exists>b. bindE (mk_message RQQB (me L) (PDict [(str ''user'', peer L)])) encode_message = Inr b)"

lemma request_left:
  assumes "can_request L" "runs (f ()) r t u p' r'"
  shows "runs (bind_proc (requestEPR L) f) r (Num v # t) u p' r'"
proof -
  from assms(1) obtain b where "bindE (mk_message RQQB (me L) (PDict [(str ''user'', peer L)])) encode_message = Inr b"
    unfolding can_request_def by blast
  then have "bind_proc (requestEPR L) f = bind_proc (quantum (RequestEPR (relay_host L) (relay_port L) b)) (\<lambda>_. f ())"
    by (simp add: requestEPR_def bind_proc_assoc)
  with quantum_left [of "\<lambda>_. f ()", OF assms(2)] show ?thesis by simp
qed

lemma flip_left:
  assumes "runs (f ()) r t u p' r'"
  shows "runs (bind_proc (if b \<noteq> 0 then quantum (GateH q) else Ret 0) (\<lambda>_. f ())) r (flip_tape b @ t) u p' r'"
  using assms quantum_left [of "\<lambda>_. f ()", OF assms] by (simp add: flip_tape_def)

lemma flip_right:
  assumes "runs p (f ()) t u p' r'"
  shows "runs p (bind_proc (if b \<noteq> 0 then quantum (GateH q) else Ret 0) (\<lambda>_. f ())) t (flip_tape b @ u) p' r'"
  using assms quantum_right [of p "\<lambda>_. f ()", OF assms] by (simp add: flip_tape_def)

lemma receive_together:
  assumes "paired L F" "can_request L" "length ls = length fs" "basis_ok ls" "basis_ok fs"
  shows "runs (receive_states L (length ls) x th) (receive_states F (length ls) x' th')
    (lead_tape ls) (follow_tape fs)
    (Ret (x @ map snd ls, th @ map fst ls)) (Ret (x' @ map snd fs, th' @ map fst fs))"
  using assms(3-)
proof (induction ls fs arbitrary: x th x' th' rule: list_induct2)
  case Nil
  show ?case by (simp add: lead_tape_def follow_tape_def runs_refl)
next
  case (Cons l ls f fs)
  obtain b v where l: "l = (b, v)" by (cases l)
  obtain b' v' where f: "f = (b', v')" by (cases f)
  have rest: "runs (receive_states L (length ls) (x @ [v]) (th @ [b])) (receive_states F (length ls) (x' @ [v']) (th' @ [b']))
    (lead_tape ls) (follow_tape fs)
    (Ret (x @ map snd (l # ls), th @ map fst (l # ls))) (Ret (x' @ map snd (f # fs), th' @ map fst (f # fs)))"
    using Cons.IH [of "x @ [v]" "th @ [b]" "x' @ [v']" "th' @ [b']"] Cons.prems by (simp add: l f basis_ok_def)
  have b: "0 \<le> b" "b \<le> 1" "0 \<le> b'" "b' \<le> 1" using Cons.prems by (auto simp: l f basis_ok_def)
  have role: "role_of L = Leader" "role_of F = Follower" using assms(1) by (simp_all add: paired_def)
  have tapes: "lead_tape (l # ls) = Num 0 # Num 0 # Num b # flip_tape b @ Num v # lead_tape ls"
    "follow_tape (f # fs) = Num 0 # Num b' # flip_tape b' @ Num v' # follow_tape fs"
    by (simp_all add: lead_tape_def follow_tape_def l f)
  show ?case
    unfolding tapes list.size add_Suc_right add_0_right receive_states.simps role
    by (simp only: role refl if_True role.distinct if_False bind_proc.simps)
      (intro request_left [OF assms(2)] receive_left receive_right rand_left rand_right b flip_left flip_right
        quantum_left quantum_right exchange [OF assms(1)],
       simp only: require_ack bind_proc.simps rest)
qed

section \<open>Sifting\<close>

lemma iterate_bits [simp]: "iterate (bits_val x) = Inr (map PInt x)"
  by (simp add: iterate_def bits_val_def)

lemma py_eq_PInt [simp]: "py_eq (PInt a) (PInt b) \<longleftrightarrow> a = b"
  by (auto simp: py_eq_def int_of_val_def)

definition sifted :: "int list \<Rightarrow> int list \<Rightarrow> int list \<Rightarrow> int list" where
  "sifted x theta theta' = map fst (filter (\<lambda>(bit, basis, basis'). basis = basis') (zip x (zip theta theta')))"

lemma sift_bits: "sift x theta (map PInt theta') = sifted x theta theta'"
  unfolding sift_def sifted_def
proof (induction theta theta' arbitrary: x rule: list_induct2')
  case (4 a theta b theta')
  then show ?case by (cases x) simp_all
qed simp_all

lemma filter_together:
  assumes "paired L F"
  shows "runs (filter_theta L x theta) (filter_theta F x' theta') [] []
    (Ret (sifted x theta theta')) (Ret (sifted x' theta' theta))"
  unfolding filter_theta_def
  by (rule exchange [OF assms]) (simp add: data_item_msg sift_bits runs_refl)

text \<open>Where the bases agree the bits do: then the sifted strings are the same.\<close>

definition matched :: "round list \<Rightarrow> round list \<Rightarrow> bool" where
  "matched ls fs \<longleftrightarrow> length ls = length fs \<and> list_all2 (\<lambda>(b, v) (b', v'). b = b' \<longrightarrow> v = v') ls fs"

lemma matched_sifted:
  assumes "matched ls fs"
  shows "sifted (map snd fs) (map fst fs) (map fst ls) = sifted (map snd ls) (map fst ls) (map fst fs)"
proof -
  have "list_all2 (\<lambda>(b, v) (b', v'). b = b' \<longrightarrow> v = v') ls fs" using assms by (simp add: matched_def)
  then show ?thesis by (induction rule: list_all2_induct) (auto simp: sifted_def)
qed

section \<open>Error estimation\<close>

text \<open>Popping at a list of positions, each inside what is then left.\<close>

fun pops :: "int list \<Rightarrow> nat list \<Rightarrow> int list \<times> int list" where
  "pops x [] = ([], x)"
| "pops x (j # js) = (let (bs, x') = pops (take j x @ drop (Suc j) x) js in (x ! j # bs, x'))"

fun valid_picks :: "nat \<Rightarrow> nat list \<Rightarrow> bool" where
  "valid_picks n [] = True"
| "valid_picks n (j # js) = (j < n \<and> valid_picks (n - 1) js)"

lemma py_pop_nat: "j < length x \<Longrightarrow> py_pop x (int j) = Inr (x ! j, take j x @ drop (Suc j) x)"
  by (simp add: py_pop_def py_index_nonneg)

lemma length_pops:
  "valid_picks (length x) js \<Longrightarrow> length (fst (pops x js)) = length js \<and> length (snd (pops x js)) = length x - length js"
proof (induction js arbitrary: x)
  case (Cons j js)
  then have "length (take j x @ drop (Suc j) x) = length x - 1" by simp
  with Cons.IH [of "take j x @ drop (Suc j) x"] Cons.prems show ?case
    by (simp add: case_prod_beta)
qed simp

lemma pick_together:
  assumes "valid_picks (length x) js" "length js = min n (length x)"
  shows "runs (f (snd (pops x js), bits @ fst (pops x js), idx @ map int js)) r t u p' r' \<longrightarrow>
    runs (bind_proc (pick_tests n x bits idx) f) r (map (\<lambda>j. Num (int j)) js @ t) u p' r'"
  using assms
proof (induction n arbitrary: x js bits idx)
  case 0
  then show ?case by simp
next
  case (Suc n)
  show ?case
  proof (cases "x = []")
    case True
    with Suc.prems show ?thesis by simp
  next
    case False
    then have "0 < length js" using Suc.prems by (cases x) simp_all
    then obtain j ks where js: "js = j # ks" by (cases js) auto
    define y where "y = take j x @ drop (Suc j) x"
    have j: "j < length x" using Suc.prems js by simp
    have y: "length y = length x - 1" using j by (simp add: y_def)
    have pop: "pops x js = (x ! j # fst (pops y ks), snd (pops y ks))"
      by (simp add: js y_def case_prod_beta)
    show ?thesis
    proof
      assume fin: "runs (f (snd (pops x js), bits @ fst (pops x js), idx @ map int js)) r t u p' r'"
      have len: "valid_picks (length y) ks" "length ks = min n (length y)"
        using Suc.prems y by (simp_all add: js)
      have "runs (bind_proc (pick_tests n y (bits @ [x ! j]) (idx @ [int j])) f) r
          (map (\<lambda>j. Num (int j)) ks @ t) u p' r'"
        using Suc.IH [OF len, of "bits @ [x ! j]" "idx @ [int j]"] fin unfolding pop by (simp add: js)
      then show "runs (bind_proc (pick_tests (Suc n) x bits idx) f) r (map (\<lambda>j. Num (int j)) js @ t) u p' r'"
        using j False by (simp add: js) (rule rand_left; simp add: py_pop_nat y_def)
    qed
  qed
qed

lemma follower_pops:
  "valid_picks (length x) js \<Longrightarrow>
   foldE pop_at (map (PInt \<circ> int) js) (x, bits) = Inr (snd (pops x js), bits @ fst (pops x js))"
proof (induction js arbitrary: x bits)
  case (Cons j js)
  then have "pop_at (PInt (int j)) (x, bits) = Inr (take j x @ drop (Suc j) x, bits @ [x ! j])"
    by (simp add: pop_at_def int_of_val_def py_pop_nat)
  moreover have "length (take j x @ drop (Suc j) x) = length x - 1" using Cons.prems by simp
  ultimately show ?case
    using Cons.IH [of "take j x @ drop (Suc j) x" "bits @ [x ! j]"] Cons.prems
    by (simp add: case_prod_beta)
qed simp

text \<open>The rate of differing bits of two test strings.\<close>

definition rate :: "int list \<Rightarrow> int list \<Rightarrow> rat" where
  "rate xs ys = (if xs \<noteq> [] then of_nat (length (filter (\<lambda>(a, b). a \<noteq> b) (zip xs ys))) / of_nat (length xs) else 1)"

lemma error_rate_bits: "error_rate xs (map PInt ys) = rate xs ys"
proof -
  have "count_errors xs (map PInt ys) = length (filter (\<lambda>(a, b). a \<noteq> b) (zip xs ys))"
    unfolding count_errors_def by (induction xs ys rule: list_induct2') simp_all
  then show ?thesis by (simp add: error_rate_def rate_def)
qed

lemma rate_commute: "length xs = length ys \<Longrightarrow> rate ys xs = rate xs ys"
proof -
  assume len: "length xs = length ys"
  have "length (filter (\<lambda>(a, b). a \<noteq> b) (zip ys xs)) = length (filter (\<lambda>(a, b). a \<noteq> b) (zip xs ys))"
    using len by (induction xs ys rule: list_induct2) auto
  with len show ?thesis by (auto simp: rate_def)
qed

lemma rate_same: "xs \<noteq> [] \<Longrightarrow> rate xs xs = 0"
proof -
  have "length (filter (\<lambda>(a, b). a \<noteq> b) (zip xs xs)) = 0" by (induction xs) auto
  then show "xs \<noteq> [] \<Longrightarrow> rate xs xs = 0" by (simp add: rate_def)
qed

lemma estimate_together:
  assumes "paired L F" "length x = length y" "valid_picks (length x) js" "length js = min 25 (length x)"
  shows "runs (estimate_error_rate L x) (estimate_error_rate F y) (map (\<lambda>j. Num (int j)) js) []
    (Ret (rate (fst (pops x js)) (fst (pops y js)), snd (pops x js)))
    (Ret (rate (fst (pops x js)) (fst (pops y js)), snd (pops y js)))"
proof -
  have role: "role_of L = Leader" "role_of F = Follower" using assms(1) by (simp_all add: paired_def)
  have swap: "rate (fst (pops y js)) (fst (pops x js)) = rate (fst (pops x js)) (fst (pops y js))"
    using length_pops [of x js] length_pops [of y js] assms(2,3) by (intro rate_commute) simp
  have fp: "foldE pop_at (map (PInt \<circ> int) js) (y, []) = Inr (snd (pops y js), fst (pops y js))"
    using follower_pops [of y js "[]"] assms(2,3) by simp
  have "runs (estimate_error_rate L x) (estimate_error_rate F y) (map (\<lambda>j. Num (int j)) js @ []) []
    (Ret (rate (fst (pops x js)) (fst (pops y js)), snd (pops x js)))
    (Ret (rate (fst (pops x js)) (fst (pops y js)), snd (pops y js)))"
    unfolding estimate_error_rate_def role role.case bind_proc_assoc ROUND_SIZE_def
    by (rule pick_together [THEN mp], use assms(3,4) in simp, use assms(4) in simp)
      (simp add: bind_proc_assoc, rule exchange [OF assms(1)],
       simp add: require_ack data_item_msg bind_proc_assoc fp, rule exchange [OF assms(1)],
       simp add: data_item_msg, rule exchange [OF assms(1)],
       simp add: require_msg error_rate_bits swap runs_refl)
  then show ?thesis by simp
qed

section \<open>One distillation\<close>

lemma length_sifted:
  "length x = length x' \<Longrightarrow> length (sifted x theta theta') = length (sifted x' theta' theta)"
proof (induction theta theta' arbitrary: x x' rule: list_induct2')
  case (4 a theta b theta')
  then show ?case by (cases x; cases x') (auto simp: sifted_def)
qed (simp_all add: sifted_def)

text \<open>The sifted strings of a list of rounds, from either side.\<close>

definition own_bits :: "round list \<Rightarrow> round list \<Rightarrow> int list" where
  "own_bits mine theirs = sifted (map snd mine) (map fst mine) (map fst theirs)"

definition test_rate :: "round list \<Rightarrow> round list \<Rightarrow> nat list \<Rightarrow> rat" where
  "test_rate ls fs js = rate (fst (pops (own_bits ls fs) js)) (fst (pops (own_bits fs ls) js))"

definition kept :: "int list \<Rightarrow> nat list \<Rightarrow> int list" where
  "kept x js = snd (pops x js)"

text \<open>Rounds and test positions that a session can be given.\<close>

definition session_ok :: "round list \<Rightarrow> round list \<Rightarrow> nat list \<Rightarrow> bool" where
  "session_ok ls fs js \<longleftrightarrow> length ls = 100 \<and> length fs = 100 \<and> basis_ok ls \<and> basis_ok fs
     \<and> valid_picks (length (own_bits ls fs)) js \<and> length js = min 25 (length (own_bits ls fs))"

lemma distill_together:
  assumes "paired L F" "can_request L" "session_ok ls fs js"
  defines "r \<equiv> test_rate ls fs js"
  shows "runs (distill_tested_data L) (distill_tested_data F)
    (lead_tape ls @ map (\<lambda>j. Num (int j)) js) (follow_tape fs)
    (Ret (if 3 / 23 \<le> r then [] else kept (own_bits ls fs) js))
    (Ret (if 3 / 23 \<le> r then [] else kept (own_bits fs ls) js))"
proof -
  have ok: "length ls = 100" "length ls = length fs" "basis_ok ls" "basis_ok fs"
    "valid_picks (length (own_bits ls fs)) js" "length js = min 25 (length (own_bits ls fs))"
    using assms(3) by (simp_all add: session_ok_def)
  have eq: "length (own_bits ls fs) = length (own_bits fs ls)"
    unfolding own_bits_def by (rule length_sifted) (simp add: ok(2))
  have 1: "runs (receive_bb84_states L) (receive_bb84_states F) (lead_tape ls) (follow_tape fs)
      (Ret (map snd ls, map fst ls)) (Ret (map snd fs, map fst fs))"
    using receive_together [OF assms(1,2) ok(2-4), of "[]" "[]" "[]" "[]"] ok(1)
    by (simp add: receive_bb84_states_def ROUND_SIZE_def)
  have 2: "runs (filter_theta L (map snd ls) (map fst ls)) (filter_theta F (map snd fs) (map fst fs)) [] []
      (Ret (own_bits ls fs)) (Ret (own_bits fs ls))"
    unfolding own_bits_def by (rule filter_together [OF assms(1)])
  have 3: "runs (estimate_error_rate L (own_bits ls fs)) (estimate_error_rate F (own_bits fs ls))
      (map (\<lambda>j. Num (int j)) js) [] (Ret (r, kept (own_bits ls fs) js)) (Ret (r, kept (own_bits fs ls) js))"
    unfolding r_def test_rate_def kept_def by (rule estimate_together [OF assms(1) eq ok(5,6)])
  have "runs (distill_tested_data L) (distill_tested_data F)
      (lead_tape ls @ [] @ map (\<lambda>j. Num (int j)) js @ []) (follow_tape fs @ [] @ [] @ [])
      (Ret (if 3 / 23 \<le> r then [] else kept (own_bits ls fs) js))
      (Ret (if 3 / 23 \<le> r then [] else kept (own_bits fs ls) js))"
    unfolding distill_tested_data_def
    by (rule runs_seq [OF 1], simp only: prod.case, rule runs_seq [OF 2], rule runs_seq [OF 3])
      (simp add: MAX_GOLAY_ERROR_def runs_refl)
  then show ?thesis by simp
qed

text \<open>
  C24. Both parties of a session judge a distillation alike: from any measured rounds, noisy or
  not, and any test positions the leader draws, they compute the same error rate, so they both
  drop the round or both keep their sifted strings with the same positions removed, which have
  the same length.
\<close>

theorem distillation_agrees:
  assumes "paired L F" "can_request L" "session_ok ls fs js"
  shows "\<exists>xl xf. runs (distill_tested_data L) (distill_tested_data F)
      (lead_tape ls @ map (\<lambda>j. Num (int j)) js) (follow_tape fs) (Ret xl) (Ret xf)
    \<and> length xl = length xf
    \<and> (if test_rate ls fs js \<ge> 3 / 23 then xl = [] \<and> xf = []
       else xl = kept (own_bits ls fs) js \<and> xf = kept (own_bits fs ls) js)"
proof -
  have eq: "length (own_bits ls fs) = length (own_bits fs ls)"
    unfolding own_bits_def by (rule length_sifted) (use assms(3) in \<open>simp add: session_ok_def\<close>)
  then have "length (kept (own_bits ls fs) js) = length (kept (own_bits fs ls) js)"
    using length_pops [of "own_bits ls fs" js] length_pops [of "own_bits fs ls" js] assms(3)
    by (simp add: kept_def session_ok_def)
  then show ?thesis
    by - (intro exI, intro conjI, rule distill_together [OF assms], simp_all)
qed

section \<open>Reconciliation\<close>

lemma syndrome_bits [simp]: "syndrome_of (bits_val s) = Inr s"
proof -
  have "those (map int_of_val (map PInt s)) = Some s"
    by (induction s) (simp_all add: int_of_val_def)
  then show ?thesis by (simp add: syndrome_of_def bits_val_def o_def)
qed

lemma golay_length [simp]: "codeword_length golay = 23"
proof -
  have "table_ok golay" by (rule golay_init_ok)
  then show ?thesis by (simp add: table_ok_def)
qed

text \<open>Strings that differ in at most three places of every full code word.\<close>

fun close :: "vec list \<Rightarrow> vec list \<Rightarrow> bool" where
  "close [] [] = True"
| "close (x # xs) (y # ys) = (length x = length y \<and> bin x \<and> bin y \<and> (length x = 23 \<longrightarrow> hdist x y \<le> 3) \<and> close xs ys)"
| "close _ _ = False"

fun full_words :: "vec list \<Rightarrow> vec list" where
  "full_words [] = []"
| "full_words (x # xs) = (if length x < 23 then [] else x # full_words xs)"

fun rest_word :: "vec list \<Rightarrow> vec" where
  "rest_word [] = []"
| "rest_word (x # xs) = (if length x < 23 then x else rest_word xs)"

lemma reconcile_words_together:
  assumes "paired L F" "close xs ys" "list_all (\<lambda>x. length x \<le> 23) xs"
  shows "runs (reconcile_words L xs acc) (reconcile_words F ys acc) [] []
    (Ret (rest_word xs, acc @ concat (full_words xs))) (Ret (rest_word ys, acc @ concat (full_words xs)))"
  using assms(2,3)
proof (induction xs ys arbitrary: acc rule: close.induct)
  case 1
  show ?case by (simp add: runs_refl)
next
  case (2 x xs y ys)
  have role: "role_of L = Leader" "role_of F = Follower" using assms(1) by (simp_all add: paired_def)
  show ?case
  proof (cases "length x < 23")
    case True
    with 2 show ?thesis by (simp add: runs_refl)
  next
    case False
    then have len: "length x = 23" "length y = 23" using 2 by auto
    from golay_code.enc_total [OF len(1)] obtain s where s: "encode golay x = Inr s" by blast
    have dl: "decode golay x s = Inr x"
      by (rule golay_code.own_word) (use len 2 s in auto)
    have df: "decode golay y s = Inr x"
      by (rule golay_code.corrects [OF len(2,1) _ _ _ s]) (use len 2 in \<open>auto simp: hdist_commute\<close>)
    have rest: "runs (reconcile_words L xs (acc @ x)) (reconcile_words F ys (acc @ x)) [] []
        (Ret (rest_word xs, acc @ x @ concat (full_words xs))) (Ret (rest_word ys, acc @ x @ concat (full_words xs)))"
      using 2(1) [of "acc @ x"] 2(2,3) len by simp
    show ?thesis
      using len
      by (simp add: role s bind_proc_assoc)
        (rule exchange [OF assms(1)], simp add: require_ack data_item_msg dl df,
         use rest in simp)
  qed
qed auto

lemma chunk_words:
  assumes "length x = length y" "bin x" "bin y" "\<forall>i. hdist (take 23 (drop (23 * i) x)) (take 23 (drop (23 * i) y)) \<le> 3"
  shows "close (chunk golay x) (chunk golay y)"
  using assms
proof (induction "length x" arbitrary: x y rule: less_induct)
  case less
  show ?case
  proof (cases "x = []")
    case True
    with less.prems show ?thesis by simp
  next
    case False
    then have ne: "y \<noteq> []" using less.prems(1) by auto
    have bin_sub: "bin (take 23 z)" "bin (drop 23 z)" if "bin z" for z
      using that by (auto simp: bin_def dest: in_set_takeD in_set_dropD)
    have "hdist (take 23 (drop (23 * i) (drop 23 x))) (take 23 (drop (23 * i) (drop 23 y))) \<le> 3" for i
      using less.prems(4) [rule_format, of "Suc i"] by (simp add: add.commute)
    then have "close (chunk golay (drop 23 x)) (chunk golay (drop 23 y))"
      using less.hyps [of "drop 23 x" "drop 23 y"] less.prems bin_sub False ne by simp
    moreover have "hdist (take 23 x) (take 23 y) \<le> 3" using less.prems(4) [rule_format, of 0] by simp
    ultimately show ?thesis
      using chunk_step [of golay x] chunk_step [of golay y] False ne less.prems bin_sub by simp
  qed
qed

lemma chunk_parts:
  "list_all (\<lambda>w. length w \<le> 23) (chunk golay x)
   \<and> concat (full_words (chunk golay x)) = take (23 * (length x div 23)) x
   \<and> rest_word (chunk golay x) = drop (23 * (length x div 23)) x"
proof (induction "length x" arbitrary: x rule: less_induct)
  case less
  show ?case
  proof (cases "length x < 23")
    case True
    then show ?thesis
      by (cases "x = []") (simp_all add: chunk_small)
  next
    case False
    then have "x \<noteq> []" by auto
    define y where "y = drop 23 x"
    have x: "x = take 23 x @ y" and ly: "length y < length x" "length x = 23 + length y"
      using False by (simp_all add: y_def)
    have div: "length x div 23 = Suc (length y div 23)" by (simp add: ly(2))
    have "take (23 * (length x div 23)) x = take 23 x @ take (23 * (length y div 23)) y"
      "drop (23 * (length x div 23)) x = drop (23 * (length y div 23)) y"
      using False by (subst x, simp add: div)+
    then show ?thesis
      using less [OF ly(1)] chunk_step [of golay x] \<open>x \<noteq> []\<close> False
      by (simp add: y_def [symmetric])
  qed
qed

lemma reconcile_together:
  assumes "paired L F" "length x = length y" "bin x" "bin y"
    and "\<forall>i. hdist (take 23 (drop (23 * i) x)) (take 23 (drop (23 * i) y)) \<le> 3"
  defines "n \<equiv> 23 * (length x div 23)"
  shows "runs (reconcile_information L x) (reconcile_information F y) [] []
    (Ret (drop n x, take n x)) (Ret (drop n y, take n x))"
  using reconcile_words_together [OF assms(1) chunk_words [OF assms(2-5)], of "[]"]
    chunk_parts [of x] chunk_parts [of y] assms(2)
  by (simp add: reconcile_information_def n_def)

text \<open>
  C20. Reconciliation makes the two strings equal: when each code word of the follower's string is
  within three bit errors of the leader's, both end with the leader's bits of all full code
  words, and each keeps the rest of its own string, of the same length.
\<close>

theorem reconciliation_agrees:
  assumes "paired L F" "length x = length y" "bin x" "bin y"
    and "\<forall>i. hdist (take 23 (drop (23 * i) x)) (take 23 (drop (23 * i) y)) \<le> 3"
  shows "runs (reconcile_information L x) (reconcile_information F y) [] []
    (Ret (drop (23 * (length x div 23)) x, take (23 * (length x div 23)) x))
    (Ret (drop (23 * (length x div 23)) y, take (23 * (length x div 23)) x))"
  using reconcile_together [OF assms] .

section \<open>Privacy amplification\<close>

lemma two_bytes:
  assumes "0 \<le> y" "y \<le> 255"
  shows "extracted (PInt y) x = Inr [of_nat (nat (y * uint x) div 256 mod 256), of_nat (nat (y * uint x) mod 256)]"
proof -
  have "0 \<le> y * uint x" using assms(1) by simp
  moreover have "y * uint x < 65536"
  proof -
    have "uint x = int (unat x)" by simp
    then have "uint x \<le> 255" using unat_byte_less [of x] by linarith
    then have "y * uint x \<le> 255 * 255" using assms by (intro mult_mono) simp_all
    then show ?thesis by simp
  qed
  ultimately show ?thesis
    by (simp add: extracted_def int_of_val_def to_bytes_def numeral_2_eq_2)
qed

text \<open>What a leader with \<open>X\<close> and a follower with \<open>Z\<close> come to, from the seed \<open>y\<close>.\<close>

definition seed_bytes :: "int \<Rightarrow> byte \<Rightarrow> bytes" where
  "seed_bytes y x = [of_nat (nat (y * uint x) div 256 mod 256), of_nat (nat (y * uint x) mod 256)]"

definition key_tag :: "int \<Rightarrow> bytes \<Rightarrow> int" where
  "key_tag y X = uint (seed_bytes y (X ! 0) ! 1) + uint (X ! 1)"

lemma amplify_together:
  assumes "paired L F" "0 \<le> y" "y \<le> 255"
  shows "runs (amplify_privacy L X) (amplify_privacy F Z) [Num y] []
    (Ret (if key_tag y X = key_tag y Z then [seed_bytes y (X ! 0) ! 0] else []))
    (Ret (if key_tag y X = key_tag y Z then [seed_bytes y (Z ! 0) ! 0] else []))"
proof -
  have role: "role_of L = Leader" "role_of F = Follower" using assms(1) by (simp_all add: paired_def)
  note ex = two_bytes [OF assms(2,3), folded seed_bytes_def]
  have len: "length (me L) \<le> 16" "length (me F) \<le> 16" using assms(1) by (simp_all add: paired_def)
  show ?thesis
    unfolding amplify_privacy_def role role.case
    by (rule rand_left [OF assms(2,3)])
      (auto simp: ex exchange_messages_def role send_control [OF len(1)] send_control [OF len(2)] wait_control
        wait_for_control_message_def data_item_msg ack_def key_tag_def add.commute
        intro!: runs_send_right runs_send_left runs_refl)
qed

text \<open>
  Privacy amplification accepts exactly when the two tags are equal. From equal reconciled
  bytes it always does, and both parties append the same byte; otherwise neither appends one.
\<close>

theorem amplification_agrees:
  assumes "paired L F" "0 \<le> y" "y \<le> 255"
  shows "runs (amplify_privacy L X) (amplify_privacy F X) [Num y] []
      (Ret [seed_bytes y (X ! 0) ! 0]) (Ret [seed_bytes y (X ! 0) ! 0])
    \<and> (key_tag y X \<noteq> key_tag y Z \<longrightarrow>
       runs (amplify_privacy L X) (amplify_privacy F Z) [Num y] [] (Ret []) (Ret []))"
  using amplify_together [OF assms, of X X] amplify_together [OF assms, of X Z] by auto


section \<open>Instances\<close>

lemma demo_request_frame:
  "encode_message \<lparr>msg_class = RQQB, msg_sender = str ''Alice'', msg_data = PDict [(str ''user'', PStr (str ''Bob''))]\<rparr>
    = Inr (lit ''RQQB'' @ replicate 11 0 @ lit ''Alice'' @ [0, 0, 0, 15] @
        map (\<lambda>b. if b = 42 then 34 else b) (lit ''{*user*: *Bob*}''))"
  by (simp add: wire_eval)

lemma demo_can_request: "can_request (demo_party k Leader n)"
  using demo_request_frame
  by (simp add: can_request_def demo_party_def mk_message_def unpack_message_data_def str_def)

text \<open>A session in which both measure 0 in the same basis every time, tested at the front.\<close>

definition demo_rounds :: "round list" where
  "demo_rounds = replicate 100 (0, 0)"

definition demo_picks :: "nat list" where
  "demo_picks = replicate 25 0"

lemma demo_own_bits: "own_bits demo_rounds demo_rounds = replicate 100 0"
proof -
  have "sifted (replicate n v) (replicate n b) (replicate n b) = replicate n v" for n v b
    by (induction n) (simp_all add: sifted_def)
  then show ?thesis by (simp add: own_bits_def demo_rounds_def)
qed

lemma valid_picks_front: "k \<le> n \<Longrightarrow> valid_picks n (replicate k 0)"
  by (induction k arbitrary: n) auto

lemma demo_session_ok: "session_ok demo_rounds demo_rounds demo_picks"
  using valid_picks_front [of 25 100]
  by (simp add: session_ok_def demo_own_bits demo_picks_def) (simp add: demo_rounds_def basis_ok_def list_all_iff)

theorem distillation_agrees_witness:
  "\<exists>xl xf. runs (distill_tested_data (demo_party BB84_PURIFIED Leader (PInt 1)))
      (distill_tested_data (demo_party BB84_PURIFIED Follower (PInt 1)))
      (lead_tape demo_rounds @ map (\<lambda>j. Num (int j)) demo_picks) (follow_tape demo_rounds) (Ret xl) (Ret xf)
    \<and> length xl = length xf"
  using distillation_agrees [OF demo_paired demo_can_request demo_session_ok] by blast

theorem reconciliation_agrees_witness:
  "runs (reconcile_information (demo_party BB84_PURIFIED Leader (PInt 1)) (replicate 23 1 @ [0]))
    (reconcile_information (demo_party BB84_PURIFIED Follower (PInt 1)) (0 # replicate 22 1 @ [1])) [] []
    (Ret ([0], replicate 23 1)) (Ret ([1], replicate 23 1))"
proof -
  have near: "\<forall>i. hdist (take 23 (drop (23 * i) (replicate 23 1 @ [0]))) (take 23 (drop (23 * i) (0 # replicate 22 1 @ [1]))) \<le> 3"
  proof
    fix i :: nat
    consider "i = 0" | "i = 1" | "2 \<le> i" by linarith
    then show "hdist (take 23 (drop (23 * i) (replicate 23 1 @ [0]))) (take 23 (drop (23 * i) (0 # replicate 22 1 @ [1]))) \<le> 3"
      by cases (simp_all add: hdist_def numeral_eq_Suc)
  qed
  show ?thesis
    using reconciliation_agrees [OF demo_paired _ _ _ near, of BB84_PURIFIED "PInt 1"]
    by (simp add: bin_def)
qed

theorem amplification_agrees_witness:
  "runs (amplify_privacy (demo_party BB84_PURIFIED Leader (PInt 1)) [200, 2])
      (amplify_privacy (demo_party BB84_PURIFIED Follower (PInt 1)) [200, 2]) [Num 3] [] (Ret [2]) (Ret [2])
   \<and> runs (amplify_privacy (demo_party BB84_PURIFIED Leader (PInt 1)) [200, 2])
      (amplify_privacy (demo_party BB84_PURIFIED Follower (PInt 1)) [200, 5]) [Num 3] [] (Ret []) (Ret [])"
  using amplification_agrees [OF demo_paired, of 3 BB84_PURIFIED "PInt 1" "[200, 2]" "[200, 5]"]
  by (simp add: seed_bytes_def key_tag_def)


end
