(* ===== verification/BB84_Key.thy ===== *)
theory BB84_Key
  imports BB84_Correct
begin

text \<open>
  The key loop of the BB84 protocol as a session: from a supply of rounds with no more errors than
  the Golay code corrects, both parties put together the same key, of exactly the requested
  length, within a bounded number of turns.
\<close>

section \<open>The loops over a supply of rounds\<close>

text \<open>
  A supply: the \<open>i\<close>-th distillation uses the tapes \<open>lt i\<close> and \<open>ft i\<close> and gives the parties the
  bits \<open>lb i\<close> and \<open>fb i\<close>, at least one and equally many. They need not be equal: what counts is
  that no code word, cut from the bits of all rounds put together, has more than three errors.
\<close>

definition stream_to :: "(nat \<Rightarrow> int list) \<Rightarrow> nat \<Rightarrow> int list" where
  "stream_to b i = concat (map b [0..<i])"

definition correctable :: "(nat \<Rightarrow> int list) \<Rightarrow> (nat \<Rightarrow> int list) \<Rightarrow> bool" where
  "correctable lb fb \<longleftrightarrow>
     (\<forall>i k. hdist (take 23 (drop (23 * k) (stream_to lb i))) (take 23 (drop (23 * k) (stream_to fb i))) \<le> 3)"

definition round_supply :: "int list proc \<Rightarrow> int list proc \<Rightarrow> (nat \<Rightarrow> tape) \<Rightarrow> (nat \<Rightarrow> tape)
    \<Rightarrow> (nat \<Rightarrow> int list) \<Rightarrow> (nat \<Rightarrow> int list) \<Rightarrow> bool" where
  "round_supply dl df lt ft lb fb \<longleftrightarrow> correctable lb fb \<and>
     (\<forall>i. runs dl df (lt i) (ft i) (Ret (lb i)) (Ret (fb i)) \<and> bin (lb i) \<and> bin (fb i)
       \<and> length (lb i) = length (fb i) \<and> lb i \<noteq> [])"

lemma correctable_same: "correctable b b"
  by (simp add: correctable_def)

definition span :: "(nat \<Rightarrow> tape) \<Rightarrow> nat \<Rightarrow> nat \<Rightarrow> tape" where
  "span lt i j = concat (map lt [i..<j])"

lemma span_empty [simp]: "span lt i i = []"
  by (simp add: span_def)

lemma span_step: "i < j \<Longrightarrow> span lt i j = lt i @ span lt (Suc i) j"
  by (simp add: span_def upt_conv_Cons)

lemma bin_append [simp]: "bin (x @ y) \<longleftrightarrow> bin x \<and> bin y"
  by (auto simp: bin_def)

lemma bin_take_drop: "bin x \<Longrightarrow> bin (take n x)" "bin x \<Longrightarrow> bin (drop n x)"
  by (auto simp: bin_def dest: in_set_takeD in_set_dropD)

text \<open>
  What the parties hold before a turn: the bits of the first \<open>i\<close> rounds without the code words
  that were reconciled. The code words stay aligned, because only whole ones are taken.
\<close>

definition unreconciled :: "(nat \<Rightarrow> int list) \<Rightarrow> (nat \<Rightarrow> int list) \<Rightarrow> nat \<Rightarrow> int list \<Rightarrow> int list \<Rightarrow> bool" where
  "unreconciled lb fb i s z \<longleftrightarrow> (\<exists>c. 23 * c \<le> length (stream_to lb i)
     \<and> s = drop (23 * c) (stream_to lb i) \<and> z = drop (23 * c) (stream_to fb i))"

lemma unreconciled_start: "unreconciled lb fb 0 [] []"
  by (simp add: unreconciled_def stream_to_def)

lemma supply_stream:
  assumes "round_supply dl df lt ft lb fb"
  shows "length (stream_to lb i) = length (stream_to fb i) \<and> bin (stream_to lb i) \<and> bin (stream_to fb i)"
proof (induction i)
  case 0
  show ?case by (simp add: stream_to_def bin_def)
next
  case (Suc i)
  then show ?case using assms by (simp add: stream_to_def round_supply_def)
qed

lemma unreconciled_facts:
  assumes "round_supply dl df lt ft lb fb" "unreconciled lb fb i s z"
  shows "length s = length z" "bin s" "bin z"
    "\<forall>k. hdist (take 23 (drop (23 * k) s)) (take 23 (drop (23 * k) z)) \<le> 3"
proof -
  from assms(2) obtain c where c: "s = drop (23 * c) (stream_to lb i)" "z = drop (23 * c) (stream_to fb i)"
    by (auto simp: unreconciled_def)
  show "length s = length z" "bin s" "bin z"
    using supply_stream [OF assms(1), of i] by (simp_all add: c bin_take_drop)
  have "correctable lb fb" using assms(1) by (simp add: round_supply_def)
  then have "hdist (take 23 (drop (23 * (k + c)) (stream_to lb i))) (take 23 (drop (23 * (k + c)) (stream_to fb i))) \<le> 3" for k
    unfolding correctable_def by blast
  then show "\<forall>k. hdist (take 23 (drop (23 * k) s)) (take 23 (drop (23 * k) z)) \<le> 3"
    by (simp add: c add_mult_distrib2)
qed

lemma unreconciled_round:
  assumes "round_supply dl df lt ft lb fb" "unreconciled lb fb i s z"
  shows "unreconciled lb fb (Suc i) (s @ lb i) (z @ fb i)"
proof -
  from assms(2) obtain c where "23 * c \<le> length (stream_to lb i)"
    "s = drop (23 * c) (stream_to lb i)" "z = drop (23 * c) (stream_to fb i)" by (auto simp: unreconciled_def)
  with supply_stream [OF assms(1), of i] show ?thesis
    by (auto simp: unreconciled_def stream_to_def intro!: exI [of _ c])
qed

lemma unreconciled_words:
  assumes "unreconciled lb fb i s z" "23 * n \<le> length s"
  shows "unreconciled lb fb i (drop (23 * n) s) (drop (23 * n) z)"
proof -
  from assms(1) obtain c where "23 * c \<le> length (stream_to lb i)"
    "s = drop (23 * c) (stream_to lb i)" "z = drop (23 * c) (stream_to fb i)" by (auto simp: unreconciled_def)
  with assms(2) show ?thesis
    unfolding unreconciled_def by (intro exI [of _ "c + n"]) (auto simp: add_mult_distrib2 add.commute)
qed

lemma collect_bits_together:
  assumes "round_supply dl df lt ft lb fb" "unreconciled lb fb i s z" "23 \<le> length s + n"
  shows "\<exists>j s' z'. unreconciled lb fb j s' z' \<and> 23 \<le> length s' \<and> i \<le> j \<and>
    runs (collect_bits dl n s) (collect_bits df n z) (span lt i j) (span ft i j) (Ret s') (Ret z')"
  using assms(2,3)
proof (induction n arbitrary: s z i)
  case 0
  note len = unreconciled_facts(1) [OF assms(1) 0(1)]
  with 0 have "runs (collect_bits dl 0 s) (collect_bits df 0 z) [] [] (Ret s) (Ret z)"
    by (simp add: collect_bits.simps runs_refl)
  with 0 show ?case by (intro exI [of _ i] exI [of _ s] exI [of _ z]) simp
next
  case (Suc n)
  note len = unreconciled_facts(1) [OF assms(1) Suc.prems(1)]
  show ?case
  proof (cases "length s < 23")
    case False
    with len have "runs (collect_bits dl (Suc n) s) (collect_bits df (Suc n) z) [] [] (Ret s) (Ret z)"
      by (simp add: collect_bits.simps runs_refl)
    with Suc False show ?thesis by (intro exI [of _ i] exI [of _ s] exI [of _ z]) simp
  next
    case True
    from assms(1) have r: "runs dl df (lt i) (ft i) (Ret (lb i)) (Ret (fb i))" "lb i \<noteq> []"
      by (simp_all add: round_supply_def)
    have "1 \<le> length (lb i)" using r(2) by (cases "lb i") simp_all
    then have "23 \<le> length (s @ lb i) + n" using Suc.prems(2) by simp
    from Suc.IH [OF unreconciled_round [OF assms(1) Suc.prems(1)] this] obtain j s' z' where
      j: "Suc i \<le> j" "unreconciled lb fb j s' z'" "23 \<le> length s'"
      and rest: "runs (collect_bits dl n (s @ lb i)) (collect_bits df n (z @ fb i))
        (span lt (Suc i) j) (span ft (Suc i) j) (Ret s') (Ret z')" by blast
    have "runs (collect_bits dl (Suc n) s) (collect_bits df (Suc n) z)
        (lt i @ span lt (Suc i) j) (ft i @ span ft (Suc i) j) (Ret s') (Ret z')"
      using True len runs_seq [OF r(1), of "\<lambda>d. collect_bits dl n (s @ d)" "\<lambda>d. collect_bits df n (z @ d)"] rest
      by (simp add: collect_bits.simps [of _ "Suc n"])
    with j show ?thesis by (intro exI [of _ j] exI [of _ s'] exI [of _ z']) (simp add: span_step)
  qed
qed

lemma collect_reconciled_together:
  assumes "paired L F" "round_supply dl df lt ft lb fb" "unreconciled lb fb i s z" "bin c" "23 \<le> fuel"
  shows "\<exists>j s' z' c'. unreconciled lb fb j s' z' \<and> bin c' \<and> 16 \<le> length c' \<and>
    runs (collect_reconciled L dl fuel fuel s c) (collect_reconciled F df fuel fuel z c)
      (span lt i j) (span ft i j) (Ret (s', c')) (Ret (z', c'))"
proof (cases "length c < 16")
  case False
  then have "runs (collect_reconciled L dl fuel fuel s c) (collect_reconciled F df fuel fuel z c) [] []
      (Ret (s, c)) (Ret (z, c))"
    by (simp add: collect_reconciled.simps BYTE_LEN_def runs_refl)
  with assms(3,4) False show ?thesis
    by (intro exI [of _ i] exI [of _ s] exI [of _ z] exI [of _ c]) simp
next
  case True
  from collect_bits_together [OF assms(2,3), of fuel] assms(5) obtain j s1 z1 where
    j: "unreconciled lb fb j s1 z1" "23 \<le> length s1"
    and 1: "runs (collect_bits dl fuel s) (collect_bits df fuel z) (span lt i j) (span ft i j) (Ret s1) (Ret z1)"
    by auto
  note facts = unreconciled_facts [OF assms(2) j(1)]
  define n where "n = 23 * (length s1 div 23)"
  have n: "23 \<le> n" "n \<le> length s1" using j(2) by (simp_all add: n_def)
  have 2: "runs (reconcile_information L s1) (reconcile_information F z1) [] []
      (Ret (drop n s1, take n s1)) (Ret (drop n z1, take n s1))"
    using reconcile_together [OF assms(1) facts] by (simp add: n_def)
  obtain m where m: "fuel = Suc m" using assms(5) by (cases fuel) simp_all
  have "\<not> length (c @ take n s1) < 16" using n by simp
  then have 3: "runs (collect_reconciled L dl fuel m (drop n s1) (c @ take n s1))
      (collect_reconciled F df fuel m (drop n z1) (c @ take n s1)) [] []
      (Ret (drop n s1, c @ take n s1)) (Ret (drop n z1, c @ take n s1))"
    by (simp add: collect_reconciled.simps BYTE_LEN_def runs_refl)
  have turn: "collect_reconciled P d fuel fuel x c = bind_proc (collect_bits d fuel x) (\<lambda>bits.
      bind_proc (reconcile_information P bits) (\<lambda>(s', r). collect_reconciled P d fuel m s' (c @ r)))" for P d x
    using True by (subst collect_reconciled.simps) (simp add: BYTE_LEN_def m)
  have "runs (collect_reconciled L dl fuel fuel s c) (collect_reconciled F df fuel fuel z c)
      (span lt i j @ [] @ []) (span ft i j @ [] @ [])
      (Ret (drop n s1, c @ take n s1)) (Ret (drop n z1, c @ take n s1))"
    unfolding turn
    by (rule runs_seq [OF 1], rule runs_seq [OF 2]) (simp add: 3)
  moreover have "unreconciled lb fb j (drop n s1) (drop n z1)"
    unfolding n_def by (rule unreconciled_words [OF j(1)]) simp
  ultimately show ?thesis using assms(4) facts(2) n
    by (intro exI [of _ j] exI [of _ "drop n s1"] exI [of _ "drop n z1"] exI [of _ "c @ take n s1"]) (simp add: bin_take_drop)
qed

text \<open>The leader's tape of the key loop: before each seed the rounds that its byte needed.\<close>

fun key_tape :: "(nat \<Rightarrow> tape) \<Rightarrow> nat \<Rightarrow> (nat \<times> int) list \<Rightarrow> tape" where
  "key_tape lt i [] = []"
| "key_tape lt i ((j, y) # js) = span lt i j @ Num y # key_tape lt j js"

fun rounds_tape :: "(nat \<Rightarrow> tape) \<Rightarrow> nat \<Rightarrow> nat list \<Rightarrow> tape" where
  "rounds_tape ft i [] = []"
| "rounds_tape ft i (j # js) = span ft i j @ rounds_tape ft j js"

definition seed_ok :: "int \<Rightarrow> bool" where
  "seed_ok y \<longleftrightarrow> 0 \<le> y \<and> y \<le> 255"

lemma bits_bytes_total:
  assumes "bin b" "length b = 16"
  shows "\<exists>X. bits_bytes b = Inr X"
proof -
  have bound: "0 \<le> a \<Longrightarrow> 0 \<le> foldl (\<lambda>a b. 2 * a + b) a bs \<and> foldl (\<lambda>a b. 2 * a + b) a bs < (a + 1) * 2 ^ length bs"
    if "bin bs" for a :: int and bs
    using that
  proof (induction bs arbitrary: a)
    case (Cons b bs)
    then have b: "b = 0 \<or> b = 1" "bin bs" by (auto simp: bin_def)
    have "0 \<le> 2 * a + b" using Cons.prems(1) b by auto
    from Cons.IH [OF this b(2)] have
      "0 \<le> foldl (\<lambda>a b. 2 * a + b) (2 * a + b) bs" "foldl (\<lambda>a b. 2 * a + b) (2 * a + b) bs < (2 * a + b + 1) * 2 ^ length bs"
      by simp_all
    moreover have "(2 * a + b + 1) * 2 ^ length bs \<le> (a + 1) * 2 ^ length (b # bs)"
    proof -
      have "2 * a + b + 1 \<le> (a + 1) * 2" using b(1) by auto
      then have "(2 * a + b + 1) * 2 ^ length bs \<le> ((a + 1) * 2) * 2 ^ length bs"
        by (rule mult_right_mono) simp
      then show ?thesis by (simp add: mult.assoc)
    qed
    ultimately show ?case unfolding foldl.simps by linarith
  qed simp
  from bound [OF assms(1), of 0] assms(2) have "0 \<le> foldl (\<lambda>a b. 2 * a + b) 0 b" "foldl (\<lambda>a b. 2 * a + b) 0 b < 65536"
    by simp_all
  moreover have "set b \<subseteq> {0, 1}" using assms(1) by (simp add: bin_def)
  ultimately show ?thesis by (simp add: bits_bytes_def to_bytes_def)
qed

lemma collect_key_together:
  assumes "paired L F" "round_supply dl df lt ft lb fb" "23 \<le> fuel"
    and "key_size L = PInt len" "key_size F = PInt len"
    and "unreconciled lb fb i s z" "bin c" "list_all seed_ok ys" "int (length key) + int (length ys) = len" "length ys \<le> n"
  shows "\<exists>js key'. length js = length ys \<and> length key' = length ys \<and>
    runs (collect_key L dl fuel n s c key) (collect_key F df fuel n z c key)
      (key_tape lt i (zip js ys)) (rounds_tape ft i js) (Ret (key @ key')) (Ret (key @ key'))"
  using assms(6-)
proof (induction ys arbitrary: n s z c key i)
  case Nil
  then have "runs (collect_key L dl fuel n s c key) (collect_key F df fuel n z c key) [] [] (Ret key) (Ret key)"
    using assms(4,5) by (simp add: collect_key.simps int_of_val_def runs_refl)
  then show ?case by (intro exI [of _ "[]"]) simp
next
  case (Cons y ys)
  obtain m where m: "n = Suc m" "length ys \<le> m" using Cons.prems(5) by (cases n) simp_all
  from collect_reconciled_together [OF assms(1,2) Cons.prems(1,2) assms(3)] obtain j s' z' c' where
    j: "unreconciled lb fb j s' z'" "bin c'" "16 \<le> length c'"
    and 1: "runs (collect_reconciled L dl fuel fuel s c) (collect_reconciled F df fuel fuel z c)
      (span lt i j) (span ft i j) (Ret (s', c')) (Ret (z', c'))" by blast
  from bits_bytes_total [of "take 16 c'"] j obtain X where X: "bits_bytes (take 16 c') = Inr X"
    by (auto simp: bin_take_drop)
  have y: "0 \<le> y" "y \<le> 255" using Cons.prems(3) by (simp_all add: seed_ok_def)
  define b where "b = seed_bytes y (X ! 0) ! 0"
  have 2: "runs (amplify_privacy L X) (amplify_privacy F X) [Num y] [] (Ret [b]) (Ret [b])"
    using amplify_together [OF assms(1) y, of X X] by (simp add: b_def)
  have ok: "bin (drop 16 c')" "list_all seed_ok ys" "int (length (key @ [b])) + int (length ys) = len"
    using j Cons.prems by (simp_all add: bin_take_drop)
  from Cons.IH [OF j(1) ok m(2)] obtain js key' where
    js: "length js = length ys" "length key' = length ys"
    and 3: "runs (collect_key L dl fuel m s' (drop 16 c') (key @ [b])) (collect_key F df fuel m z' (drop 16 c') (key @ [b]))
      (key_tape lt j (zip js ys)) (rounds_tape ft j js) (Ret ((key @ [b]) @ key')) (Ret ((key @ [b]) @ key'))" by blast
  have short: "int (length key) < len" using Cons.prems(4) by simp
  have turn: "collect_key P d fuel n x c key = bind_proc (collect_reconciled P d fuel fuel x c) (\<lambda>(s', c').
      bind_proc (of_res (bits_bytes (take 16 c'))) (\<lambda>X. bind_proc (amplify_privacy P X) (\<lambda>b.
      collect_key P d fuel m s' (drop 16 c') (key @ b))))" if "key_size P = PInt len" for P d x
    using short that by (subst collect_key.simps) (simp add: m int_of_val_def BYTE_LEN_def)
  have "runs (collect_key L dl fuel n s c key) (collect_key F df fuel n z c key)
      (span lt i j @ [Num y] @ key_tape lt j (zip js ys)) (span ft i j @ [] @ rounds_tape ft j js)
      (Ret ((key @ [b]) @ key')) (Ret ((key @ [b]) @ key'))"
    unfolding turn [OF assms(4)] turn [OF assms(5)]
    by (rule runs_seq [OF 1], simp only: prod.case X of_res_simps bind_proc.simps, rule runs_seq [OF 2], rule 3)
  with js show ?case by (intro exI [of _ "j # js"] exI [of _ "b # key'"]) simp
qed

lemma execute_together:
  assumes "paired L F" "round_supply dl df lt ft lb fb" "23 + length ys \<le> fuel"
    and "key_size L = PInt (int (length ys))" "key_size F = PInt (int (length ys))" "list_all seed_ok ys"
  shows "\<exists>js key. length js = length ys \<and> length key = length ys \<and>
    runs (execute_with dl fuel L) (execute_with df fuel F)
      (key_tape lt 0 (zip js ys)) (rounds_tape ft 0 js) (Ret key) (Ret key)"
proof -
  have "bin []" by (simp add: bin_def)
  from collect_key_together [OF assms(1,2) _ assms(4,5) unreconciled_start this assms(6), of fuel "[]" fuel] assms(3)
  obtain js key where js: "length js = length ys" "length key = length ys"
    and 1: "runs (collect_key L dl fuel fuel [] [] []) (collect_key F df fuel fuel [] [] [])
      (key_tape lt 0 (zip js ys)) (rounds_tape ft 0 js) (Ret key) (Ret key)" by auto
  have "runs (execute_with dl fuel L) (execute_with df fuel F)
      (key_tape lt 0 (zip js ys) @ [] @ []) (rounds_tape ft 0 js @ [] @ []) (Ret key) (Ret key)"
    unfolding execute_with_def
    by (rule runs_seq [OF 1], rule runs_seq [OF end_together [OF assms(1)]], rule runs_refl)
  with js show ?thesis by auto
qed

section \<open>BB84 over a noisy channel\<close>

text \<open>
  What a session can be given: the bits are bits, the error rate of the test positions is below
  the threshold, more than twenty-five positions survive the sifting, and the bits that are kept
  stay within what the code corrects.
\<close>

definition usable :: "round list \<Rightarrow> round list \<Rightarrow> nat list \<Rightarrow> bool" where
  "usable ls fs js \<longleftrightarrow> session_ok ls fs js \<and> bin (map snd ls) \<and> bin (map snd fs)
     \<and> test_rate ls fs js < 3 / 23 \<and> 25 < length (own_bits ls fs)"

definition good_channel :: "(nat \<Rightarrow> round list) \<Rightarrow> (nat \<Rightarrow> round list) \<Rightarrow> (nat \<Rightarrow> nat list) \<Rightarrow> bool" where
  "good_channel ls fs picks \<longleftrightarrow> (\<forall>i. usable (ls i) (fs i) (picks i))
     \<and> correctable (\<lambda>i. kept (own_bits (ls i) (fs i)) (picks i)) (\<lambda>i. kept (own_bits (fs i) (ls i)) (picks i))"

lemma bin_pops: "bin x \<Longrightarrow> valid_picks (length x) js \<Longrightarrow> bin (snd (pops x js))"
proof (induction js arbitrary: x)
  case (Cons j js)
  have "set (take j x @ drop (Suc j) x) \<subseteq> set x" by (auto dest: in_set_takeD in_set_dropD)
  then have "bin (take j x @ drop (Suc j) x)" using Cons.prems(1) unfolding bin_def by (rule subset_trans)
  then show ?case using Cons by (simp add: case_prod_beta)
qed simp

lemma bin_own_bits: "bin (map snd ls) \<Longrightarrow> bin (own_bits ls fs)"
proof -
  assume b: "bin (map snd ls)"
  have "set (own_bits ls fs) \<subseteq> set (map snd ls)"
    unfolding own_bits_def sifted_def by (auto dest: set_zip_leftD)
  then show ?thesis using b unfolding bin_def by (rule subset_trans)
qed

lemma usable_distill:
  assumes "paired L F" "can_request L" "usable ls fs js"
  defines "x \<equiv> kept (own_bits ls fs) js" and "y \<equiv> kept (own_bits fs ls) js"
  shows "runs (distill_tested_data L) (distill_tested_data F)
      (lead_tape ls @ map (\<lambda>j. Num (int j)) js) (follow_tape fs) (Ret x) (Ret y)
    \<and> bin x \<and> bin y \<and> length x = length y \<and> x \<noteq> []"
proof -
  have ok: "session_ok ls fs js" "25 < length (own_bits ls fs)" "\<not> 3 / 23 \<le> test_rate ls fs js"
    "bin (own_bits ls fs)" "bin (own_bits fs ls)"
    using assms(3) bin_own_bits by (simp_all add: usable_def)
  have eq: "length (own_bits fs ls) = length (own_bits ls fs)"
    unfolding own_bits_def by (rule length_sifted) (use ok(1) in \<open>simp add: session_ok_def\<close>)
  have js: "valid_picks (length (own_bits ls fs)) js" "valid_picks (length (own_bits fs ls)) js" "length js = 25"
    using ok(1,2) eq by (simp_all add: session_ok_def)
  have len: "length x = length (own_bits ls fs) - 25" "length y = length (own_bits fs ls) - 25"
    using length_pops [OF js(1)] length_pops [OF js(2)] js(3) by (simp_all add: x_def y_def kept_def)
  have "x \<noteq> []" using len ok(2) by auto
  then show ?thesis
    using distill_together [OF assms(1,2) ok(1)] ok(3) bin_pops [OF ok(4) js(1)] bin_pops [OF ok(5) js(2)] len eq
    by (simp add: x_def y_def kept_def)
qed

lemma bb84_together:
  assumes "paired L F" "can_request L" "key_size L = PInt (int (length ys))" "key_size F = key_size L"
    and "good_channel ls fs picks" "list_all seed_ok ys" "23 + length ys \<le> fuel"
  shows "\<exists>js key. length js = length ys \<and> length key = length ys
    \<and> runs (bb84_execute fuel L) (bb84_execute fuel F)
        (key_tape (\<lambda>i. lead_tape (ls i) @ map (\<lambda>j. Num (int j)) (picks i)) 0 (zip js ys))
        (rounds_tape (\<lambda>i. follow_tape (fs i)) 0 js) (Ret key) (Ret key)"
proof -
  have "round_supply (distill_tested_data L) (distill_tested_data F)
      (\<lambda>i. lead_tape (ls i) @ map (\<lambda>j. Num (int j)) (picks i)) (\<lambda>i. follow_tape (fs i))
      (\<lambda>i. kept (own_bits (ls i) (fs i)) (picks i)) (\<lambda>i. kept (own_bits (fs i) (ls i)) (picks i))"
    unfolding round_supply_def using usable_distill [OF assms(1,2)] assms(5) unfolding good_channel_def by blast
  from execute_together [OF assms(1) this assms(7,3) _ assms(6)] assms(3,4) show ?thesis
    unfolding bb84_execute_def by auto
qed

text \<open>
  C3. BB84 agrees on a key over a noisy channel. From any supply of rounds whose test positions stay
  below the error threshold and whose kept bits have at most three errors in each code word, and
  from any seeds, a leader and a follower that were asked for a key of \<open>n\<close> bytes both return
  the same key of exactly \<open>n\<close> bytes, with at most 23 more turns of each loop than bytes; and so
  does every schedule of that session.
\<close>

theorem bb84_key_agreement:
  assumes "paired L F" "can_request L" "key_size L = PInt (int (length ys))" "key_size F = key_size L"
    and "good_channel ls fs picks" "list_all seed_ok ys" "23 + length ys \<le> fuel"
  shows "\<exists>t u key. length key = length ys
    \<and> runs (bb84_execute fuel L) (bb84_execute fuel F) t u (Ret key) (Ret key)
    \<and> (\<forall>c. sstep\<^sup>*\<^sup>* ((bb84_execute fuel L, t), (bb84_execute fuel F, u), [], []) c \<longrightarrow>
        sstep\<^sup>*\<^sup>* c ((Ret key, []), (Ret key, []), [], []))
    \<and> (\<exists>js. length js = length ys
        \<and> t = key_tape (\<lambda>i. lead_tape (ls i) @ map (\<lambda>j. Num (int j)) (picks i)) 0 (zip js ys)
        \<and> u = rounds_tape (\<lambda>i. follow_tape (fs i)) 0 js)"
proof -
  from bb84_together [OF assms] obtain js key where js: "length js = length ys" "length key = length ys"
    and run: "runs (bb84_execute fuel L) (bb84_execute fuel F)
      (key_tape (\<lambda>i. lead_tape (ls i) @ map (\<lambda>j. Num (int j)) (picks i)) 0 (zip js ys))
      (rounds_tape (\<lambda>i. follow_tape (fs i)) 0 js) (Ret key) (Ret key)" by blast
  show ?thesis
    by (rule exI, rule exI, rule exI [of _ key], intro conjI, rule js(2), rule run)
      (use runs_every_schedule [OF run] js(1) in auto)
qed

text \<open>
  A noiseless channel is a good one: where the bases agree the bits do, and the test finds no error.
\<close>

definition noiseless :: "round list \<Rightarrow> round list \<Rightarrow> nat list \<Rightarrow> bool" where
  "noiseless ls fs js \<longleftrightarrow> session_ok ls fs js \<and> matched ls fs \<and> bin (map snd ls) \<and> bin (map snd fs)
     \<and> 25 < length (own_bits ls fs)"

lemma noiseless_good:
  assumes "\<forall>i. noiseless (ls i) (fs i) (picks i)"
  shows "good_channel ls fs picks"
proof -
  have same: "own_bits (fs i) (ls i) = own_bits (ls i) (fs i)" for i
    using matched_sifted [of "ls i" "fs i"] assms by (simp add: noiseless_def own_bits_def)
  have "usable (ls i) (fs i) (picks i)" for i
  proof -
    have n: "noiseless (ls i) (fs i) (picks i)" using assms by blast
    then have "valid_picks (length (own_bits (ls i) (fs i))) (picks i)" "length (picks i) = 25"
      by (simp_all add: noiseless_def session_ok_def)
    then have "fst (pops (own_bits (ls i) (fs i)) (picks i)) \<noteq> []" using length_pops by fastforce
    then have "test_rate (ls i) (fs i) (picks i) = 0" by (simp add: test_rate_def same rate_same)
    with n show ?thesis by (simp add: usable_def noiseless_def)
  qed
  then show ?thesis by (simp add: good_channel_def same correctable_same)
qed

section \<open>Instances\<close>

lemma hdist_append: "length x = length y \<Longrightarrow> hdist (x @ u) (y @ v) = hdist x y + hdist u v"
  by (induction x y rule: list_induct2) (simp_all add: hdist_def)

text \<open>A few errors in all are correctable wherever they are.\<close>

lemma hdist_part: "length x = length y \<Longrightarrow> hdist (take m (drop n x)) (take m (drop n y)) \<le> hdist x y"
proof -
  assume len: "length x = length y"
  have "hdist x y = hdist (take n x) (take n y) + hdist (drop n x) (drop n y)"
    using hdist_append [of "take n x" "take n y" "drop n x" "drop n y"] len by simp
  moreover have "hdist (drop n x) (drop n y)
      = hdist (take m (drop n x)) (take m (drop n y)) + hdist (drop m (drop n x)) (drop m (drop n y))"
    using hdist_append [of "take m (drop n x)" "take m (drop n y)" "drop m (drop n x)" "drop m (drop n y)"] len
    by (simp del: drop_drop)
  ultimately show ?thesis by simp
qed

lemma correctable_first:
  assumes "length (lb 0) = length (fb 0)" "hdist (lb 0) (fb 0) \<le> 3" "\<forall>i. i \<noteq> 0 \<longrightarrow> lb i = fb i"
  shows "correctable lb fb"
  unfolding correctable_def
proof (intro allI)
  fix i k
  show "hdist (take 23 (drop (23 * k) (stream_to lb i))) (take 23 (drop (23 * k) (stream_to fb i))) \<le> 3"
  proof (cases i)
    case (Suc j)
    define r where "r = concat (map lb [Suc 0..<Suc j])"
    have same: "map fb [Suc 0..<Suc j] = map lb [Suc 0..<Suc j]"
      by (rule map_cong) (use assms(3) in auto)
    have r: "stream_to lb i = lb 0 @ r" "stream_to fb i = fb 0 @ r"
      by (simp_all add: stream_to_def r_def Suc upt_conv_Cons [of 0 "Suc j"] same del: upt_Suc)
    have "length (stream_to lb i) = length (stream_to fb i)" by (simp add: r assms(1))
    from hdist_part [OF this, of 23 "23 * k"] have
      "hdist (take 23 (drop (23 * k) (stream_to lb i))) (take 23 (drop (23 * k) (stream_to fb i))) \<le> hdist (lb 0) (fb 0)"
      by (simp add: r hdist_append [OF assms(1)])
    with assms(2) show ?thesis by simp
  qed (simp add: stream_to_def)
qed

text \<open>The follower's first round has three wrong bits at its end, the others none.\<close>

definition demo_noisy :: "nat \<Rightarrow> round list" where
  "demo_noisy i = (if i = 0 then replicate 97 (0, 0) @ replicate 3 (0, 1) else demo_rounds)"

lemma pops_front: "k \<le> length x \<Longrightarrow> pops x (replicate k 0) = (take k x, drop k x)"
proof (induction k arbitrary: x)
  case (Suc k)
  then obtain a y where "x = a # y" by (cases x) auto
  with Suc show ?case by simp
qed simp

lemma own_bits_same_basis:
  "length ls = length fs \<Longrightarrow> list_all (\<lambda>r. fst r = 0) ls \<Longrightarrow> list_all (\<lambda>r. fst r = 0) fs \<Longrightarrow> own_bits ls fs = map snd ls"
  by (induction ls fs rule: list_induct2) (auto simp: own_bits_def sifted_def)

lemma demo_noisy_rounds:
  "length (demo_noisy i) = 100" "list_all (\<lambda>r. fst r = 0) (demo_noisy i)" "basis_ok (demo_noisy i)"
  "bin (map snd (demo_noisy i))"
  by (simp_all add: demo_noisy_def demo_rounds_def list_all_iff basis_ok_def bin_def)

lemma demo_noisy_bits:
  "own_bits demo_rounds (demo_noisy i) = replicate 100 0"
  "own_bits (demo_noisy i) demo_rounds = (if i = 0 then replicate 97 0 @ replicate 3 1 else replicate 100 0)"
proof -
  have "length demo_rounds = 100" "list_all (\<lambda>r. fst r = 0) demo_rounds"
    by (simp_all add: demo_rounds_def list_all_iff)
  with own_bits_same_basis [of demo_rounds "demo_noisy i"] own_bits_same_basis [of "demo_noisy i" demo_rounds]
  show "own_bits demo_rounds (demo_noisy i) = replicate 100 0"
    "own_bits (demo_noisy i) demo_rounds = (if i = 0 then replicate 97 0 @ replicate 3 1 else replicate 100 0)"
    by (simp_all add: demo_noisy_rounds) (simp_all add: demo_noisy_def demo_rounds_def)
qed

lemma demo_noisy_kept:
  "kept (own_bits demo_rounds (demo_noisy i)) demo_picks = replicate 75 0"
  "kept (own_bits (demo_noisy i) demo_rounds) demo_picks
    = (if i = 0 then replicate 72 0 @ replicate 3 1 else replicate 75 0)"
  by (simp_all add: demo_noisy_bits kept_def demo_picks_def pops_front)

lemma demo_noisy_rate: "test_rate demo_rounds (demo_noisy i) demo_picks = 0"
  by (simp add: test_rate_def demo_noisy_bits demo_picks_def pops_front rate_same)

lemma demo_usable: "usable demo_rounds (demo_noisy i) demo_picks"
proof -
  have "bin (map snd demo_rounds)" "length demo_picks = 25" "valid_picks 100 demo_picks"
    using valid_picks_front [of 25 100] by (simp_all add: demo_rounds_def demo_picks_def bin_def)
  then show ?thesis
    using demo_session_ok by (simp add: usable_def session_ok_def demo_noisy_bits demo_noisy_rounds demo_noisy_rate)
qed

lemma demo_noisy_distance: "hdist (replicate 75 0) (replicate 72 0 @ replicate 3 1) \<le> 3"
proof -
  have "replicate 75 (0 :: int) = replicate 72 0 @ replicate 3 0" by (simp flip: replicate_add)
  then show ?thesis by (simp only: hdist_append length_replicate) (simp add: hdist_def numeral_3_eq_3)
qed

lemma demo_channel: "good_channel (\<lambda>_. demo_rounds) demo_noisy (\<lambda>_. demo_picks)"
  unfolding good_channel_def using demo_usable demo_noisy_distance
  by (auto intro!: correctable_first simp: demo_noisy_kept)

theorem bb84_key_agreement_witness:
  "\<exists>t u key. length key = 2
    \<and> runs (bb84_execute 25 (demo_party BB84_PURIFIED Leader (PInt 2)))
        (bb84_execute 25 (demo_party BB84_PURIFIED Follower (PInt 2))) t u (Ret key) (Ret key)"
  using bb84_key_agreement [OF demo_paired demo_can_request _ _ demo_channel, of BB84_PURIFIED "PInt 2" "[7, 9]" 25]
  by (force simp: demo_party_def seed_ok_def)

end
