(* ===== verification/Device_Independent.thy ===== *)
theory Device_Independent
  imports BB84_Correct
begin

unbundle bit_operations_syntax

text \<open>
  The class \<open>DIQKD\<close> of \<^verbatim>\<open>qchat/protocols.py\<close>: measurement by the untrusted devices, the CHSH
  test, and the key loop of BB84 over the bits that are left. Python runs through the set of the
  untested rounds in ascending order when, as between two parties that follow the protocol, it
  holds fifty of the integers below a hundred (its table then has more slots than that); the
  model takes the ascending order always. The winning rates are compared exactly: the
  thresholds are the doubles of the source as decimal fractions.
\<close>

section \<open>Distribution\<close>

text \<open>\<open>[random.randint(0, hi) for _ in range(n)]\<close>\<close>

fun draw_bases :: "int \<Rightarrow> nat \<Rightarrow> int list \<Rightarrow> int list proc" where
  "draw_bases hi 0 theta = Ret theta"
| "draw_bases hi (Suc n) theta = Rand 0 hi (\<lambda>b. draw_bases hi n (theta @ [b]))"

definition distribute_step :: "party \<Rightarrow> int \<Rightarrow> int list \<Rightarrow> int list proc" where
  "distribute_step P b x =
     bind_proc (requestEPR P) (\<lambda>_.
     bind_proc (receiveEPR P) (\<lambda>q.
     bind_proc (measure P q b) (\<lambda>v.
     bind_proc (exchange_messages P ack DQKD) (\<lambda>m.
     bind_proc (require m ''ack'' ''Error distributing DI states'') (\<lambda>_. Ret (x @ [v]))))))"

definition device_independent_distribute_bb84 :: "party \<Rightarrow> (int list \<times> int list) proc" where
  "device_independent_distribute_bb84 P =
     bind_proc (draw_bases 1 ROUND_SIZE []) (\<lambda>theta.
     bind_proc (fold_proc (distribute_step P) theta []) (\<lambda>x. Ret (x, theta)))"

definition receive_step :: "party \<Rightarrow> int \<Rightarrow> int list \<Rightarrow> int list proc" where
  "receive_step P b x =
     bind_proc (receiveEPR P) (\<lambda>q.
     bind_proc (measure P q b) (\<lambda>v.
     bind_proc (exchange_messages P ack DQKD) (\<lambda>m.
     bind_proc (require m ''ack'' ''Error receiving DI states'') (\<lambda>_. Ret (x @ [v])))))"

definition device_independent_receive_bb84 :: "party \<Rightarrow> (int list \<times> int list) proc" where
  "device_independent_receive_bb84 P =
     bind_proc (draw_bases 2 ROUND_SIZE []) (\<lambda>theta.
     bind_proc (fold_proc (receive_step P) theta []) (\<lambda>x. Ret (x, theta)))"

section \<open>The test\<close>

text \<open>\<open>v[j]\<close> with an integer index on a received value, and on an own list.\<close>

definition index_val :: "pyval \<Rightarrow> int \<Rightarrow> pyval res" where
  "index_val v j = (case v of
     PList xs \<Rightarrow> py_get xs j
   | PStr s \<Rightarrow> bindE (py_get s j) (\<lambda>c. Inr (PStr [c]))
   | PBytes b \<Rightarrow> bindE (py_get b j) (\<lambda>c. Inr (PInt (uint c)))
   | PDict _ \<Rightarrow> Inl KeyError
   | _ \<Rightarrow> Inl TypeError)"

text \<open>\<open>[j for j in T if p(j)]\<close> with a test that may raise.\<close>

definition filterE :: "('a \<Rightarrow> bool res) \<Rightarrow> 'a list \<Rightarrow> 'a list res" where
  "filterE p T = foldE (\<lambda>j acc. bindE (p j) (\<lambda>ok. Inr (if ok then acc @ [j] else acc))) T []"

text \<open>\<open>a ^ b\<close> and \<open>a & b\<close> on received values.\<close>

definition int_op :: "(int \<Rightarrow> int \<Rightarrow> int) \<Rightarrow> pyval \<Rightarrow> pyval \<Rightarrow> int res" where
  "int_op f a b = (case (int_of_val a, int_of_val b) of (Some i, Some k) \<Rightarrow> Inr (f i k) | _ \<Rightarrow> Inl TypeError)"

text \<open>
  The three index sets. \<open>mine\<close> and \<open>theirs\<close> are the bases of the leader (0, 1) and of the
  follower (0, 1, 2) as \<open>lead\<close> and \<open>follow\<close>, each possibly received.
\<close>

definition test_rounds :: "pyval \<Rightarrow> int list \<Rightarrow> int list res" where
  "test_rounds follow T = filterE (\<lambda>j. bindE (index_val follow j) (\<lambda>v.
     Inr (py_eq v (PInt 0) \<or> py_eq v (PInt 1)))) T"

definition match_rounds :: "pyval \<Rightarrow> pyval \<Rightarrow> int list \<Rightarrow> int list res" where
  "match_rounds lead follow T = filterE (\<lambda>j. bindE (index_val lead j) (\<lambda>a.
     if py_eq a (PInt 0) then bindE (index_val follow j) (\<lambda>b. Inr (py_eq b (PInt 2))) else Inr False)) T"

text \<open>\<open>set(range(n)) - set(T)\<close>, in ascending order.\<close>

definition rest_rounds :: "nat \<Rightarrow> int list \<Rightarrow> int list" where
  "rest_rounds n T = filter (\<lambda>j. j \<notin> set T) (map int [0..<n])"

definition winning_rounds :: "pyval \<Rightarrow> pyval \<Rightarrow> int list \<Rightarrow> int list \<Rightarrow> pyval list \<Rightarrow> pyval list \<Rightarrow> int res" where
  "winning_rounds mine theirs T Tp x_T x_T_hat =
     foldE (\<lambda>(j, x1, x2) n. bindE (int_op (XOR) x1 x2) (\<lambda>a.
       bindE (index_val mine j) (\<lambda>b. bindE (index_val theirs j) (\<lambda>c.
       bindE (int_op (AND) b c) (\<lambda>d. Inr (if a = d \<and> j \<in> set Tp then n + 1 else n))))))
     (zip T (zip x_T x_T_hat)) 0"

definition matching_rounds :: "int list \<Rightarrow> int list \<Rightarrow> pyval list \<Rightarrow> pyval list \<Rightarrow> int" where
  "matching_rounds T Tpp x_T x_T_hat =
     int (length (filter (\<lambda>(j, x1, x2). py_eq x1 x2 \<and> j \<in> set Tpp) (zip T (zip x_T x_T_hat))))"

definition py_div :: "int \<Rightarrow> nat \<Rightarrow> rat res" where
  "py_div a n = (if n = 0 then Inl ZeroDivisionError else Inr (of_int a / of_nat n))"

text \<open>\<open>PCHSH - e\<close> and \<open>1 - e\<close> with the tolerance \<open>e = 0.1\<close>.\<close>

definition MIN_WIN :: rat where "MIN_WIN = 7535533905932737 / 10000000000000000"
definition MIN_MATCH :: rat where "MIN_MATCH = 9 / 10"

text \<open>The end of the test, from the index sets to the bits that are left.\<close>

definition judge :: "int list \<Rightarrow> pyval \<Rightarrow> pyval \<Rightarrow> int list \<Rightarrow> int list \<Rightarrow> int list \<Rightarrow> int list
    \<Rightarrow> pyval list \<Rightarrow> pyval list \<Rightarrow> int list res" where
  "judge x mine theirs T Tp Tpp R x_T x_T_hat =
     bindE (winning_rounds mine theirs T Tp x_T x_T_hat) (\<lambda>winning.
     bindE (py_div winning (length Tp)) (\<lambda>p_win.
     bindE (py_div (matching_rounds T Tpp x_T x_T_hat) (length Tpp)) (\<lambda>p_match.
     if p_win < MIN_WIN \<or> p_match < MIN_MATCH then Inl (ProtocolException ''Failed to pass CHSH test'')
     else foldE (\<lambda>r acc. bindE (py_get x r) (\<lambda>v. Inr (acc @ [v]))) R [])))"

definition int_list_of :: "pyval list \<Rightarrow> int list res" where
  "int_list_of vs = of_option TypeError (those (map int_of_val vs))"

definition epr_test :: "party \<Rightarrow> int list \<Rightarrow> int list \<Rightarrow> int list proc" where
  "epr_test P x theta =
     bind_proc (exchange_messages P [(str ''theta'', bits_val theta)] DQKD) (\<lambda>m.
     bind_proc (data_item m ''theta'') (\<lambda>theta_hat.
     bind_proc (case role_of P of
       Leader \<Rightarrow> Sample (length x) (length x div 2) (\<lambda>js.
         let T = map int js in
         bind_proc (send_control_message P [(str ''T'', bits_val T)] DQKD) (\<lambda>_.
         bind_proc (of_res (test_rounds theta_hat T)) (\<lambda>Tp.
         bind_proc (of_res (match_rounds (bits_val theta) theta_hat T)) (\<lambda>Tpp.
         bind_proc (of_res (match_rounds (bits_val theta) theta_hat (rest_rounds (length x) T))) (\<lambda>R.
         Ret (T, Tp, Tpp, R))))))
     | Follower \<Rightarrow> bind_proc (wait_for_control_message DQKD) (\<lambda>m.
         bind_proc (data_item m ''T'') (\<lambda>v.
         bind_proc (of_res (bindE (iterate v) int_list_of)) (\<lambda>T.
         bind_proc (of_res (test_rounds (bits_val theta) T)) (\<lambda>Tp.
         bind_proc (of_res (match_rounds theta_hat (bits_val theta) T)) (\<lambda>Tpp.
         bind_proc (of_res (match_rounds theta_hat (bits_val theta) (rest_rounds (length x) T))) (\<lambda>R.
         Ret (T, Tp, Tpp, R))))))))
     (\<lambda>(T, Tp, Tpp, R).
     bind_proc (of_res (foldE (\<lambda>j acc. bindE (py_get x j) (\<lambda>v. Inr (acc @ [v]))) T [])) (\<lambda>x_T.
     bind_proc (exchange_messages P [(str ''x_T'', bits_val x_T)] DQKD) (\<lambda>m.
     bind_proc (data_item m ''x_T'') (\<lambda>v.
     bind_proc (of_res (iterate v)) (\<lambda>x_T_hat.
     of_res (judge x (bits_val theta) theta_hat T Tp Tpp R (map PInt x_T) x_T_hat))))))))"

definition distill_device_independent_data :: "party \<Rightarrow> int list proc" where
  "distill_device_independent_data P =
     bind_proc (case role_of P of
       Leader \<Rightarrow> device_independent_distribute_bb84 P
     | Follower \<Rightarrow> device_independent_receive_bb84 P) (\<lambda>(x, theta). epr_test P x theta)"

definition diqkd_execute :: "nat \<Rightarrow> party \<Rightarrow> bytes proc" where
  "diqkd_execute fuel P = execute_with (distill_device_independent_data P) fuel P"

section \<open>Both parties judge alike\<close>

lemma filterE_pure:
  assumes "\<And>j. j \<in> set T \<Longrightarrow> p j = Inr (q j)"
  shows "filterE p T = Inr (filter q T)"
proof -
  have "foldE (\<lambda>j acc. bindE (p j) (\<lambda>ok. Inr (if ok then acc @ [j] else acc))) T acc = Inr (acc @ filter q T)" for acc
    using assms by (induction T arbitrary: acc) auto
  then show ?thesis by (simp add: filterE_def)
qed

lemma index_bits: "j < length x \<Longrightarrow> index_val (bits_val x) (int j) = Inr (PInt (x ! j))"
  by (simp add: index_val_def bits_val_def py_get_def py_index_nonneg)

lemma py_get_nat: "j < length x \<Longrightarrow> py_get x (int j) = Inr (x ! j)"
  by (simp add: py_get_def py_index_nonneg)

lemma gather_at:
  assumes "\<forall>j \<in> set js. j < length x"
  shows "foldE (\<lambda>j acc. bindE (py_get x j) (\<lambda>v. Inr (acc @ [v]))) (map int js) acc = Inr (acc @ map ((!) x) js)"
  using assms by (induction js arbitrary: acc) (simp_all add: py_get_nat)

definition Tp_of :: "int list \<Rightarrow> nat list \<Rightarrow> nat list" where
  "Tp_of fs js = filter (\<lambda>j. fs ! j \<in> {0, 1}) js"

definition Tpp_of :: "int list \<Rightarrow> int list \<Rightarrow> nat list \<Rightarrow> nat list" where
  "Tpp_of ls fs js = filter (\<lambda>j. ls ! j = 0 \<and> fs ! j = 2) js"

definition rest_of :: "nat \<Rightarrow> nat list \<Rightarrow> nat list" where
  "rest_of n js = filter (\<lambda>j. j \<notin> set js) [0..<n]"

lemma test_rounds_bits:
  "\<forall>j \<in> set js. j < length fs \<Longrightarrow> test_rounds (bits_val fs) (map int js) = Inr (map int (Tp_of fs js))"
proof -
  assume "\<forall>j \<in> set js. j < length fs"
  then have "test_rounds (bits_val fs) (map int js) = Inr (filter (\<lambda>j. fs ! nat j = 0 \<or> fs ! nat j = 1) (map int js))"
    unfolding test_rounds_def by (intro filterE_pure) (auto simp: index_bits)
  then show ?thesis by (simp add: Tp_of_def filter_map o_def)
qed

lemma match_rounds_bits:
  "\<forall>j \<in> set js. j < length fs \<and> j < length ls \<Longrightarrow>
   match_rounds (bits_val ls) (bits_val fs) (map int js) = Inr (map int (Tpp_of ls fs js))"
proof -
  assume "\<forall>j \<in> set js. j < length fs \<and> j < length ls"
  then have "match_rounds (bits_val ls) (bits_val fs) (map int js)
      = Inr (filter (\<lambda>j. ls ! nat j = 0 \<and> fs ! nat j = 2) (map int js))"
    unfolding match_rounds_def by (intro filterE_pure) (auto simp: index_bits)
  then show ?thesis by (simp add: Tpp_of_def filter_map o_def)
qed

lemma rest_rounds_of: "rest_rounds n (map int js) = map int (rest_of n js)"
  by (auto simp: rest_rounds_def rest_of_def filter_map o_def intro!: arg_cong [where f = "map int"] filter_cong)

text \<open>The number of test rounds that win the game, seen from neither side.\<close>

definition wins :: "int list \<Rightarrow> int list \<Rightarrow> int list \<Rightarrow> int list \<Rightarrow> nat list \<Rightarrow> nat" where
  "wins ls fs x y js = length (filter (\<lambda>j. (x ! j XOR y ! j) = (ls ! j AND fs ! j) \<and> j \<in> set (Tp_of fs js)) js)"

lemma winning_count:
  assumes "\<forall>j \<in> set ks. j < length a \<and> j < length b"
  shows "foldE (\<lambda>(j, x1, x2) n. bindE (int_op (XOR) x1 x2) (\<lambda>v.
       bindE (index_val (bits_val a) j) (\<lambda>v1. bindE (index_val (bits_val b) j) (\<lambda>v2.
       bindE (int_op (AND) v1 v2) (\<lambda>d. Inr (if v = d \<and> j \<in> int ` S then n + 1 else n))))))
     (zip (map int ks) (zip (map PInt (map ((!) x) ks)) (map PInt (map ((!) y) ks)))) n
   = Inr (n + int (length (filter (\<lambda>j. (x ! j XOR y ! j) = (a ! j AND b ! j) \<and> j \<in> S) ks)))"
  using assms
proof (induction ks arbitrary: n)
  case (Cons k ks)
  have "int k \<in> int ` S \<longleftrightarrow> k \<in> S" by auto
  with Cons show ?case by (simp add: int_op_def int_of_val_def index_bits)
qed simp

lemma winning_bits:
  assumes "\<forall>j \<in> set js. j < length ls \<and> j < length fs"
  shows "winning_rounds (bits_val ls) (bits_val fs) (map int js) (map int (Tp_of fs js))
      (map PInt (map ((!) x) js)) (map PInt (map ((!) y) js)) = Inr (int (wins ls fs x y js))"
    and "winning_rounds (bits_val fs) (bits_val ls) (map int js) (map int (Tp_of fs js))
      (map PInt (map ((!) y) js)) (map PInt (map ((!) x) js)) = Inr (int (wins ls fs x y js))"
  using winning_count [of js ls fs "set (Tp_of fs js)" x y 0] winning_count [of js fs ls "set (Tp_of fs js)" y x 0] assms
  by (simp_all add: winning_rounds_def wins_def xor.commute and.commute)

definition matches :: "int list \<Rightarrow> int list \<Rightarrow> nat list \<Rightarrow> nat list \<Rightarrow> nat" where
  "matches x y js ks = length (filter (\<lambda>j. x ! j = y ! j \<and> j \<in> set ks) js)"

lemma matching_bits:
  "matching_rounds (map int js) (map int ks) (map PInt (map ((!) x) js)) (map PInt (map ((!) y) js)) = int (matches x y js ks)"
proof -
  have "length (filter (\<lambda>(j, x1, x2). py_eq x1 x2 \<and> j \<in> int ` S)
      (zip (map int js) (zip (map PInt (map ((!) x) js)) (map PInt (map ((!) y) js)))))
    = length (filter (\<lambda>j. x ! j = y ! j \<and> j \<in> S) js)" for S
    by (induction js) (auto simp: image_iff)
  then show ?thesis by (simp add: matching_rounds_def matches_def)
qed

lemma matches_commute: "matches x y js ks = matches y x js ks"
  by (simp add: matches_def eq_commute)

text \<open>The verdict on a test, a function of the data of both sides.\<close>

definition verdict :: "int list \<Rightarrow> int list \<Rightarrow> int list \<Rightarrow> int list \<Rightarrow> nat list \<Rightarrow> unit res" where
  "verdict ls fs x y js =
     bindE (py_div (int (wins ls fs x y js)) (length (Tp_of fs js))) (\<lambda>p_win.
     bindE (py_div (int (matches x y js (Tpp_of ls fs js))) (length (Tpp_of ls fs js))) (\<lambda>p_match.
     if p_win < MIN_WIN \<or> p_match < MIN_MATCH then Inl (ProtocolException ''Failed to pass CHSH test'')
     else Inr ()))"

definition secret_rounds :: "int list \<Rightarrow> int list \<Rightarrow> nat \<Rightarrow> nat list \<Rightarrow> nat list" where
  "secret_rounds ls fs n js = Tpp_of ls fs (rest_of n js)"

lemma judge_bits:
  assumes "\<forall>j \<in> set js. j < length ls \<and> j < length fs" "length ls = length x" "length fs = length x" "length y = length x"
  defines "R \<equiv> secret_rounds ls fs (length x) js"
  shows "judge x (bits_val ls) (bits_val fs) (map int js) (map int (Tp_of fs js)) (map int (Tpp_of ls fs js)) (map int R)
      (map PInt (map ((!) x) js)) (map PInt (map ((!) y) js))
    = bindE (verdict ls fs x y js) (\<lambda>_. Inr (map ((!) x) R))"
    and "judge y (bits_val fs) (bits_val ls) (map int js) (map int (Tp_of fs js)) (map int (Tpp_of ls fs js)) (map int R)
      (map PInt (map ((!) y) js)) (map PInt (map ((!) x) js))
    = bindE (verdict ls fs x y js) (\<lambda>_. Inr (map ((!) y) R))"
proof -
  have R: "\<forall>j \<in> set R. j < length x" by (auto simp: R_def secret_rounds_def Tpp_of_def rest_of_def)
  note w = winning_bits(1) [OF assms(1), of x y] winning_bits(2) [OF assms(1), of y x]
  note m = matching_bits [of js "Tpp_of ls fs js" x y] matching_bits [of js "Tpp_of ls fs js" y x]
  have g: "foldE (\<lambda>j acc. bindE (py_get z j) (\<lambda>v. Inr (acc @ [v]))) (map int R) [] = Inr (map ((!) z) R)"
    if "length z = length x" for z
    using gather_at [of R z "[]"] R that by simp
  show "judge x (bits_val ls) (bits_val fs) (map int js) (map int (Tp_of fs js)) (map int (Tpp_of ls fs js)) (map int R)
      (map PInt (map ((!) x) js)) (map PInt (map ((!) y) js))
    = bindE (verdict ls fs x y js) (\<lambda>_. Inr (map ((!) x) R))"
    unfolding judge_def w(1) m(1) verdict_def g [OF refl]
    by (simp add: bindE_assoc if_distrib [of "\<lambda>r. bindE r _"] cong: if_cong)
  show "judge y (bits_val fs) (bits_val ls) (map int js) (map int (Tp_of fs js)) (map int (Tpp_of ls fs js)) (map int R)
      (map PInt (map ((!) y) js)) (map PInt (map ((!) x) js))
    = bindE (verdict ls fs x y js) (\<lambda>_. Inr (map ((!) y) R))"
    unfolding judge_def w(2) m(2) verdict_def g [OF assms(4)] matches_commute [of y]
    by (simp add: bindE_assoc if_distrib [of "\<lambda>r. bindE r _"] cong: if_cong)
qed

lemma epr_test_together:
  assumes "paired L F" "length y = length x" "length ls = length x" "length fs = length x"
    and "length js = length x div 2" "distinct js" "\<forall>j \<in> set js. j < length x"
  shows "runs (epr_test L x ls) (epr_test F y fs) [Nums js] []
    (of_res (bindE (verdict ls fs x y js) (\<lambda>_. Inr (map ((!) x) (secret_rounds ls fs (length x) js)))))
    (of_res (bindE (verdict ls fs x y js) (\<lambda>_. Inr (map ((!) y) (secret_rounds ls fs (length x) js)))))"
proof -
  have role: "role_of L = Leader" "role_of F = Follower" using assms(1) by (simp_all add: paired_def)
  have js: "\<forall>j \<in> set js. j < length fs" "\<forall>j \<in> set js. j < length fs \<and> j < length ls"
    "\<forall>j \<in> set js. j < length ls \<and> j < length fs" "\<forall>j \<in> set js. j < length x" "\<forall>j \<in> set js. j < length y"
    using assms(2-4,7) by simp_all
  have rest: "\<forall>j \<in> set (rest_of (length x) js). j < length fs \<and> j < length ls"
    using assms(3,4) by (simp add: rest_of_def)
  have ints: "int_list_of (map PInt (map int js)) = Inr (map int js)"
  proof -
    have "those (map int_of_val (map PInt (map int js))) = Some (map int js)"
      by (induction js) (simp_all add: int_of_val_def)
    then show ?thesis by (simp add: int_list_of_def)
  qed
  note sets = test_rounds_bits [OF js(1)] match_rounds_bits [OF js(2)] match_rounds_bits [OF rest]
  have g: "foldE (\<lambda>j acc. bindE (py_get x j) (\<lambda>v. Inr (acc @ [v]))) (map int js) [] = Inr (map ((!) x) js)"
    "foldE (\<lambda>j acc. bindE (py_get y j) (\<lambda>v. Inr (acc @ [v]))) (map int js) [] = Inr (map ((!) y) js)"
    using gather_at [OF js(4), of "[]"] gather_at [OF js(5), of "[]"] by simp_all
  note judge = judge_bits [OF js(3) assms(3,4,2), folded map_map]
  have tail: "runs
      (bind_proc (exchange_messages L [(str ''x_T'', bits_val (map ((!) x) js))] DQKD) (\<lambda>m.
       bind_proc (data_item m ''x_T'') (\<lambda>v. bind_proc (of_res (iterate v)) (\<lambda>x_T_hat.
       of_res (judge x (bits_val ls) (bits_val fs) (map int js) (map int (Tp_of fs js)) (map int (Tpp_of ls fs js))
         (map int (secret_rounds ls fs (length x) js)) (map PInt (map ((!) x) js)) x_T_hat)))))
      (bind_proc (exchange_messages F [(str ''x_T'', bits_val (map ((!) y) js))] DQKD) (\<lambda>m.
       bind_proc (data_item m ''x_T'') (\<lambda>v. bind_proc (of_res (iterate v)) (\<lambda>x_T_hat.
       of_res (judge y (bits_val fs) (bits_val ls) (map int js) (map int (Tp_of fs js)) (map int (Tpp_of ls fs js))
         (map int (secret_rounds ls fs (length x) js)) (map PInt (map ((!) y) js)) x_T_hat))))) [] []
      (of_res (bindE (verdict ls fs x y js) (\<lambda>_. Inr (map ((!) x) (secret_rounds ls fs (length x) js)))))
      (of_res (bindE (verdict ls fs x y js) (\<lambda>_. Inr (map ((!) y) (secret_rounds ls fs (length x) js)))))"
    by (rule exchange [OF assms(1)])
      (simp only: data_item_msg map_of.simps fst_conv snd_conv fun_upd_same bind_proc.simps iterate_bits of_res_simps
        judge runs_refl)
  show ?thesis
    unfolding epr_test_def role role.case bind_proc_assoc
    apply (rule exchange [OF assms(1)])
    apply (simp only: data_item_msg map_of.simps fst_conv snd_conv fun_upd_same bind_proc.simps)
    apply (rule runs_left [where t' = "[]"])
     apply (use assms(5-7) in simp)
    apply (simp only: Let_def bind_proc_assoc bind_proc.simps)
    apply (rule send_right [OF assms(1)])
    apply (simp only: data_item_msg map_of.simps fst_conv snd_conv fun_upd_same bind_proc.simps iterate_bits
        bindE_simps ints of_res_simps sets assms(2) rest_rounds_of prod.case secret_rounds_def [symmetric] g)
    apply (rule tail)
    done
qed

text \<open>
  C26. Leader and follower of a device-independent session judge the CHSH test alike. From any
  bases and outcomes and any sample the leader draws, both end the test with the same exception
  (a division by zero when the sample holds no test round or no matching round, or a failed test),
  or both go on with their own bits of the same rounds.
\<close>

theorem epr_test_agrees:
  assumes "paired L F" "length y = length x" "length ls = length x" "length fs = length x"
    and "length js = length x div 2" "distinct js" "\<forall>j \<in> set js. j < length x"
  shows "runs (epr_test L x ls) (epr_test F y fs) [Nums js] []
    (of_res (bindE (verdict ls fs x y js) (\<lambda>_. Inr (map ((!) x) (secret_rounds ls fs (length x) js)))))
    (of_res (bindE (verdict ls fs x y js) (\<lambda>_. Inr (map ((!) y) (secret_rounds ls fs (length x) js)))))"
  using epr_test_together [OF assms] .

theorem epr_test_agrees_witness:
  "runs (epr_test (demo_party DIQKD Leader (PInt 1)) [1, 0, 1, 1] [0, 0, 0, 0])
    (epr_test (demo_party DIQKD Follower (PInt 1)) [1, 0, 1, 1] [2, 0, 2, 2]) [Nums [0, 1]] []
    (Ret [1, 1]) (Ret [1, 1])"
proof -
  have sets: "Tp_of [2, 0, 2, 2] [0, 1] = [1]" "Tpp_of [0, 0, 0, 0] [2, 0, 2, 2] [0, 1] = [0]"
    "rest_of 4 [0, 1] = [2, 3]" "secret_rounds [0, 0, 0, 0] [2, 0, 2, 2] 4 [0, 1] = [2, 3]"
    by (simp_all add: Tp_of_def Tpp_of_def rest_of_def secret_rounds_def upt_rec)
  have "verdict [0, 0, 0, 0] [2, 0, 2, 2] [1, 0, 1, 1] [1, 0, 1, 1] [0, 1] = Inr ()"
    unfolding verdict_def wins_def matches_def sets
    by (simp add: py_div_def MIN_WIN_def MIN_MATCH_def)
  moreover have "length [1, 0, 1, 1 :: int] = 4" by simp
  ultimately show ?thesis
    using epr_test_agrees [OF demo_paired, of "[1, 0, 1, 1]" "[1, 0, 1, 1]" "[0, 0, 0, 0]" "[2, 0, 2, 2]" "[0, 1]"
        DIQKD "PInt 1", unfolded \<open>length [1, 0, 1, 1 :: int] = 4\<close> sets]
    by simp
qed

end
