(* ===== verification/DIQKD_Key.thy ===== *)
theory DIQKD_Key
  imports BB84_Key Device_Independent
begin

text \<open>
  The device-independent protocol as a session: the distribution of the states, the test and,
  from rounds that pass it, the key loop of BB84.
\<close>

section \<open>Distribution\<close>

definition measure_tape :: "role \<Rightarrow> round \<Rightarrow> tape" where
  "measure_tape r p = (if fst p = (case r of Leader \<Rightarrow> 0 | Follower \<Rightarrow> 2) then [Num (snd p)] else [Num 0, Num (snd p)])"

definition leader_tape :: "round list \<Rightarrow> tape" where
  "leader_tape rs = map (\<lambda>p. Num (fst p)) rs @ concat (map (\<lambda>p. Num 0 # Num 0 # measure_tape Leader p) rs)"

definition follower_tape :: "round list \<Rightarrow> tape" where
  "follower_tape rs = map (\<lambda>p. Num (fst p)) rs @ concat (map (\<lambda>p. Num 0 # measure_tape Follower p) rs)"

definition bases_within :: "int \<Rightarrow> round list \<Rightarrow> bool" where
  "bases_within hi rs \<longleftrightarrow> list_all (\<lambda>p. 0 \<le> fst p \<and> fst p \<le> hi) rs"

lemma draw_left:
  assumes "bases_within hi rs" "runs (f (theta @ map fst rs)) r t u p' r'"
  shows "runs (bind_proc (draw_bases hi (length rs) theta) f) r (map (\<lambda>p. Num (fst p)) rs @ t) u p' r'"
  using assms
proof (induction rs arbitrary: theta)
  case (Cons p rs)
  then show ?case by (auto simp: bases_within_def intro!: rand_left)
qed simp

lemma draw_right:
  assumes "bases_within hi rs" "runs p (f (theta @ map fst rs)) t u p' r'"
  shows "runs p (bind_proc (draw_bases hi (length rs) theta) f) t (map (\<lambda>p. Num (fst p)) rs @ u) p' r'"
  using assms
proof (induction rs arbitrary: theta)
  case (Cons q rs)
  then show ?case by (auto simp: bases_within_def intro!: rand_right)
qed simp

lemma measure_left:
  assumes "role_of P = Leader" "0 \<le> fst b" "fst b \<le> 1" "runs (f (snd b)) r t u p' r'"
  shows "runs (bind_proc (measure P q (fst b)) f) r (measure_tape Leader b @ t) u p' r'"
proof -
  have "fst b = 0 \<or> fst b = 1" using assms(2,3) by linarith
  then show ?thesis
    using assms(1,4) by (auto simp: device_defs measure_tape_def bind_proc_assoc intro!: quantum_left)
qed

lemma measure_right:
  assumes "role_of P = Follower" "0 \<le> fst b" "fst b \<le> 2" "runs p (f (snd b)) t u p' r'"
  shows "runs p (bind_proc (measure P q (fst b)) f) t (measure_tape Follower b @ u) p' r'"
proof -
  have "fst b = 0 \<or> fst b = 1 \<or> fst b = 2" using assms(2,3) by linarith
  then show ?thesis
    using assms(1,4) by (auto simp: device_defs measure_tape_def bind_proc_assoc intro!: quantum_right)
qed

lemma steps_together:
  assumes "paired L F" "can_request L" "length ls = length fs" "bases_within 1 ls" "bases_within 2 fs"
  shows "runs (fold_proc (distribute_step L) (map fst ls) x) (fold_proc (receive_step F) (map fst fs) y)
    (concat (map (\<lambda>p. Num 0 # Num 0 # measure_tape Leader p) ls))
    (concat (map (\<lambda>p. Num 0 # measure_tape Follower p) fs))
    (Ret (x @ map snd ls)) (Ret (y @ map snd fs))"
  using assms(3-)
proof (induction ls fs arbitrary: x y rule: list_induct2)
  case Nil
  show ?case by (simp add: runs_refl)
next
  case (Cons l ls f fs)
  have role: "role_of L = Leader" "role_of F = Follower" using assms(1) by (simp_all add: paired_def)
  have b: "0 \<le> fst l" "fst l \<le> 1" "0 \<le> fst f" "fst f \<le> 2"
    using Cons.prems by (simp_all add: bases_within_def)
  have rest: "runs (fold_proc (distribute_step L) (map fst ls) (x @ [snd l]))
      (fold_proc (receive_step F) (map fst fs) (y @ [snd f]))
      (concat (map (\<lambda>p. Num 0 # Num 0 # measure_tape Leader p) ls))
      (concat (map (\<lambda>p. Num 0 # measure_tape Follower p) fs))
      (Ret (x @ map snd (l # ls))) (Ret (y @ map snd (f # fs)))"
    using Cons.IH [of "x @ [snd l]" "y @ [snd f]"] Cons.prems by (simp add: bases_within_def)
  show ?case
    unfolding list.map fold_proc.simps concat.simps append_Cons distribute_step_def receive_step_def bind_proc_assoc
    by (intro request_left [OF assms(2)] receive_left receive_right measure_left [OF role(1) b(1,2)]
        measure_right [OF role(2) b(3,4)] exchange [OF assms(1)],
      simp only: require_ack bind_proc.simps rest [unfolded list.map distribute_step_def receive_step_def])
qed

section \<open>One distillation\<close>

text \<open>Rounds, and a sample of half of them for the test.\<close>

definition di_session :: "round list \<Rightarrow> round list \<Rightarrow> nat list \<Rightarrow> bool" where
  "di_session ls fs js \<longleftrightarrow> length ls = 100 \<and> length fs = 100 \<and> bases_within 1 ls \<and> bases_within 2 fs
     \<and> length js = 50 \<and> distinct js \<and> (\<forall>j \<in> set js. j < 100)"

definition di_verdict :: "round list \<Rightarrow> round list \<Rightarrow> nat list \<Rightarrow> unit res" where
  "di_verdict ls fs js = verdict (map fst ls) (map fst fs) (map snd ls) (map snd fs) js"

text \<open>The untested rounds in which the leader measured in basis 0 and the follower in basis 2.\<close>

definition di_secret :: "round list \<Rightarrow> round list \<Rightarrow> nat list \<Rightarrow> nat list" where
  "di_secret ls fs js = secret_rounds (map fst ls) (map fst fs) 100 js"

lemma distill_di_together:
  assumes "paired L F" "can_request L" "di_session ls fs js"
  shows "runs (distill_device_independent_data L) (distill_device_independent_data F)
    (leader_tape ls @ [Nums js]) (follower_tape fs)
    (of_res (bindE (di_verdict ls fs js) (\<lambda>_. Inr (map ((!) (map snd ls)) (di_secret ls fs js)))))
    (of_res (bindE (di_verdict ls fs js) (\<lambda>_. Inr (map ((!) (map snd fs)) (di_secret ls fs js)))))"
proof -
  have role: "role_of L = Leader" "role_of F = Follower" using assms(1) by (simp_all add: paired_def)
  have ok: "length ls = 100" "length fs = 100" "bases_within 1 ls" "bases_within 2 fs" "length ls = length fs"
    "length js = 50" "distinct js" "\<forall>j \<in> set js. j < 100"
    using assms(3) by (simp_all add: di_session_def)
  note steps = steps_together [OF assms(1,2) ok(5,3,4), of "[]" "[]"]
  have 1: "runs (device_independent_distribute_bb84 L) (device_independent_receive_bb84 F)
      (leader_tape ls) (follower_tape fs) (Ret (map snd ls, map fst ls)) (Ret (map snd fs, map fst fs))"
  proof -
    have n: "ROUND_SIZE = length ls" "ROUND_SIZE = length fs" using ok by (simp_all add: ROUND_SIZE_def)
    have "runs (bind_proc (fold_proc (distribute_step L) (map fst ls) []) (\<lambda>x. Ret (x, map fst ls)))
        (bind_proc (fold_proc (receive_step F) (map fst fs) []) (\<lambda>x. Ret (x, map fst fs)))
        (concat (map (\<lambda>p. Num 0 # Num 0 # measure_tape Leader p) ls))
        (concat (map (\<lambda>p. Num 0 # measure_tape Follower p) fs))
        (Ret (map snd ls, map fst ls)) (Ret (map snd fs, map fst fs))"
      using runs_seq [OF steps, of "\<lambda>x. Ret (x, map fst ls)" "\<lambda>x. Ret (x, map fst fs)", OF runs_refl] by simp
    then show ?thesis
      unfolding device_independent_distribute_bb84_def device_independent_receive_bb84_def
        leader_tape_def follower_tape_def
      by (subst n(1), subst n(2)) (rule draw_left [OF ok(3)], rule draw_right [OF ok(4)], simp)
  qed
  have 2: "runs (epr_test L (map snd ls) (map fst ls)) (epr_test F (map snd fs) (map fst fs)) [Nums js] []
      (of_res (bindE (di_verdict ls fs js) (\<lambda>_. Inr (map ((!) (map snd ls)) (di_secret ls fs js)))))
      (of_res (bindE (di_verdict ls fs js) (\<lambda>_. Inr (map ((!) (map snd fs)) (di_secret ls fs js)))))"
    using epr_test_together [OF assms(1), of "map snd fs" "map snd ls" "map fst ls" "map fst fs" js] ok
    by (simp add: di_verdict_def di_secret_def)
  have "runs (distill_device_independent_data L) (distill_device_independent_data F)
      (leader_tape ls @ [Nums js]) (follower_tape fs @ [])
      (of_res (bindE (di_verdict ls fs js) (\<lambda>_. Inr (map ((!) (map snd ls)) (di_secret ls fs js)))))
      (of_res (bindE (di_verdict ls fs js) (\<lambda>_. Inr (map ((!) (map snd fs)) (di_secret ls fs js)))))"
    unfolding distill_device_independent_data_def role role.case
    by (rule runs_seq [OF 1]) (simp add: 2)
  then show ?thesis by simp
qed

section \<open>The key\<close>

text \<open>
  Rounds that pass the test and leave at least one secret bit; and a channel that gives such rounds,
  the secret bits of all of them with no more errors than the code corrects.
\<close>

definition passes :: "round list \<Rightarrow> round list \<Rightarrow> nat list \<Rightarrow> bool" where
  "passes ls fs js \<longleftrightarrow> di_session ls fs js \<and> bin (map snd ls) \<and> bin (map snd fs)
     \<and> di_verdict ls fs js = Inr () \<and> di_secret ls fs js \<noteq> []"

definition leader_secret :: "round list \<Rightarrow> round list \<Rightarrow> nat list \<Rightarrow> int list" where
  "leader_secret ls fs js = map ((!) (map snd ls)) (di_secret ls fs js)"

definition follower_secret :: "round list \<Rightarrow> round list \<Rightarrow> nat list \<Rightarrow> int list" where
  "follower_secret ls fs js = map ((!) (map snd fs)) (di_secret ls fs js)"

definition good_device :: "(nat \<Rightarrow> round list) \<Rightarrow> (nat \<Rightarrow> round list) \<Rightarrow> (nat \<Rightarrow> nat list) \<Rightarrow> bool" where
  "good_device ls fs js \<longleftrightarrow> (\<forall>i. passes (ls i) (fs i) (js i))
     \<and> correctable (\<lambda>i. leader_secret (ls i) (fs i) (js i)) (\<lambda>i. follower_secret (ls i) (fs i) (js i))"

lemma bin_nth: "bin x \<Longrightarrow> \<forall>j \<in> set ks. j < length x \<Longrightarrow> bin (map ((!) x) ks)"
  unfolding bin_def by (induction ks) (auto dest: nth_mem)

lemma secret_below: "j \<in> set (di_secret ls fs js) \<Longrightarrow> j < 100"
  by (auto simp: di_secret_def secret_rounds_def Tpp_of_def rest_of_def)

lemma passes_distill:
  assumes "paired L F" "can_request L" "passes ls fs js"
  shows "runs (distill_device_independent_data L) (distill_device_independent_data F)
      (leader_tape ls @ [Nums js]) (follower_tape fs) (Ret (leader_secret ls fs js)) (Ret (follower_secret ls fs js))
    \<and> bin (leader_secret ls fs js) \<and> bin (follower_secret ls fs js)
    \<and> length (leader_secret ls fs js) = length (follower_secret ls fs js) \<and> leader_secret ls fs js \<noteq> []"
proof -
  from assms(3) have p: "di_session ls fs js" "di_verdict ls fs js = Inr ()" "di_secret ls fs js \<noteq> []"
    "bin (map snd ls)" "bin (map snd fs)" by (simp_all add: passes_def)
  have "length (map snd ls) = 100" "length (map snd fs) = 100" using p(1) by (simp_all add: di_session_def)
  then have "bin (leader_secret ls fs js)" "bin (follower_secret ls fs js)"
    unfolding leader_secret_def follower_secret_def
    by (intro bin_nth p(4,5), simp add: secret_below)+
  then show ?thesis
    using distill_di_together [OF assms(1,2) p(1)] p(2,3) by (simp add: leader_secret_def follower_secret_def)
qed

lemma good_device_supply:
  assumes "paired L F" "can_request L" "good_device ls fs js"
  shows "round_supply (distill_device_independent_data L) (distill_device_independent_data F)
    (\<lambda>i. leader_tape (ls i) @ [Nums (js i)]) (\<lambda>i. follower_tape (fs i))
    (\<lambda>i. leader_secret (ls i) (fs i) (js i)) (\<lambda>i. follower_secret (ls i) (fs i) (js i))"
  using passes_distill [OF assms(1,2)] assms(3) unfolding round_supply_def good_device_def by blast


section \<open>Instances\<close>

text \<open>
  The first fifty rounds are the test: one test round that wins, the others match. In its first
  distillation the follower's last three rounds are wrong, all of them among the secret ones.
\<close>

definition demo_follower_rounds :: "nat \<Rightarrow> round list" where
  "demo_follower_rounds i = (0, 0) # replicate 96 (2, 0) @ replicate 3 (2, if i = 0 then 1 else 0)"

lemma demo_nth:
  assumes "j < 100"
  shows "map fst demo_rounds ! j = 0" "map snd demo_rounds ! j = 0"
    "map fst (demo_follower_rounds i) ! j = (if j = 0 then 0 else 2)"
    "map snd (demo_follower_rounds i) ! j = (if j < 97 then 0 else if i = 0 then 1 else 0)"
  using assms by (cases j; simp add: demo_rounds_def demo_follower_rounds_def nth_append)+

lemma demo_lengths: "length demo_rounds = 100" "length (demo_follower_rounds i) = 100"
  by (simp_all add: demo_rounds_def demo_follower_rounds_def)

lemma first_fifty: "filter (\<lambda>j. j = 0) [0..<50] = [0 :: nat]" "filter (\<lambda>j. j \<noteq> 0) [0..<50] = [1..<50 :: nat]"
  by (simp_all add: upt_conv_Cons [of 0 50] del: upt_rec_numeral)

lemma demo_Tp: "Tp_of (map fst (demo_follower_rounds i)) [0..<50] = [0]"
proof -
  have "Tp_of (map fst (demo_follower_rounds i)) [0..<50] = filter (\<lambda>j. j = 0) [0..<50]"
    unfolding Tp_of_def by (rule filter_cong) (auto simp: demo_nth)
  then show ?thesis by (simp only: first_fifty)
qed

lemma demo_Tpp:
  "set ks \<subseteq> {..<100} \<Longrightarrow> Tpp_of (map fst demo_rounds) (map fst (demo_follower_rounds i)) ks = filter (\<lambda>j. j \<noteq> 0) ks"
  unfolding Tpp_of_def by (rule filter_cong) (auto simp: demo_nth subset_eq)

lemma demo_wins:
  "wins (map fst demo_rounds) (map fst (demo_follower_rounds i)) (map snd demo_rounds)
    (map snd (demo_follower_rounds i)) [0..<50] = 1"
proof -
  have "filter (\<lambda>j. (map snd demo_rounds ! j XOR map snd (demo_follower_rounds i) ! j)
      = (map fst demo_rounds ! j AND map fst (demo_follower_rounds i) ! j) \<and> j \<in> set [0]) [0..<50]
    = filter (\<lambda>j. j = 0) [0..<50]"
    by (rule filter_cong) (auto simp: demo_nth)
  then show ?thesis unfolding wins_def demo_Tp by (simp only: first_fifty) simp
qed

lemma demo_matches:
  "matches (map snd demo_rounds) (map snd (demo_follower_rounds i)) [0..<50] [1..<50] = 49"
proof -
  have "filter (\<lambda>j. map snd demo_rounds ! j = map snd (demo_follower_rounds i) ! j \<and> j \<in> set [1..<50]) [0..<50]
      = filter (\<lambda>j. j \<noteq> 0) [0..<50]" by (rule filter_cong) (auto simp: demo_nth)
  then show ?thesis unfolding matches_def by (simp only: first_fifty) simp
qed

lemma demo_verdict: "di_verdict demo_rounds (demo_follower_rounds i) [0..<50] = Inr ()"
proof -
  have "set [0..<50] \<subseteq> {..<100 :: nat}" by auto
  note T = demo_Tpp [OF this, of i, unfolded first_fifty(2)]
  show ?thesis
    unfolding di_verdict_def verdict_def demo_wins demo_Tp T demo_matches
    by (simp add: py_div_def MIN_WIN_def MIN_MATCH_def del: upt_rec_numeral)
qed

lemma demo_secret: "di_secret demo_rounds (demo_follower_rounds i) [0..<50] = [50..<100]"
proof -
  have "rest_of 100 [0..<50] = filter (\<lambda>j. j \<notin> {0..<50}) ([0..<50] @ [50..<50 + 50])"
    unfolding rest_of_def set_upt by (simp only: upt_add_eq_append [symmetric] zero_le) simp
  also have "\<dots> = [50..<100]"
    by (simp add: filter_empty_conv del: upt_rec_numeral)
  finally have "rest_of 100 [0..<50] = [50..<100]" .
  then show ?thesis
    using demo_Tpp [of "[50..<100]" i] by (simp add: di_secret_def secret_rounds_def subset_eq filter_id_conv del: upt_rec_numeral)
qed

lemma demo_passes: "passes demo_rounds (demo_follower_rounds i) [0..<50]"
  unfolding passes_def di_session_def demo_lengths demo_verdict demo_secret
  by (simp add: bases_within_def demo_rounds_def demo_follower_rounds_def list_all_iff bin_def del: upt_rec_numeral)

lemma map_constant: "(\<And>j. m \<le> j \<Longrightarrow> j < n \<Longrightarrow> f j = c) \<Longrightarrow> map f [m..<n] = replicate (n - m) c"
  by (rule nth_equalityI) simp_all

lemma demo_secrets:
  "leader_secret demo_rounds (demo_follower_rounds i) [0..<50] = replicate 47 0 @ replicate 3 0"
  "follower_secret demo_rounds (demo_follower_rounds i) [0..<50] = replicate 47 0 @ replicate 3 (if i = 0 then 1 else 0)"
proof -
  have cut: "[50..<100] = [50..<97] @ [97..<100]"
    using upt_add_eq_append [of 50 97 3] by (simp del: upt_rec_numeral)
  have parts: "map ((!) x) [50..<97] = replicate 47 0" "map ((!) x) [97..<100] = replicate 3 c"
    if "\<And>j. j < 97 \<Longrightarrow> x ! j = 0" "\<And>j. 97 \<le> j \<Longrightarrow> j < 100 \<Longrightarrow> x ! j = c" for x :: "int list" and c
    using that map_constant [of 50 97 "(!) x" 0] map_constant [of 97 100 "(!) x" c] by simp_all
  show "leader_secret demo_rounds (demo_follower_rounds i) [0..<50] = replicate 47 0 @ replicate 3 0"
    using parts [of "map snd demo_rounds" 0] by (simp add: leader_secret_def demo_secret cut demo_nth del: upt_rec_numeral)
  show "follower_secret demo_rounds (demo_follower_rounds i) [0..<50] = replicate 47 0 @ replicate 3 (if i = 0 then 1 else 0)"
    using parts [of "map snd (demo_follower_rounds i)" "if i = 0 then 1 else 0"]
    by (simp add: follower_secret_def demo_secret cut demo_nth del: upt_rec_numeral split del: if_split)
qed

lemma demo_device: "good_device (\<lambda>_. demo_rounds) demo_follower_rounds (\<lambda>_. [0..<50])"
proof -
  have "hdist (replicate 47 (0 :: int) @ replicate 3 0) (replicate 47 0 @ replicate 3 1) \<le> 3"
    by (simp only: hdist_append length_replicate) (simp add: hdist_def numeral_3_eq_3)
  then show ?thesis
    unfolding good_device_def by (intro conjI allI demo_passes correctable_first) (simp_all only: demo_secrets; simp)+
qed


end
