(* ===== verification/Dense.thy ===== *)
theory Dense
  imports Protocol_Base
begin

unbundle bit_operations_syntax

text \<open>
  The class \<open>SuperDenseCoding\<close> of \<^verbatim>\<open>qchat/protocols.py\<close>: two bits of the message travel with each
  qubit. The quantum step is checked on the state vector of the two qubits, the classical part as
  a session of sender and receiver.
\<close>

section \<open>The protocol\<close>

text \<open>Bits \<open>2p\<close> and \<open>2p + 1\<close> of a byte.\<close>

definition low_bit :: "byte \<Rightarrow> nat \<Rightarrow> int" where
  "low_bit b p = (uint b div 2 ^ (2 * p)) AND 1"

definition high_bit :: "byte \<Rightarrow> nat \<Rightarrow> int" where
  "high_bit b p = (uint b div 2 ^ (2 * p + 1)) AND 1"

definition send_pair :: "party \<Rightarrow> int \<Rightarrow> int \<Rightarrow> unit proc" where
  "send_pair P b1 b2 =
     bind_proc (quantum (CreateEPR (peer P))) (\<lambda>qa.
     bind_proc (exchange_messages P ack (message_type (kind P))) (\<lambda>m.
     bind_proc (require m ''ack'' ''Failed to send qubit'') (\<lambda>_.
     bind_proc (if b2 \<noteq> 0 then quantum (GateX qa) else Ret 0) (\<lambda>_.
     bind_proc (if b1 \<noteq> 0 then quantum (GateZ qa) else Ret 0) (\<lambda>_.
     bind_proc (quantum (SendQubit qa (peer P))) (\<lambda>_.
     bind_proc (exchange_messages P ack (message_type (kind P))) (\<lambda>m.
     bind_proc (require m ''ack'' ''Failed to send EPR'') (\<lambda>_.
     bind_proc (wait_for_control_message (message_type (kind P))) (\<lambda>m.
     require m ''ack'' ''Failed to send EPR'')))))))))"

definition send_byte :: "party \<Rightarrow> byte \<Rightarrow> unit proc" where
  "send_byte P b = fold_proc (\<lambda>p _. send_pair P (high_bit b p) (low_bit b p)) [0..<4] ()"

definition send_dense :: "party \<Rightarrow> bytes \<Rightarrow> unit proc" where
  "send_dense P message =
     bind_proc (exchange_messages P [(str ''message_length'', PInt (int (length message)))] (message_type (kind P))) (\<lambda>m.
     bind_proc (require m ''ack'' ''Failed to transmit message length'') (\<lambda>_.
     bind_proc (fold_proc (\<lambda>b _. send_byte P b) message ()) (\<lambda>_.
     end_protocol P)))"

definition receive_pair :: "party \<Rightarrow> nat \<Rightarrow> int \<Rightarrow> int proc" where
  "receive_pair P p b =
     bind_proc (exchange_messages P ack (message_type (kind P))) (\<lambda>m.
     bind_proc (require m ''ack'' ''Failed to receive half of EPR'') (\<lambda>_.
     bind_proc (quantum RecvEPR) (\<lambda>qb.
     bind_proc (exchange_messages P ack (message_type (kind P))) (\<lambda>m.
     bind_proc (require m ''ack'' ''Failed to obtain half of the EPR'') (\<lambda>_.
     bind_proc (quantum RecvQubit) (\<lambda>qa.
     bind_proc (quantum (GateCNOT qa qb)) (\<lambda>_.
     bind_proc (quantum (GateH qa)) (\<lambda>_.
     bind_proc (quantum (Measure qa)) (\<lambda>b1.
     bind_proc (quantum (Measure qb)) (\<lambda>b2.
     bind_proc (send_control_message P ack (message_type (kind P))) (\<lambda>_.
     Ret ((b OR (b2 * 2 ^ (2 * p))) OR (b1 * 2 ^ (2 * p + 1))))))))))))))"

definition receive_byte :: "party \<Rightarrow> bytes \<Rightarrow> bytes proc" where
  "receive_byte P message =
     bind_proc (fold_proc (receive_pair P) [0..<4] 0) (\<lambda>b.
     bind_proc (of_res (to_bytes b 1)) (\<lambda>c. Ret (message @ c)))"

text \<open>\<open>range(message_length)\<close> on a received length: an integer, none when negative.\<close>

definition receive_dense :: "party \<Rightarrow> bytes proc" where
  "receive_dense P =
     bind_proc (exchange_messages P ack (message_type (kind P))) (\<lambda>m.
     bind_proc (data_item m ''message_length'') (\<lambda>v.
     bind_proc (of_res (of_option TypeError (int_of_val v))) (\<lambda>n.
     bind_proc (fold_proc (\<lambda>_. receive_byte P) [0..<nat n] []) (\<lambda>message.
     bind_proc (end_protocol P) (\<lambda>_. Ret message)))))"

section \<open>The quantum step\<close>

text \<open>
  The state of two qubits up to normalization: the amplitudes of 00, 01, 10 and 11, the sender's
  qubit first.
\<close>

type_synonym amplitudes = "int \<times> int \<times> int \<times> int"

definition epr_pair :: amplitudes where "epr_pair = (1, 0, 0, 1)"

fun gate_X :: "amplitudes \<Rightarrow> amplitudes" where "gate_X (a, b, c, d) = (c, d, a, b)"
fun gate_Z :: "amplitudes \<Rightarrow> amplitudes" where "gate_Z (a, b, c, d) = (a, b, - c, - d)"
fun gate_CNOT :: "amplitudes \<Rightarrow> amplitudes" where "gate_CNOT (a, b, c, d) = (a, b, d, c)"
fun gate_H :: "amplitudes \<Rightarrow> amplitudes" where "gate_H (a, b, c, d) = (a + c, b + d, a - c, b - d)"

text \<open>The outcome of measuring both, where it is certain: the first qubit's bit, then the second's.\<close>

definition certain_outcome :: "amplitudes \<Rightarrow> (int \<times> int) option" where
  "certain_outcome s = (case s of (a, b, c, d) \<Rightarrow>
     if b = 0 \<and> c = 0 \<and> d = 0 then Some (0, 0)
     else if a = 0 \<and> c = 0 \<and> d = 0 then Some (0, 1)
     else if a = 0 \<and> b = 0 \<and> d = 0 then Some (1, 0)
     else if a = 0 \<and> b = 0 \<and> c = 0 then Some (1, 1) else None)"

text \<open>What sender and receiver do to the pair: the gates of \<open>send_pair\<close> and \<open>receive_pair\<close>.\<close>

definition dense_state :: "int \<Rightarrow> int \<Rightarrow> amplitudes" where
  "dense_state b1 b2 =
     (let s = epr_pair;
          s = (if b2 \<noteq> 0 then gate_X s else s);
          s = (if b1 \<noteq> 0 then gate_Z s else s)
      in gate_H (gate_CNOT s))"

lemma dense_outcome: "b1 \<in> {0, 1} \<Longrightarrow> b2 \<in> {0, 1} \<Longrightarrow> certain_outcome (dense_state b1 b2) = Some (b1, b2)"
  by (auto simp: dense_state_def epr_pair_def certain_outcome_def)

section \<open>The session\<close>

definition gate_tape :: "int \<Rightarrow> tape" where
  "gate_tape b = (if b \<noteq> 0 then [Num 0] else [])"

definition pair_send_tape :: "int \<Rightarrow> int \<Rightarrow> tape" where
  "pair_send_tape b1 b2 = Num 0 # gate_tape b2 @ gate_tape b1 @ [Num 0]"

text \<open>The receiver measures what the two qubits certainly give.\<close>

definition pair_receive_tape :: "int \<Rightarrow> int \<Rightarrow> tape" where
  "pair_receive_tape b1 b2 = (case certain_outcome (dense_state b1 b2) of
     None \<Rightarrow> []
   | Some (m1, m2) \<Rightarrow> [Num 0, Num 1, Num 0, Num 0, Num m1, Num m2])"

definition byte_tape :: "(int \<Rightarrow> int \<Rightarrow> tape) \<Rightarrow> byte \<Rightarrow> tape" where
  "byte_tape f b = concat (map (\<lambda>p. f (high_bit b p) (low_bit b p)) [0..<4])"

definition message_tape :: "(int \<Rightarrow> int \<Rightarrow> tape) \<Rightarrow> bytes \<Rightarrow> tape" where
  "message_tape f bs = concat (map (byte_tape f) bs)"

lemma gate_left:
  assumes "runs (f ()) r t u p' r'"
  shows "runs (bind_proc (if b \<noteq> 0 then quantum op else Ret 0) (\<lambda>_. f ())) r (gate_tape b @ t) u p' r'"
  using assms quantum_left [of "\<lambda>_. f ()", OF assms] by (simp add: gate_tape_def)

lemma pair_together:
  assumes "paired L F" "b1 \<in> {0, 1}" "b2 \<in> {0, 1}"
  shows "runs (send_pair L b1 b2) (receive_pair F p b) (pair_send_tape b1 b2) (pair_receive_tape b1 b2)
    (Ret ()) (Ret ((b OR (b2 * 2 ^ (2 * p))) OR (b1 * 2 ^ (2 * p + 1))))"
proof -
  have k: "kind F = kind L" using assms(1) by (simp add: paired_def)
  have len: "length (me L) \<le> 16" "length (me F) \<le> 16" using assms(1) by (simp_all add: paired_def)
  have tapes: "pair_receive_tape b1 b2 = Num 0 # Num 1 # Num 0 # Num 0 # Num b1 # Num b2 # []"
    "pair_send_tape b1 b2 = Num 0 # gate_tape b2 @ gate_tape b1 @ Num 0 # []"
    using dense_outcome [OF assms(2,3)] by (simp_all add: pair_receive_tape_def pair_send_tape_def)
  show ?thesis
    unfolding send_pair_def receive_pair_def k tapes
    by (rule quantum_left, rule exchange [OF assms(1)], simp only: require_ack bind_proc.simps,
        rule quantum_right, rule gate_left, rule gate_left, rule quantum_left,
        rule exchange [OF assms(1)], simp only: require_ack bind_proc.simps,
        (rule quantum_right)+, rule send_left [OF assms(1)])
      (simp add: require_ack runs_refl)
qed

lemma bit_values: "low_bit b p \<in> {0, 1}" "high_bit b p \<in> {0, 1}"
  by (simp_all add: low_bit_def high_bit_def and_one_eq) (auto simp: mod2_eq_if)

text \<open>The eight bits, put back where they came from, are the byte.\<close>

definition put_pair :: "byte \<Rightarrow> nat \<Rightarrow> int \<Rightarrow> int" where
  "put_pair c p b = (b OR (low_bit c p * 2 ^ (2 * p))) OR (high_bit c p * 2 ^ (2 * p + 1))"

lemma low_bit_shift: "low_bit c p * 2 ^ (2 * p) = push_bit (2 * p) (of_bool (bit c (2 * p)))"
proof -
  have "uint c div 2 ^ (2 * p) = drop_bit (2 * p) (uint c)" by (simp add: drop_bit_eq_div)
  then have "low_bit c p = of_bool (bit (uint c) (2 * p))"
    by (simp add: low_bit_def and_one_eq bit_iff_odd_drop_bit mod2_eq_if)
  moreover have "bit (uint c) (2 * p) = bit c (2 * p)"
    using bit_imp_le_length [of c "2 * p"] by (auto simp: bit_uint_iff)
  ultimately show ?thesis by (simp add: push_bit_eq_mult)
qed

lemma high_bit_shift: "high_bit c p * 2 ^ (2 * p + 1) = push_bit (2 * p + 1) (of_bool (bit c (2 * p + 1)))"
proof -
  have "uint c div 2 ^ (2 * p + 1) = drop_bit (2 * p + 1) (uint c)" by (simp add: drop_bit_eq_div)
  then have "high_bit c p = of_bool (bit (uint c) (2 * p + 1))"
    by (simp add: high_bit_def and_one_eq bit_iff_odd_drop_bit mod2_eq_if del: power_Suc)
  moreover have "bit (uint c) (2 * p + 1) = bit c (2 * p + 1)"
    using bit_imp_le_length [of c "2 * p + 1"] by (auto simp: bit_uint_iff)
  ultimately show ?thesis by (simp add: push_bit_eq_mult)
qed

lemma bit_single: "bit (push_bit n (of_bool c) :: int) k \<longleftrightarrow> c \<and> k = n"
  by (auto simp: bit_push_bit_iff bit_1_iff)

lemma bit_put_pair: "bit (put_pair c p b) n \<longleftrightarrow> bit b n \<or> bit c n \<and> n div 2 = p"
proof -
  have "n div 2 = p \<longleftrightarrow> n = 2 * p \<or> n = 2 * p + 1" by presburger
  then show ?thesis
    unfolding put_pair_def low_bit_shift high_bit_shift bit_or_iff bit_single by auto
qed

lemma bit_put_pairs: "bit (fold (put_pair c) ps b) n \<longleftrightarrow> bit b n \<or> bit c n \<and> n div 2 \<in> set ps"
  by (induction ps arbitrary: b) (auto simp: bit_put_pair)

lemma put_byte: "fold (put_pair c) [0..<4] 0 = uint c"
proof (rule bit_eqI)
  fix n :: nat
  have "n div 2 < 4 \<longleftrightarrow> n < 8" by presburger
  then show "bit (fold (put_pair c) [0..<4] 0) n \<longleftrightarrow> bit (uint c) n"
    by (simp add: bit_put_pairs bit_uint_iff conj_commute del: upt_rec_numeral)
qed

lemma to_bytes_one: "to_bytes (uint (c :: byte)) 1 = Inr [c]"
proof -
  have c: "uint c = int (unat c)" by simp
  have "be_bytes 1 (unat c) = [c]" by simp
  then show ?thesis unfolding c by (subst to_bytes_nat) simp_all
qed

lemma byte_together:
  assumes "paired L F"
  shows "runs (send_byte L c) (receive_byte F acc) (byte_tape pair_send_tape c) (byte_tape pair_receive_tape c)
    (Ret ()) (Ret (acc @ [c]))"
proof -
  let ?s = "\<lambda>p. pair_send_tape (high_bit c p) (low_bit c p)"
  let ?r = "\<lambda>p. pair_receive_tape (high_bit c p) (low_bit c p)"
  have pair: "runs (send_pair L (high_bit c p) (low_bit c p)) (receive_pair F p b) (?s p) (?r p)
      (Ret ()) (Ret (put_pair c p b))" for p b
    unfolding put_pair_def by (rule pair_together [OF assms bit_values(2,1)])
  have fold: "runs (fold_proc (\<lambda>p _. send_pair L (high_bit c p) (low_bit c p)) ps ()) (fold_proc (receive_pair F) ps b)
      (concat (map ?s ps)) (concat (map ?r ps)) (Ret ()) (Ret (fold (put_pair c) ps b))" for ps b
  proof (induction ps arbitrary: b)
    case (Cons p ps)
    show ?case
      unfolding fold_proc.simps list.map concat.simps fold.simps o_apply
      by (rule runs_seq, rule pair, rule Cons.IH)
  qed (simp add: runs_refl)
  have "runs (bind_proc (send_byte L c) Ret) (receive_byte F acc)
      (byte_tape pair_send_tape c @ []) (byte_tape pair_receive_tape c @ []) (Ret ()) (Ret (acc @ [c]))"
    unfolding send_byte_def receive_byte_def byte_tape_def
    by (rule runs_seq [OF fold]) (simp only: put_byte to_bytes_one of_res_simps bind_proc.simps runs_refl)
  then show ?thesis by (simp add: bind_proc_Ret)
qed

lemma bytes_together:
  assumes "paired L F" "length ns = length bs"
  shows "runs (fold_proc (\<lambda>b _. send_byte L b) bs ()) (fold_proc (\<lambda>_. receive_byte F) ns acc)
    (message_tape pair_send_tape bs) (message_tape pair_receive_tape bs) (Ret ()) (Ret (acc @ bs))"
  using assms(2)
proof (induction ns bs arbitrary: acc rule: list_induct2)
  case Nil
  show ?case by (simp add: message_tape_def runs_refl)
next
  case (Cons n ns b bs)
  have "message_tape f (b # bs) = byte_tape f b @ message_tape f bs" for f
    by (simp add: message_tape_def)
  then show ?case
    using Cons.IH [of "acc @ [b]"] by simp (rule runs_seq, rule byte_together [OF assms(1)], simp)
qed

lemma dense_together:
  assumes "paired L F"
  shows "runs (send_dense L bs) (receive_dense F) (message_tape pair_send_tape bs) (message_tape pair_receive_tape bs)
    (Ret ()) (Ret bs)"
proof -
  have k: "kind F = kind L" using assms by (simp add: paired_def)
  let ?d = "[(str ''message_length'', PInt (int (length bs)))]"
  have body: "runs
      (bind_proc (fold_proc (\<lambda>b _. send_byte L b) bs ()) (\<lambda>_. end_protocol L))
      (bind_proc (fold_proc (\<lambda>_. receive_byte F) [0..<length bs] []) (\<lambda>message.
        bind_proc (end_protocol F) (\<lambda>_. Ret message)))
      (message_tape pair_send_tape bs @ [] @ []) (message_tape pair_receive_tape bs @ [] @ []) (Ret ()) (Ret bs)"
  proof (rule runs_seq [OF bytes_together [OF assms]])
    have "runs (bind_proc (end_protocol L) Ret) (bind_proc (end_protocol F) (\<lambda>_. Ret bs)) ([] @ []) ([] @ []) (Ret ()) (Ret bs)"
      by (rule runs_seq [OF end_together [OF assms]]) (rule runs_refl)
    then show "runs (end_protocol L) (bind_proc (end_protocol F) (\<lambda>_. Ret ([] @ bs))) ([] @ []) ([] @ []) (Ret ()) (Ret bs)"
      by (simp add: bind_proc_Ret)
  qed simp
  show ?thesis
    unfolding send_dense_def receive_dense_def k
    by (rule exchange [OF assms]) (use body in \<open>simp add: require_ack data_item_msg int_of_val_def\<close>)
qed



end
