(* ===== verification/Client.thy ===== *)
theory Client
  imports Core Mailbox BB84_Key Dense Device_Independent
begin

text \<open>
  \<^verbatim>\<open>qchat/client.py\<close>: the chat client. It adds to the core a mailbox and an outbound queue,
  leads and follows the protocols, and encrypts and decrypts the chat messages. A protocol runs in
  a thread of the client while other threads fill its control queue: the messages that arrive
  during the run, what it draws and what the quantum library answers are arguments, gathered in
  a record \<open>world\<close>.
\<close>

section \<open>State\<close>

record client = core +
  mailbox :: mailbox
  outbound_queue :: "(pyval \<times> message) list"

text \<open>
  The constructor: its own parts are made first, then those of the core, which registers the
  client. (The threads it starts read the queues; their turns are the steps of the client.)
\<close>

definition client_init ::
  "crypto \<Rightarrow> dict \<Rightarrow> pystr \<Rightarrow> bytes \<Rightarrow> bool \<Rightarrow> (pyval \<Rightarrow> pyval \<Rightarrow> pyexn option) \<Rightarrow> client res" where
  "client_init C base_config name key allow route =
     bindE (core_init C base_config name key allow route) (\<lambda>s.
     Inr (core.extend s \<lparr>mailbox = mailbox_init, outbound_queue = []\<rparr>))"

text \<open>
  The surroundings of one call: the states that other threads leave while it waits for a lookup,
  the messages that arrive while it waits for its peer, its tape, the nonce that the cipher draws,
  and the fuel of the protocol loops.
\<close>

record world =
  turns :: "client list"
  arrivals :: "message list"
  tape_of :: tape
  nonce_of :: bytes
  fuel_of :: nat

section \<open>Running a protocol\<close>

text \<open>
  A wait takes the oldest message of the peer's control queue, then those that arrive later; when
  no more come it times out. Messages to the peer go into the outbound queue.
\<close>

primrec drive :: "'r proc \<Rightarrow> tape \<Rightarrow> message list \<Rightarrow> pystr \<Rightarrow> pyval \<Rightarrow> (unit client_ext, 'r) op" where
  "drive (Ret x) t ms u to s = (Inr x, s)"
| "drive (Raise e) t ms u to s = (Inl e, s)"
| "drive Stuck t ms u to s = (Inl (PyException ''out of fuel''), s)"
| "drive (Put m p) t ms u to s = drive p t ms u to (s\<lparr>outbound_queue := outbound_queue s @ [(to, m)]\<rparr>)"
| "drive (Get k) t ms u to s = (case control_message_queue s u of
     m # q \<Rightarrow> drive (k (Some m)) t ms u to (s\<lparr>control_message_queue := (control_message_queue s)(u := q)\<rparr>)
   | [] \<Rightarrow> (case ms of
       m # ms' \<Rightarrow> drive (k (Some m)) t ms' u to s
     | [] \<Rightarrow> drive (k None) t [] u to s))"
| "drive (Rand lo hi k) t ms u to s = (case t of
     Num v # t' \<Rightarrow> if lo \<le> v \<and> v \<le> hi then drive (k v) t' ms u to s else (Inl (PyException ''tape''), s)
   | _ \<Rightarrow> (Inl (PyException ''tape''), s))"
| "drive (Sample n c k) t ms u to s = (case t of
     Nums js # t' \<Rightarrow> if length js = c \<and> distinct js \<and> (\<forall>j \<in> set js. j < n) then drive (k js) t' ms u to s
       else (Inl (PyException ''tape''), s)
   | _ \<Rightarrow> (Inl (PyException ''tape''), s))"
| "drive (Quant op k) t ms u to s = (case t of
     Num v # t' \<Rightarrow> drive (k (Inr v)) t' ms u to s
   | Fail e # t' \<Rightarrow> drive (k (Inl e)) t' ms u to s
   | _ \<Rightarrow> (Inl (PyException ''tape''), s))"

text \<open>The constructor and what is run on the object.\<close>

definition key_program :: "nat \<Rightarrow> party \<Rightarrow> bytes proc" where
  "key_program fuel P = bind_proc (start_protocol P) (\<lambda>_.
     case kind P of DIQKD \<Rightarrow> diqkd_execute fuel P | _ \<Rightarrow> bb84_execute fuel P)"

text \<open>
  \<open>{"user": user}\<close> updated with the user's connection record: its entry \<open>user\<close>, if it has one,
  wins. (Anything but a dictionary raises; a list of pairs is not modelled.)
\<close>

definition peer_user :: "pyval \<Rightarrow> pyval \<Rightarrow> pyval res" where
  "peer_user user connection = (case connection of
     PDict d \<Rightarrow> Inr (dict_get (dupdate [(str ''user'', user)] d) ''user'')
   | _ \<Rightarrow> Inl TypeError)"

text \<open>The key of a peer's control queue: a message's sender is a string.\<close>

definition queue_name :: "pyval \<Rightarrow> pystr res" where
  "queue_name v = (case v of PStr n \<Rightarrow> Inr n | PList _ \<Rightarrow> Inl TypeError | PDict _ \<Rightarrow> Inl TypeError | _ \<Rightarrow> Inr [])"

definition run_with_peer ::
  "protocol \<Rightarrow> role \<Rightarrow> pyval \<Rightarrow> pyval \<Rightarrow> world \<Rightarrow> (party \<Rightarrow> 'r proc) \<Rightarrow> (unit client_ext, 'r) op" where
  "run_with_peer k r user ks w program =
     andThen (core_getConnectionInfo user) (\<lambda>connection.
     andThen (lift (peer_user user connection)) (\<lambda>to.
     andThen (gets (\<lambda>s. make_party k (conn_name (conn s)) to r (root_config s) ks)) (\<lambda>party.
     andThen (lift party) (\<lambda>P.
     andThen (lift (queue_name user)) (\<lambda>u.
     drive (program P) (tape_of w) (arrivals w) u to)))))"

section \<open>Leading\<close>

definition change_info :: "pyval \<Rightarrow> dict \<Rightarrow> (unit client_ext, unit) op" where
  "change_info user kwargs = andThen (lift (db_key user)) (\<lambda>k.
     modifies (\<lambda>s. s\<lparr>userDB := changeUserInfo k kwargs (userDB s)\<rparr>))"

definition establish_key :: "world \<Rightarrow> protocol \<Rightarrow> pyval \<Rightarrow> pyval \<Rightarrow> (unit client_ext, unit) op" where
  "establish_key w k user ks =
     andThen (has_user user) (\<lambda>known.
     if known then
       andThen (run_with_peer k Leader user ks w (key_program (fuel_of w))) (\<lambda>key.
       change_info user [(str ''message_key'', PBytes key)])
     else throw (PyException ''No known user''))"

definition core_getMessageKey :: "pyval \<Rightarrow> (unit client_ext, pyval) op" where
  "core_getMessageKey user s = (bindE (db_key user) (getMessageKey (userDB s)), s)"

definition createQChatMessage :: "crypto \<Rightarrow> world \<Rightarrow> pyval \<Rightarrow> pystr \<Rightarrow> (unit client_ext, message) op" where
  "createQChatMessage C w user plaintext =
     andThen (core_getMessageKey user) (\<lambda>key.
     andThen (if truthy key then ret key
       else andThen (establish_key w BB84_PURIFIED user (PInt 16)) (\<lambda>_. core_getMessageKey user)) (\<lambda>user_key.
     andThen (lift (latin1_encode plaintext)) (\<lambda>data.
     andThen (lift (cipher_encrypt C user_key (nonce_of w) data)) (\<lambda>(nonce, ciphertext, tag).
     andThen (gets core_name) (\<lambda>name.
     lift (mk_message QCHT name (PDict [
       (str ''nonce'', PStr (latin1_decode nonce)),
       (str ''ciphertext'', PStr (latin1_decode ciphertext)),
       (str ''tag'', PStr (latin1_decode tag))])))))))"

definition sendQChatMessage :: "crypto \<Rightarrow> world \<Rightarrow> pyval \<Rightarrow> pystr \<Rightarrow> (unit client_ext, unit) op" where
  "sendQChatMessage C w user plaintext =
     andThen (has_user user) (\<lambda>known.
     andThen (if known then ret () else requestUserInfo C (turns w) user) (\<lambda>_.
     andThen (createQChatMessage C w user plaintext) (\<lambda>m.
     sendMessage C (turns w) user m)))"

definition sendSuperDenseMessage :: "crypto \<Rightarrow> world \<Rightarrow> pyval \<Rightarrow> pystr \<Rightarrow> (unit client_ext, unit) op" where
  "sendSuperDenseMessage C w user plaintext =
     andThen (has_user user) (\<lambda>known.
     andThen (if known then ret () else requestUserInfo C (turns w) user) (\<lambda>_.
     run_with_peer SUPERDENSE Leader user PNone w (\<lambda>P.
       bind_proc (start_protocol P) (\<lambda>_.
       bind_proc (of_res (latin1_encode plaintext)) (send_dense P)))))"

section \<open>Following\<close>

definition store_in_mailbox :: "message \<Rightarrow> (unit client_ext, unit) op" where
  "store_in_mailbox m = modifies (\<lambda>s. s\<lparr>mailbox := storeMessage m (mailbox s)\<rparr>)"

definition follow_request :: "world \<Rightarrow> message \<Rightarrow> (unit client_ext, unit) op" where
  "follow_request w m =
     andThen (core_getConnectionInfo (PStr (msg_sender m))) (\<lambda>connection.
     andThen (lift (peer_user (PStr (msg_sender m)) connection)) (\<lambda>_.
     andThen (lift (pop_key (msg_data m) ''name'')) (\<lambda>(name, rest).
     andThen (lift (createProtocol name)) (\<lambda>p.
     case p of
       None \<Rightarrow> throw AttributeError
     | Some SUPERDENSE \<Rightarrow>
         andThen (lift (call_kwargs [] rest)) (\<lambda>_.
         andThen (run_with_peer SUPERDENSE Follower (PStr (msg_sender m)) PNone w (\<lambda>P.
           bind_proc (start_protocol P) (\<lambda>_. receive_dense P))) (\<lambda>received.
         andThen (lift (mk_message SPDS (msg_sender m) (PDict [(str ''plaintext'', PBytes received)])))
           store_in_mailbox))
     | Some k \<Rightarrow>
         andThen (lift (call_kwargs [''key_size''] rest)) (\<lambda>d.
         andThen (run_with_peer k Follower (PStr (msg_sender m)) (dict_get d ''key_size'') w
           (key_program (fuel_of w))) (\<lambda>key.
         change_info (PStr (msg_sender m)) [(str ''message_key'', PBytes key)]))))))"

definition client_handlers :: "crypto \<Rightarrow> world \<Rightarrow> unit client_ext handlers" where
  "client_handlers C w = (\<lambda>c. case c of
     QCHT \<Rightarrow> Some store_in_mailbox
   | GETU \<Rightarrow> Some (pass_sendUserInfo C)
   | PUTU \<Rightarrow> Some pass_addUserInfo
   | PTCL \<Rightarrow> Some (follow_request w)
   | _ \<Rightarrow> None)"

section \<open>The message history\<close>

type_synonym history = "(pystr \<times> pyval list) list"

text \<open>\<open>messages[sender].append(message)\<close>\<close>

definition add_history :: "pystr \<Rightarrow> pyval \<Rightarrow> history \<Rightarrow> history" where
  "add_history sender v h = dset sender ((case map_of h sender of None \<Rightarrow> [] | Some vs \<Rightarrow> vs) @ [v]) h"

definition data_bytes :: "message \<Rightarrow> string \<Rightarrow> bytes res" where
  "data_bytes m k = bindE (getitem (msg_data m) k) encode_latin1"

text \<open>The plaintext stays bytes: the code drops the result of its \<open>message.decode\<close>.\<close>

definition read_mail :: "crypto \<Rightarrow> userdb \<Rightarrow> message \<Rightarrow> pyval res" where
  "read_mail C db m =
     (if msg_class m = QCHT then
        bindE (getMessageKey db (PStr (msg_sender m))) (\<lambda>user_key.
        bindE (data_bytes m ''nonce'') (\<lambda>nonce.
        bindE (data_bytes m ''ciphertext'') (\<lambda>ciphertext.
        bindE (data_bytes m ''tag'') (\<lambda>tag.
        bindE (cipher_decrypt C user_key (nonce, ciphertext, tag)) (\<lambda>p. Inr (PBytes p))))))
      else if msg_class m = SPDS then getitem (msg_data m) ''plaintext''
      else Inl (PyException ''Got malformed message from mailbox''))"

definition getMessageHistory :: "crypto \<Rightarrow> (unit client_ext, history) op" where
  "getMessageHistory C s =
     (foldE (\<lambda>m h. bindE (read_mail C (userDB s) m) (\<lambda>v. Inr (add_history (msg_sender m) v h)))
        (fst (popMessages (mailbox s))) [],
      s\<lparr>mailbox := snd (popMessages (mailbox s))\<rparr>)"

section \<open>The outbound queue\<close>

definition put_outbound :: "pyval \<times> message \<Rightarrow> (pyval \<times> message) list \<Rightarrow> (pyval \<times> message) list" where
  "put_outbound m q = q @ [m]"

definition get_outbound :: "(pyval \<times> message) list \<Rightarrow> ((pyval \<times> message) \<times> (pyval \<times> message) list) option" where
  "get_outbound q = (case q of [] \<Rightarrow> None | m # q' \<Rightarrow> Some (m, q'))"

interpretation outbound: fifo "\<lambda>q. q" put_outbound get_outbound
  by unfold_locales (simp_all add: put_outbound_def get_outbound_def)

text \<open>
  The sending thread empties the queue; an exception ends the thread. \<open>n\<close> bounds the messages sent
  (the loop of the thread itself does not end).
\<close>

fun send_outbound_messages :: "crypto \<Rightarrow> client list \<Rightarrow> nat \<Rightarrow> (unit client_ext, unit) op" where
  "send_outbound_messages C ts 0 s = (Inr (), s)"
| "send_outbound_messages C ts (Suc n) s = (case get_outbound (outbound_queue s) of
     None \<Rightarrow> (Inr (), s)
   | Some ((user, m), q) \<Rightarrow>
       (case sendMessage C ts user m (s\<lparr>outbound_queue := q\<rparr>) of
          (Inl e, s') \<Rightarrow> (Inl e, s')
        | (Inr _, s') \<Rightarrow> send_outbound_messages C ts n s'))"

end
