(* ===== verification/Ordering.thy ===== *)
theory Ordering
  imports DIQKD_Key Client "HOL-Library.Multiset"
begin

text \<open>
  Sessions whose queues may be reordered. The core starts a thread for each message that arrives,
  and it is the thread that puts a control message into the queue of its sender, so two messages
  that are on the way together may arrive in either order. The BB84 protocol never has two on the
  way: its parties strictly take turns. The device-independent protocol has, in its test.
\<close>

section \<open>Reordering\<close>

inductive rstep :: "('a, 'b) session \<Rightarrow> ('a, 'b) session \<Rightarrow> bool" where
  ordered: "sstep c d \<Longrightarrow> rstep c d"
| swapped: "mset ql' = mset ql \<Longrightarrow> mset qr' = mset qr \<Longrightarrow> rstep (l, r, ql, qr) (l, r, ql', qr')"

lemma swap_short: "mset q' = mset q \<Longrightarrow> length q \<le> 1 \<Longrightarrow> q' = q"
  by (cases q) auto

section \<open>Taking turns\<close>

text \<open>
  \<open>takes_turns p w w'\<close>: the program \<open>p\<close> sends only when it is its turn and waits only when it is not,
  where a message passes the turn on; it starts with the turn (\<open>w\<close>) or without and, if it
  returns, returns with it (\<open>w'\<close>) or without.
\<close>

primrec takes_turns :: "'a proc \<Rightarrow> bool \<Rightarrow> bool \<Rightarrow> bool" where
  "takes_turns (Ret x) w w' = (w = w')"
| "takes_turns (Raise e) w w' = True"
| "takes_turns Stuck w w' = True"
| "takes_turns (Put m p) w w' = (w \<and> takes_turns p False w')"
| "takes_turns (Get k) w w' = (\<not> w \<and> (\<forall>m. takes_turns (k m) True w'))"
| "takes_turns (Rand lo hi k) w w' = (\<forall>v. takes_turns (k v) w w')"
| "takes_turns (Sample n c k) w w' = (\<forall>js. takes_turns (k js) w w')"
| "takes_turns (Quant q k) w w' = (\<forall>v. takes_turns (k v) w w')"

named_theorems turns \<open>programs that take turns\<close>

lemma turns_bind:
  "takes_turns p w v \<Longrightarrow> (\<And>x. takes_turns (f x) v w') \<Longrightarrow> takes_turns (bind_proc p f) w w'"
  by (induction p arbitrary: w) auto

lemma turns_then [turns]:
  "takes_turns p w w \<Longrightarrow> (\<And>x. takes_turns (f x) w w') \<Longrightarrow> takes_turns (bind_proc p f) w w'"
  by (rule turns_bind)

lemma turns_return [turns]:
  "takes_turns (Ret x) w w" "takes_turns (Raise e) w v" "takes_turns Stuck w v"
  by simp_all

lemma turns_draw [turns]:
  "(\<And>v. takes_turns (k v) w w') \<Longrightarrow> takes_turns (Rand lo hi k) w w'"
  "(\<And>js. takes_turns (g js) w w') \<Longrightarrow> takes_turns (Sample n c g) w w'"
  by simp_all

lemma turns_choice [turns]:
  "takes_turns p w w' \<Longrightarrow> takes_turns r w w' \<Longrightarrow> takes_turns (if b then p else r) w w'"
  by simp

lemma turns_pure [turns]:
  "takes_turns (of_res r) w w"
  "takes_turns (quantum q) w w"
  "takes_turns (data_item m k) w w"
  "takes_turns (require m k err) w w"
  by (auto simp: of_res_def quantum_def data_item_def require_def intro!: turns_bind split: sum.split)

lemma turns_fold [turns]:
  "(\<And>x s. takes_turns (f x s) w w) \<Longrightarrow> takes_turns (fold_proc f xs s) w w"
  by (induction xs arbitrary: s) (auto intro: turns)

text \<open>The leader has the turn between the exchanges.\<close>

abbreviation leads :: "party \<Rightarrow> bool" where
  "leads P \<equiv> role_of P = Leader"

lemma turns_control:
  "takes_turns (send_control_message P d c) True False"
  "takes_turns (wait_for_control_message c) False True"
  by (auto simp: send_control_message_def wait_for_control_message_def split: sum.split option.split)

lemma turns_exchange [turns]: "w = leads P \<Longrightarrow> takes_turns (exchange_messages P d c) w w"
  by (cases "role_of P") (auto simp: exchange_messages_def intro!: turns_bind turns_control turns_return)

lemma turns_device [turns]:
  "takes_turns (requestEPR P) w w"
  "takes_turns (receiveEPR P) w w"
  by (auto simp: requestEPR_def device_defs intro!: turns split: role.split sum.split)

lemma turns_end [turns]: "w = leads P \<Longrightarrow> takes_turns (end_protocol P) w w"
  unfolding end_protocol_exchange by (intro turns)

text \<open>The parts of the BB84 protocol.\<close>

lemma turns_states [turns]: "w = leads P \<Longrightarrow> takes_turns (receive_states P n x theta) w w"
  by (induction n arbitrary: x theta) (auto intro!: turns)

lemma turns_sifting [turns]: "w = leads P \<Longrightarrow> takes_turns (filter_theta P x theta) w w"
  unfolding filter_theta_def by (intro turns)

lemma turns_picks [turns]: "takes_turns (pick_tests n x b i) w w"
  by (induction n arbitrary: x b i) (auto intro!: turns split: prod.split)

lemma turns_estimate [turns]: "w = leads P \<Longrightarrow> takes_turns (estimate_error_rate P x) w w"
  unfolding estimate_error_rate_def by (auto intro!: turns split: role.split prod.split)

lemma turns_distill: "w = leads P \<Longrightarrow> takes_turns (distill_tested_data P) w w"
  unfolding distill_tested_data_def receive_bb84_states_def by (auto intro!: turns split: prod.split)

lemma turns_words [turns]: "w = leads P \<Longrightarrow> takes_turns (reconcile_words P cs r) w w"
  by (induction cs arbitrary: r) (auto intro!: turns split: role.split)

lemma turns_amplify [turns]: "w = leads P \<Longrightarrow> takes_turns (amplify_privacy P X) w w"
proof (cases "role_of P")
  case Leader
  then show "w = leads P \<Longrightarrow> takes_turns (amplify_privacy P X) w w"
    by (auto simp: amplify_privacy_def intro!: turns)
next
  case Follower
  then show "w = leads P \<Longrightarrow> takes_turns (amplify_privacy P X) w w"
    by (auto simp: amplify_privacy_def intro!: turns turns_bind [OF turns_control(1)] turns_bind [OF turns_control(2)])
qed

text \<open>The loops, over any source of bits that keeps the turn.\<close>

lemma turns_collect_bits [turns]:
  "takes_turns d w w \<Longrightarrow> takes_turns (collect_bits d n s) w w"
  by (induction n arbitrary: s) (subst collect_bits.simps; auto intro!: turns)+

lemma turns_collect_reconciled [turns]:
  "w = leads P \<Longrightarrow> takes_turns d w w \<Longrightarrow> takes_turns (collect_reconciled P d fuel n s c) w w"
  by (induction n arbitrary: s c)
    (subst collect_reconciled.simps; auto simp: reconcile_information_def intro!: turns split: prod.split)+

lemma turns_collect_key [turns]:
  "w = leads P \<Longrightarrow> takes_turns d w w \<Longrightarrow> takes_turns (collect_key P d fuel n s c key) w w"
  by (induction n arbitrary: s c key) (subst collect_key.simps; auto intro!: turns split: prod.split)+

lemma turns_bb84: "w = leads P \<Longrightarrow> takes_turns (bb84_execute fuel P) w w"
  unfolding bb84_execute_def execute_with_def by (auto intro!: turns turns_distill)

text \<open>The handshake: the leader keeps the turn, the follower answers once.\<close>

lemma turns_lead: "takes_turns (lead_protocol P) True True"
  unfolding lead_protocol_first
  by (rule turns_bind [OF turns_control(1)], rule turns_bind [OF turns_control(2)]) (auto intro!: turns)

lemma turns_key_program:
  assumes "kind P = BB84_PURIFIED"
  shows "takes_turns (key_program fuel P) True (leads P)"
proof (cases "role_of P")
  case Leader
  then show ?thesis using assms turns_lead turns_bb84 [of True P]
    by (auto simp: key_program_def start_protocol_def intro!: turns_then)
next
  case Follower
  with assms show ?thesis
    by (auto simp: key_program_def start_protocol_def follow_protocol_answer
        intro!: turns_bind [OF turns_control(1)] turns_bb84)
qed

section \<open>One message at a time\<close>

text \<open>A step passes the turn to the message it sends and takes it from the message it receives.\<close>

lemma advance_turn:
  "advance p t q = Some (p', t', q', out) \<Longrightarrow> takes_turns p w v \<Longrightarrow>
    \<exists>w'. takes_turns p' w' v \<and> of_bool w' + length q' + length out = of_bool w + length q"
proof (induction p t q rule: advance.induct)
  case (1 m p t q)
  then show ?case by (intro exI [of _ False]) auto
next
  case (2 k t m q)
  then show ?case by (intro exI [of _ True]) auto
qed (auto split: if_splits intro!: exI [of _ w])

definition one_turn :: "bool \<Rightarrow> bool \<Rightarrow> ('a, 'b) session \<Rightarrow> bool" where
  "one_turn v z c = (case c of ((p, t), (r, u), ql, qr) \<Rightarrow>
     \<exists>w x. takes_turns p w v \<and> takes_turns r x z \<and> of_bool w + of_bool x + length ql + length qr = (1 :: nat))"

lemma one_turnI:
  "takes_turns p w v \<Longrightarrow> takes_turns r x z \<Longrightarrow> of_bool w + of_bool x + length ql + length qr = (1 :: nat) \<Longrightarrow>
   one_turn v z ((p, t), (r, u), ql, qr)"
  unfolding one_turn_def by blast

lemma one_turnE:
  assumes "one_turn v z ((p, t), (r, u), ql, qr)"
  obtains w x where "takes_turns p w v" "takes_turns r x z" "of_bool w + of_bool x + length ql + length qr = (1 :: nat)"
  using assms unfolding one_turn_def prod.case by blast

lemma sstep_one_turn: "sstep c d \<Longrightarrow> one_turn v z c \<Longrightarrow> one_turn v z d"
proof (induction rule: sstep.induct)
  case (left p t ql p' t' ql' out r u qr)
  from left(2) obtain w x where w: "takes_turns p w v" "takes_turns r x z"
    "of_bool w + of_bool x + length ql + length qr = (1 :: nat)" by (elim one_turnE)
  from advance_turn [OF left(1) w(1)] obtain w' where "takes_turns p' w' v"
    "of_bool w' + length ql' + length out = of_bool w + length ql" by blast
  with w(2,3) show ?case by (intro one_turnI) (assumption | simp)+
next
  case (right r u qr r' u' qr' out p t ql)
  from right(2) obtain w x where w: "takes_turns p w v" "takes_turns r x z"
    "of_bool w + of_bool x + length ql + length qr = (1 :: nat)" by (elim one_turnE)
  from advance_turn [OF right(1) w(2)] obtain x' where "takes_turns r' x' z"
    "of_bool x' + length qr' + length out = of_bool x + length qr" by blast
  with w(1,3) show ?case by (intro one_turnI) (assumption | simp)+
qed

lemma one_turn_short: "one_turn v z (l, r, ql, qr) \<Longrightarrow> length ql + length qr \<le> 1"
  by (cases l; cases r) (auto simp: one_turn_def)

lemma one_turn_ordered:
  assumes "rstep\<^sup>*\<^sup>* c d" "one_turn v z c"
  shows "sstep\<^sup>*\<^sup>* c d \<and> one_turn v z d"
  using assms(1)
proof (induction rule: rtranclp_induct)
  case base
  show ?case using assms(2) by simp
next
  case (step d e)
  from step.hyps(2) step.IH show ?case
  proof (cases rule: rstep.cases)
    case ordered
    with step.IH show ?thesis using sstep_one_turn by (blast intro: rtranclp.rtrancl_into_rtrancl)
  next
    case (swapped ql' ql qr' qr l r)
    have "length ql + length qr \<le> 1" using step.IH one_turn_short unfolding swapped(1) by blast
    then have "e = d" using swap_short [OF swapped(3)] swap_short [OF swapped(4)] swapped(1,2) by simp
    with step.IH show ?thesis by simp
  qed
qed

lemma bb84_one_turn:
  assumes "role_of L = Leader" "role_of F = Follower" "kind L = BB84_PURIFIED" "kind F = BB84_PURIFIED" "key_program fuel L = Put m p"
  shows "one_turn True False ((p, t), (key_program fuel F, u), [], [])"
proof -
  have "takes_turns (key_program fuel L) True True" "takes_turns (key_program fuel F) True False"
    using turns_key_program assms(1-4) by fastforce+
  then show ?thesis unfolding assms(5) by (auto simp: one_turn_def)
qed

text \<open>
  C22. The threads of the core cannot disturb the BB84 protocol. After the leader's first message,
  which the follower's handler answers, no more than one message is ever on its way between the two
  parties, so every run in which the messages on the way may change their order is a run that
  keeps it.
\<close>

theorem bb84_order_independent:
  assumes "role_of L = Leader" "role_of F = Follower" "kind L = BB84_PURIFIED" "kind F = BB84_PURIFIED"
    and "key_program fuel L = Put m p"
    and "rstep\<^sup>*\<^sup>* ((p, t), (key_program fuel F, u), [], []) (l, r, to_leader, to_follower)"
  shows "length to_leader + length to_follower \<le> 1
    \<and> sstep\<^sup>*\<^sup>* ((p, t), (key_program fuel F, u), [], []) (l, r, to_leader, to_follower)"
  using one_turn_ordered [OF assms(6) bb84_one_turn [OF assms(1-5)]] one_turn_short by blast

section \<open>Two messages at a time\<close>

text \<open>
  In the device-independent test the leader sends the sample and then its outcomes without waiting.
  Before that, leader and follower reach the point where the next two messages are the leader's.
\<close>

lemma epr_test_two_sent:
  assumes "paired L F" "length ls = length x" "length fs = length x"
    and "length js = length x div 2" "distinct js" "\<forall>j \<in> set js. j < length x"
  shows "\<exists>h k. runs (epr_test L x ls) (epr_test F y fs) [Nums js] []
      (Put (msg L DQKD [(str ''T'', bits_val (map int js))])
        (Put (msg L DQKD [(str ''x_T'', bits_val (map ((!) x) js))]) (Get h))) (Get k)
    \<and> (\<forall>d. map_of d (str ''T'') = None \<longrightarrow> k (Some (msg L DQKD d)) = Raise KeyError)
    \<and> h None = Raise (ProtocolException ''Timed out waiting for control message'')"
proof -
  have role: "role_of L = Leader" "role_of F = Follower" "length (me L) \<le> 16" using assms(1) by (simp_all add: paired_def)
  have js: "\<forall>j \<in> set js. j < length fs" "\<forall>j \<in> set js. j < length fs \<and> j < length ls"
    using assms(2,3,6) by simp_all
  have rest: "\<forall>j \<in> set (rest_of (length x) js). j < length fs \<and> j < length ls"
    using assms(2,3) by (simp add: rest_of_def)
  note sets = test_rounds_bits [OF js(1)] match_rounds_bits [OF js(2)] match_rounds_bits [OF rest]
  note g = gather_at [OF assms(6), of "[]", unfolded append_Nil]
  show ?thesis
    apply (rule exI, rule exI, rule conjI)
     apply (unfold epr_test_def role role.case bind_proc_assoc)
     apply (rule exchange [OF assms(1)])
     apply (simp only: data_item_msg map_of.simps fst_conv snd_conv fun_upd_same bind_proc.simps)
     apply (rule runs_left [where t' = "[]"])
      apply (use assms(4-6) in simp)
     apply (simp only: Let_def bind_proc_assoc bind_proc.simps send_control [OF role(3)] of_res_simps sets
        rest_rounds_of prod.case g exchange_messages_def role role.case wait_for_control_message_def)
     apply (rule runs_refl)
    apply (simp add: data_item_def getitem_def dget_def)
    done
qed

text \<open>Of two messages sent in a row, the second is received first.\<close>

lemma overtaken:
  assumes "rstep\<^sup>*\<^sup>* c ((Put a (Put b p), t), (Get k, u), [], [])" "k (Some b) = r"
  shows "rstep\<^sup>*\<^sup>* c ((p, t), (r, u), [], [a])"
proof -
  have 1: "rstep ((Put a (Put b p), t), (Get k, u), [], []) ((Put b p, t), (Get k, u), [], [a])"
    using rstep.ordered [OF sstep.left [of "Put a (Put b p)" t "[]" _ _ _ _ "Get k" u "[]"]] by simp
  have 2: "rstep ((Put b p, t), (Get k, u), [], [a]) ((p, t), (Get k, u), [], [a, b])"
    using rstep.ordered [OF sstep.left [of "Put b p" t "[]" _ _ _ _ "Get k" u "[a]"]] by simp
  have 3: "rstep ((p, t), (Get k, u), [], [a, b]) ((p, t), (Get k, u), [], [b, a])"
    by (rule rstep.swapped) simp_all
  have 4: "rstep ((p, t), (Get k, u), [], [b, a]) ((p, t), (r, u), [], [a])"
    using rstep.ordered [OF sstep.right [of "Get k" u "[b, a]" _ _ _ _ p t "[]"]] assms(2) by simp
  note rtranclp.rtrancl_into_rtrancl [OF assms(1) 1]
  note rtranclp.rtrancl_into_rtrancl [OF this 2]
  note rtranclp.rtrancl_into_rtrancl [OF this 3]
  note rtranclp.rtrancl_into_rtrancl [OF this 4]
  then show ?thesis .
qed

text \<open>
  C27. The threads of the core can break the device-independent protocol. In every test between two
  parties that follow the protocol, on any bases and outcomes and any sample, there is a run in
  which the leader's outcomes overtake its sample; in it the follower's call ends in a \<open>KeyError\<close>,
  and the leader's, which no message can reach any more, times out. (With the order kept, the same
  test ends with the same verdict on both sides.)
\<close>

theorem epr_reorder_breaks:
  assumes "paired L F" "length ls = length x" "length fs = length x"
    and "length js = length x div 2" "distinct js" "\<forall>j \<in> set js. j < length x"
  shows "\<exists>h to_follower. rstep\<^sup>*\<^sup>* ((epr_test L x ls, [Nums js]), (epr_test F y fs, []), [], [])
      ((Get h, []), (Raise KeyError, []), [], to_follower)
    \<and> h None = Raise (ProtocolException ''Timed out waiting for control message'')"
proof -
  let ?T = "msg L DQKD [(str ''T'', bits_val (map int js))]"
  let ?X = "msg L DQKD [(str ''x_T'', bits_val (map ((!) x) js))]"
  from epr_test_two_sent [OF assms] obtain h k where
    start: "runs (epr_test L x ls) (epr_test F y fs) [Nums js] [] (Put ?T (Put ?X (Get h))) (Get k)"
    and k: "\<forall>d. map_of d (str ''T'') = None \<longrightarrow> k (Some (msg L DQKD d)) = Raise KeyError"
    and h: "h None = Raise (ProtocolException ''Timed out waiting for control message'')" by blast
  have "sstep\<^sup>*\<^sup>* c d \<Longrightarrow> rstep\<^sup>*\<^sup>* c d" for c d :: "(int list, int list) session"
    by (induction rule: rtranclp_induct) (auto intro: rstep.ordered rtranclp.rtrancl_into_rtrancl)
  from this [OF start [unfolded runs_def, rule_format, of "[]" "[]"]] have
    0: "rstep\<^sup>*\<^sup>* ((epr_test L x ls, [Nums js]), (epr_test F y fs, []), [], [])
      ((Put ?T (Put ?X (Get h)), []), (Get k, []), [], [])" by simp
  have "k (Some ?X) = Raise KeyError" using k by (simp add: str_def)
  from overtaken [OF 0 this] h show ?thesis by blast
qed

theorem epr_reorder_breaks_witness:
  "\<exists>h to_follower. rstep\<^sup>*\<^sup>*
      ((epr_test (demo_party DIQKD Leader (PInt 1)) [1, 0, 1, 1] [0, 0, 0, 0], [Nums [0, 1]]),
       (epr_test (demo_party DIQKD Follower (PInt 1)) [1, 0, 1, 1] [2, 0, 2, 2], []), [], [])
      ((Get h, []), (Raise KeyError, []), [], to_follower)"
proof -
  have "length [0, 0, 0, 0 :: int] = length [1, 0, 1, 1 :: int]" "length [2, 0, 2, 2 :: int] = length [1, 0, 1, 1 :: int]"
    "length [0, 1 :: nat] = length [1, 0, 1, 1 :: int] div 2" "distinct [0, 1 :: nat]"
    "\<forall>j \<in> set [0, 1]. j < length [1, 0, 1, 1 :: int]" by simp_all
  from epr_reorder_breaks [OF demo_paired this, of DIQKD "PInt 1" "[1, 0, 1, 1]"] show ?thesis by blast
qed

text \<open>The first messages of two parties of a BB84 session, whatever the tapes.\<close>

theorem bb84_order_independent_witness:
  "\<exists>p. key_program 25 (demo_party BB84_PURIFIED Leader (PInt 2))
      = Put (msg (demo_party BB84_PURIFIED Leader (PInt 2)) PTCL
          (first_message (demo_party BB84_PURIFIED Leader (PInt 2)))) p
    \<and> (\<forall>l r a b. rstep\<^sup>*\<^sup>* ((p, []), (key_program 25 (demo_party BB84_PURIFIED Follower (PInt 2)), []), [], []) (l, r, a, b)
        \<longrightarrow> length a + length b \<le> 1)"
proof -
  let ?L = "demo_party BB84_PURIFIED Leader (PInt 2)" and ?F = "demo_party BB84_PURIFIED Follower (PInt 2)"
  have role: "role_of ?L = Leader" "role_of ?F = Follower" "kind ?L = BB84_PURIFIED" "kind ?F = BB84_PURIFIED"
    by (simp_all add: demo_party_def)
  have "length (me ?L) \<le> 16" by (simp add: demo_party_def str_def)
  then obtain p where p: "key_program 25 ?L = Put (msg ?L PTCL (first_message ?L)) p"
    by (simp add: key_program_def start_protocol_def role lead_protocol_first send_control bind_proc_assoc)
  with bb84_order_independent [OF role p] show ?thesis by blast
qed

end
