(* ===== verification/Dense_Order.thy ===== *)
theory Dense_Order
  imports Ordering
begin

text \<open>
  Superdense coding under reordering. Here the receiver does send two messages in a row, but it
  is the same message twice; so no order of arrival can be told from another. The messages of
  a session are a fixed script, whatever is measured.
\<close>

section \<open>Scripts\<close>

text \<open>A script lists the messages of a session, each with whether it is the leader's.\<close>

type_synonym script = "(bool \<times> message) list"

primrec follows :: "bool \<Rightarrow> 'a proc \<Rightarrow> script \<Rightarrow> bool" where
  "follows s (Ret x) D = (D = [])"
| "follows s (Raise e) D = True"
| "follows s Stuck D = True"
| "follows s (Put m p) D = (D \<noteq> [] \<and> hd D = (s, m) \<and> follows s p (tl D))"
| "follows s (Get k) D = (D \<noteq> [] \<and> fst (hd D) = (\<not> s) \<and> follows s (k (Some (snd (hd D)))) (tl D))"
| "follows s (Rand lo hi k) D = (\<forall>v. follows s (k v) D)"
| "follows s (Sample n c k) D = (\<forall>js. follows s (k js) D)"
| "follows s (Quant q k) D = (\<forall>v. follows s (k v) D)"

lemma follows_bind:
  "follows s p D \<Longrightarrow> (\<And>x. follows s (f x) E) \<Longrightarrow> follows s (bind_proc p f) (D @ E)"
proof (induction p arbitrary: D)
  case (Put m p)
  then show ?case by (cases D) auto
next
  case (Get k)
  then show ?case by (cases D) auto
qed auto

lemma follows_quantum [simp]: "follows s (quantum q) []"
  by (auto simp: quantum_def of_res_def split: sum.split)

lemma follows_quantum_bind [simp]:
  "(\<And>v. follows s (f v) D) \<Longrightarrow> follows s (bind_proc (quantum q) f) D"
  using follows_bind [of s "quantum q" "[]" f D] by simp

lemma follows_choice: "follows s p D \<Longrightarrow> follows s r D \<Longrightarrow> follows s (if b then p else r) D"
  by simp

lemma follows_loop:
  assumes "\<And>x a. x \<in> set xs \<Longrightarrow> follows s (f x a) D"
  shows "follows s (fold_proc f xs a) (concat (replicate (length xs) D))"
  using assms
proof (induction xs arbitrary: a)
  case (Cons x xs)
  then show ?case by (auto intro!: follows_bind)
qed simp

section \<open>Sessions that follow a script\<close>

text \<open>Neighbours in the same direction are equal.\<close>

fun steady :: "script \<Rightarrow> bool" where
  "steady (x # y # D) = ((fst x = fst y \<longrightarrow> snd x = snd y) \<and> steady (y # D))"
| "steady D = True"

lemma steady_tl: "steady (x # D) \<Longrightarrow> steady D"
  by (cases D) auto

lemma steady_drop: "steady (D @ E) \<Longrightarrow> steady E"
  by (induction D) (auto dest: steady_tl)

lemma steady_run: "steady (map (Pair b) (m # ms) @ E) \<Longrightarrow> set ms \<subseteq> {m}"
  by (induction ms arbitrary: m) auto

text \<open>
  One of the parties is ahead: what it has sent, and the other has not received, is on the way and
  comes first in what the other has still to do.
\<close>

definition scripted :: "('a, 'b) session \<Rightarrow> bool" where
  "scripted c = (case c of ((p, t), (r, u), ql, qr) \<Rightarrow>
     \<exists>D. steady (map (Pair False) ql @ map (Pair True) qr @ D) \<and> (ql = [] \<or> qr = [])
       \<and> follows True p (map (Pair False) ql @ D) \<and> follows False r (map (Pair True) qr @ D))"

lemma scriptedI:
  "steady (map (Pair False) ql @ map (Pair True) qr @ D) \<Longrightarrow> ql = [] \<or> qr = [] \<Longrightarrow>
   follows True p (map (Pair False) ql @ D) \<Longrightarrow> follows False r (map (Pair True) qr @ D) \<Longrightarrow>
   scripted ((p, t), (r, u), ql, qr)"
  unfolding scripted_def by blast

lemma scriptedE:
  assumes "scripted ((p, t), (r, u), ql, qr)"
  obtains D where "steady (map (Pair False) ql @ map (Pair True) qr @ D)" "ql = [] \<or> qr = []"
    "follows True p (map (Pair False) ql @ D)" "follows False r (map (Pair True) qr @ D)"
  using assms unfolding scripted_def prod.case by blast

text \<open>What a step of a party does to its script: a send or a receipt takes the first item.\<close>

lemma advance_follows:
  "advance p t q = Some (p', t', q', out) \<Longrightarrow> follows s p (map (Pair (\<not> s)) q @ D) \<Longrightarrow>
    (out = [] \<and> q' = q \<and> follows s p' (map (Pair (\<not> s)) q @ D))
    \<or> (\<exists>m. out = [] \<and> q = m # q' \<and> follows s p' (map (Pair (\<not> s)) q' @ D))
    \<or> (\<exists>m E. out = [m] \<and> q' = [] \<and> q = [] \<and> D = (s, m) # E \<and> follows s p' E)"
proof (induction p t q rule: advance.induct)
  case (1 m p t q)
  then show ?case by (cases q; cases D) auto
qed (auto split: if_splits)

lemma sstep_scripted: "sstep c d \<Longrightarrow> scripted c \<Longrightarrow> scripted d"
proof (induction rule: sstep.induct)
  case (left p t ql p' t' ql' out r u qr)
  from left(2) obtain D where D: "steady (map (Pair False) ql @ map (Pair True) qr @ D)" "ql = [] \<or> qr = []"
    "follows True p (map (Pair False) ql @ D)" "follows False r (map (Pair True) qr @ D)" by (elim scriptedE)
  from advance_follows [OF left(1), of True D] D(3) consider
      (stay) "out = []" "ql' = ql" "follows True p' (map (Pair False) ql @ D)"
    | (get) m where "out = []" "ql = m # ql'" "follows True p' (map (Pair False) ql' @ D)"
    | (put) m E where "out = [m]" "ql' = []" "ql = []" "D = (True, m) # E" "follows True p' E" by auto
  then show ?case
  proof cases
    case stay
    with D show ?thesis by (intro scriptedI [of _ _ D]) simp_all
  next
    case get
    with D show ?thesis by (intro scriptedI [of _ _ D]) (auto dest: steady_tl)
  next
    case put
    with D show ?thesis by (intro scriptedI [of _ _ E]) simp_all
  qed
next
  case (right r u qr r' u' qr' out p t ql)
  from right(2) obtain D where D: "steady (map (Pair False) ql @ map (Pair True) qr @ D)" "ql = [] \<or> qr = []"
    "follows True p (map (Pair False) ql @ D)" "follows False r (map (Pair True) qr @ D)" by (elim scriptedE)
  from advance_follows [OF right(1), of False D] D(4) consider
      (stay) "out = []" "qr' = qr" "follows False r' (map (Pair True) qr @ D)"
    | (get) m where "out = []" "qr = m # qr'" "follows False r' (map (Pair True) qr' @ D)"
    | (put) m E where "out = [m]" "qr' = []" "qr = []" "D = (False, m) # E" "follows False r' E" by auto
  then show ?case
  proof cases
    case stay
    with D show ?thesis by (intro scriptedI [of _ _ D]) simp_all
  next
    case get
    with D show ?thesis by (intro scriptedI [of _ _ D]) (auto dest: steady_tl)
  next
    case put
    with D show ?thesis by (intro scriptedI [of _ _ E]) simp_all
  qed
qed

text \<open>So what is on the way is one message, perhaps several times.\<close>

lemma scripted_same:
  assumes "scripted (l, r, ql, qr)"
  shows "\<exists>m. set (ql @ qr) \<subseteq> {m}"
proof -
  obtain p t where l: "l = (p, t)" by (cases l)
  obtain r' u where r: "r = (r', u)" by (cases r)
  from assms [unfolded l r] obtain D where
    D: "steady (map (Pair False) ql @ map (Pair True) qr @ D)" "ql = [] \<or> qr = []" by (elim scriptedE)
  from D show ?thesis
    using steady_run [of False "hd ql" "tl ql" D] steady_run [of True "hd qr" "tl qr" D]
    by (cases ql; cases qr) auto
qed

lemma same_swap: "set q \<subseteq> {m} \<Longrightarrow> mset q' = mset q \<Longrightarrow> q' = q"
proof -
  assume q: "set q \<subseteq> {m}" and eq: "mset q' = mset q"
  have "set q' = set q" using eq by (rule mset_eq_setD)
  with q have "q = replicate (length q) m" "q' = replicate (length q') m" by (auto intro!: replicate_eqI)
  moreover have "length q' = length q" using eq by (rule mset_eq_length)
  ultimately show "q' = q" by simp
qed

lemma scripted_ordered:
  assumes "rstep\<^sup>*\<^sup>* c d" "scripted c"
  shows "sstep\<^sup>*\<^sup>* c d \<and> scripted d"
  using assms(1)
proof (induction rule: rtranclp_induct)
  case base
  show ?case using assms(2) by simp
next
  case (step d e)
  from step.hyps(2) show ?case
  proof (cases rule: rstep.cases)
    case ordered
    with step.IH show ?thesis using sstep_scripted by (blast intro: rtranclp.rtrancl_into_rtrancl)
  next
    case (swapped ql' ql qr' qr l r)
    obtain m where "set (ql @ qr) \<subseteq> {m}" using step.IH scripted_same unfolding swapped(1) by blast
    then have "e = d" using same_swap [of ql m ql'] same_swap [of qr m qr'] swapped by simp
    with step.IH show ?thesis by simp
  qed
qed

section \<open>The script of superdense coding\<close>

definition swap_script :: "party \<Rightarrow> party \<Rightarrow> dict \<Rightarrow> dict \<Rightarrow> script" where
  "swap_script L F d e = [(True, msg L SPDS d), (False, msg F SPDS e)]"

definition pair_script :: "party \<Rightarrow> party \<Rightarrow> script" where
  "pair_script L F = swap_script L F ack ack @ swap_script L F ack ack @ [(False, msg F SPDS ack)]"

definition dense_script :: "party \<Rightarrow> party \<Rightarrow> nat \<Rightarrow> script" where
  "dense_script L F n = swap_script L F [(str ''message_length'', PInt (int n))] ack
     @ concat (replicate n (concat (replicate 4 (pair_script L F))))
     @ swap_script L F [(str ''FIN'', PBool True)] [(str ''FIN'', PBool True)]"

text \<open>A leader and a follower of the superdense protocol.\<close>

definition dense_pair :: "party \<Rightarrow> party \<Rightarrow> bool" where
  "dense_pair L F \<longleftrightarrow> paired L F \<and> kind L = SUPERDENSE"

lemma dense_pair_facts:
  assumes "dense_pair L F"
  shows "paired L F" "role_of L = Leader" "role_of F = Follower" "kind L = SUPERDENSE" "kind F = SUPERDENSE"
    "length (me L) \<le> 16" "length (me F) \<le> 16"
  using assms by (auto simp: dense_pair_def paired_def)

lemma lead_exchange:
  assumes "dense_pair L F" "follows True (f (msg F SPDS e)) D"
  shows "follows True (bind_proc (exchange_messages L d SPDS) f) (swap_script L F d e @ D)"
  using assms dense_pair_facts [OF assms(1)]
  by (simp add: exchange_messages_def send_control wait_control swap_script_def bind_proc_assoc)

lemma follow_exchange:
  assumes "dense_pair L F" "follows False (g (msg L SPDS d)) D"
  shows "follows False (bind_proc (exchange_messages F e SPDS) g) (swap_script L F d e @ D)"
  using assms dense_pair_facts [OF assms(1)]
  by (simp add: exchange_messages_def send_control wait_control swap_script_def bind_proc_assoc)

lemma lead_wait:
  "follows True (f (msg F SPDS e)) D \<Longrightarrow>
   follows True (bind_proc (wait_for_control_message SPDS) f) ((False, msg F SPDS e) # D)"
  by (simp add: wait_control)

lemma follows_gate: "follows s (f ()) D \<Longrightarrow> follows s (bind_proc (if b \<noteq> 0 then quantum op else Ret 0) (\<lambda>_. f ())) D"
  by simp

lemma lead_pair:
  assumes "dense_pair L F"
  shows "follows True (send_pair L b1 b2) (pair_script L F)"
  unfolding send_pair_def pair_script_def dense_pair_facts(4) [OF assms] message_type.simps append_assoc
  apply (rule follows_quantum_bind, rule lead_exchange [OF assms], simp only: require_ack bind_proc.simps)
  apply (rule follows_gate, rule follows_gate, rule follows_quantum_bind, rule lead_exchange [OF assms])
  apply (simp only: require_ack bind_proc.simps, rule lead_wait)
  apply (simp add: require_ack)
  done

lemma follow_pair:
  assumes "dense_pair L F"
  shows "follows False (receive_pair F p b) (pair_script L F)"
  unfolding receive_pair_def pair_script_def dense_pair_facts(5) [OF assms] message_type.simps append_assoc
  apply (rule follow_exchange [OF assms], simp only: require_ack bind_proc.simps)
  apply (rule follows_quantum_bind, rule follow_exchange [OF assms], simp only: require_ack bind_proc.simps)
  apply (simp add: send_control dense_pair_facts(7) [OF assms])
  done

lemma end_follows:
  assumes "dense_pair L F"
  shows "follows True (end_protocol L) (swap_script L F [(str ''FIN'', PBool True)] [(str ''FIN'', PBool True)])"
    and "follows False (bind_proc (end_protocol F) Ret) (swap_script L F [(str ''FIN'', PBool True)] [(str ''FIN'', PBool True)])"
proof -
  let ?D = "swap_script L F [(str ''FIN'', PBool True)] [(str ''FIN'', PBool True)]"
  have "follows True (end_protocol L) (?D @ [])"
    unfolding end_protocol_exchange dense_pair_facts(4) [OF assms] message_type.simps
    by (rule lead_exchange [OF assms]) (simp add: require_msg)
  then show "follows True (end_protocol L) ?D" by simp
  have "follows False (end_protocol F) (?D @ [])"
    unfolding end_protocol_exchange dense_pair_facts(5) [OF assms] message_type.simps
    by (rule follow_exchange [OF assms]) (simp add: require_msg)
  then show "follows False (bind_proc (end_protocol F) Ret) ?D" by (simp add: bind_proc_Ret)
qed

lemma lead_dense:
  assumes "dense_pair L F"
  shows "follows True (send_dense L bs) (dense_script L F (length bs))"
proof -
  have byte: "follows True (send_byte L b) (concat (replicate 4 (pair_script L F)))" for b
    using follows_loop [of "[0..<4]" True "\<lambda>p _. send_pair L (high_bit b p) (low_bit b p)" "pair_script L F" "()"]
      lead_pair [OF assms] by (simp add: send_byte_def)
  note bytes = follows_loop [of bs True "\<lambda>b _. send_byte L b", OF byte]
  show ?thesis
    unfolding send_dense_def dense_script_def dense_pair_facts(4) [OF assms] message_type.simps
    by (rule lead_exchange [OF assms], simp only: require_ack bind_proc.simps)
      (rule follows_bind [OF bytes end_follows(1) [OF assms]])
qed

lemma follow_dense:
  assumes "dense_pair L F"
  shows "follows False (receive_dense F) (dense_script L F n)"
proof -
  have byte: "follows False (receive_byte F m) (concat (replicate 4 (pair_script L F)))" for m
  proof -
    have "follows False (fold_proc (receive_pair F) [0..<4] 0) (concat (replicate 4 (pair_script L F)))"
      using follows_loop [of "[0..<4]" False "receive_pair F" "pair_script L F" 0] follow_pair [OF assms] by simp
    then have "follows False (receive_byte F m) (concat (replicate 4 (pair_script L F)) @ [])"
      unfolding receive_byte_def by (rule follows_bind) (auto simp: of_res_def split: sum.split)
    then show ?thesis by simp
  qed
  have bytes: "follows False (fold_proc (\<lambda>_. receive_byte F) [0..<n] [])
      (concat (replicate n (concat (replicate 4 (pair_script L F)))))"
    using follows_loop [of "[0..<n]" False "\<lambda>_. receive_byte F", OF byte] by simp
  have ending: "follows False (bind_proc (end_protocol F) (\<lambda>_. Ret x))
      (swap_script L F [(str ''FIN'', PBool True)] [(str ''FIN'', PBool True)])" for x :: bytes
    using follows_bind [OF end_follows(2) [OF assms], of "\<lambda>_. Ret x" "[]"] by (simp add: bind_proc_assoc)
  show ?thesis
    unfolding receive_dense_def dense_script_def dense_pair_facts(5) [OF assms] message_type.simps
    by (rule follow_exchange [OF assms])
      (simp add: data_item_msg int_of_val_def follows_bind [OF bytes ending])
qed

section \<open>The whole session\<close>

lemma steady_pairs:
  assumes "steady ((True, m) # E)"
  shows "steady (concat (replicate n (pair_script L F)) @ (True, m) # E)"
  using assms
  by (induction n) (auto simp: pair_script_def swap_script_def, (case_tac n; auto simp: pair_script_def swap_script_def)+)

lemma steady_dense: "steady ((False, a) # dense_script L F n)"
proof -
  let ?E = "swap_script L F [(str ''FIN'', PBool True)] [(str ''FIN'', PBool True)]"
  have "concat (replicate n (concat (replicate 4 (pair_script L F)))) = concat (replicate (4 * n) (pair_script L F))"
    by (induction n) (simp_all add: replicate_add)
  moreover have "steady (concat (replicate k (pair_script L F)) @ ?E)" for k
    unfolding swap_script_def by (rule steady_pairs) simp
  moreover have "steady ((False, b) # concat (replicate k (pair_script L F)) @ ?E)
      = steady (concat (replicate k (pair_script L F)) @ ?E)" for k b
    by (cases k) (simp_all add: pair_script_def swap_script_def)
  ultimately show ?thesis by (simp add: dense_script_def swap_script_def)
qed

text \<open>The session after the sender's first message.\<close>

lemma dense_scripted:
  assumes "paired L F" "kind L = SUPERDENSE"
    and "bind_proc (start_protocol L) (\<lambda>_. send_dense L bs) = Put m p"
  shows "scripted ((p, t), (bind_proc (start_protocol F) (\<lambda>_. receive_dense F), u), [], [])"
proof -
  have pair: "dense_pair L F" using assms(1,2) by (simp add: dense_pair_def)
  note facts = dense_pair_facts [OF pair]
  let ?a = "msg F SPDS [(str ''ACK'', PStr (str ''ACK''))]"
  let ?D = "(False, ?a) # dense_script L F (length bs)"
  have p: "p = bind_proc (wait_for_control_message SPDS) (\<lambda>response. bind_proc (data_item response ''ACK'') (\<lambda>v.
      bind_proc (if \<not> py_eq v (PStr (str ''ACK'')) then Raise (ProtocolException ''Failed to establish leader/role'')
        else Ret ()) (\<lambda>_. send_dense L bs)))"
    using assms(3) by (simp add: start_protocol_def lead_protocol_first facts send_control bind_proc_assoc)
  have "follows True p ?D"
    unfolding p by (rule lead_wait) (simp add: data_item_msg lead_dense [OF pair])
  moreover have "follows False (bind_proc (start_protocol F) (\<lambda>_. receive_dense F)) ?D"
    using follow_dense [OF pair] by (simp add: start_protocol_def follow_protocol_answer facts send_control)
  ultimately show ?thesis
    by (intro scriptedI [of _ _ ?D]) (simp_all add: steady_dense del: steady.simps)
qed

text \<open>
  C23. Nor can the threads of the core disturb superdense coding. After the sender's first message, which
  the receiver's handler answers, the messages on the way are at any time copies of one message;
  so every run in which they may change their order is a run that keeps it, whatever is sent and
  whatever the measurements give.
\<close>

theorem dense_order_independent:
  assumes "paired L F" "kind L = SUPERDENSE"
    and "bind_proc (start_protocol L) (\<lambda>_. send_dense L bs) = Put m p"
    and "rstep\<^sup>*\<^sup>* ((p, t), (bind_proc (start_protocol F) (\<lambda>_. receive_dense F), u), [], []) (l, r, to_leader, to_follower)"
  shows "(\<exists>m. set (to_leader @ to_follower) \<subseteq> {m})
    \<and> sstep\<^sup>*\<^sup>* ((p, t), (bind_proc (start_protocol F) (\<lambda>_. receive_dense F), u), [], []) (l, r, to_leader, to_follower)"
  using scripted_ordered [OF assms(4) dense_scripted [OF assms(1-3)]] scripted_same by blast

theorem dense_order_independent_witness:
  "\<exists>p. bind_proc (start_protocol (demo_party SUPERDENSE Leader PNone)) (\<lambda>_. send_dense (demo_party SUPERDENSE Leader PNone) [72])
      = Put (msg (demo_party SUPERDENSE Leader PNone) PTCL (first_message (demo_party SUPERDENSE Leader PNone))) p
    \<and> (\<forall>l r a b. rstep\<^sup>*\<^sup>* ((p, []), (bind_proc (start_protocol (demo_party SUPERDENSE Follower PNone))
          (\<lambda>_. receive_dense (demo_party SUPERDENSE Follower PNone)), []), [], []) (l, r, a, b)
        \<longrightarrow> (\<exists>m. set (a @ b) \<subseteq> {m}))"
proof -
  let ?L = "demo_party SUPERDENSE Leader PNone"
  have L: "role_of ?L = Leader" "kind ?L = SUPERDENSE" "length (me ?L) \<le> 16" by (simp_all add: demo_party_def str_def)
  then obtain p where p: "bind_proc (start_protocol ?L) (\<lambda>_. send_dense ?L [72]) = Put (msg ?L PTCL (first_message ?L)) p"
    by (simp add: start_protocol_def lead_protocol_first send_control bind_proc_assoc)
  with dense_order_independent [OF demo_paired L(2) p] show ?thesis by blast
qed

end
