(* ===== verification/Client_Session.thy ===== *)
theory Client_Session
  imports Client
begin

text \<open>
  The protocols inside their clients: a session of two protocol programs is, seen from each client,
  one call of its own during which the messages of the other arrive. So the agreement of the
  protocols becomes one of the two user databases.
\<close>

section \<open>A session seen from each client\<close>

text \<open>
  Each client of a completed session gets as arrivals what the other one sent: the run of two
  programs against each other is a run of each of them in its own client.
\<close>

definition sent_by :: "'a client_scheme \<Rightarrow> pyval \<Rightarrow> message list \<Rightarrow> 'a client_scheme" where
  "sent_by s to ns = s\<lparr>outbound_queue := outbound_queue s @ map (Pair to) ns\<rparr>"

lemma sent_by_simps [simp]:
  "sent_by s to [] = s"
  "sent_by (s\<lparr>outbound_queue := outbound_queue s @ [(to, m)]\<rparr>) to ns = sent_by s to (m # ns)"
  "control_message_queue (sent_by s to ns) = control_message_queue s"
  "userDB (sent_by s to ns) = userDB s"
  by (simp_all add: sent_by_def)

definition drives :: "'r proc \<Rightarrow> tape \<Rightarrow> message list \<Rightarrow> 'r \<Rightarrow> message list \<Rightarrow> bool" where
  "drives p t ms x ns \<longleftrightarrow> (\<forall>n to s. control_message_queue s n = [] \<longrightarrow>
     drive p t ms n to s = (Inr x, sent_by s to ns))"

lemma drives_advance:
  assumes "advance p t q = Some (p', t', q', out)" "drives p' t' (q' @ ms) x ns"
  shows "drives p t (q @ ms) x (out @ ns)"
  using assms
  by (induction p t q rule: advance.induct) (auto simp: drives_def split: if_splits)

lemma session_drives:
  assumes "sstep\<^sup>*\<^sup>* ((p, t), (r, u), ql, qr) ((Ret a, []), (Ret b, []), [], [])"
  shows "\<exists>ms ns. drives p t (ql @ ms) a ns \<and> drives r u (qr @ ns) b ms"
proof -
  have "c = ((p, t), (r, u), ql, qr) \<longrightarrow> (\<exists>ms ns. drives p t (ql @ ms) a ns \<and> drives r u (qr @ ns) b ms)"
    if "sstep\<^sup>*\<^sup>* c ((Ret a, []), (Ret b, []), [], [])" for c p t r u ql qr
    using that
  proof (induction arbitrary: p t r u ql qr rule: converse_rtranclp_induct)
    case base
    show ?case by (intro impI exI [of _ "[]"]) (auto simp: drives_def)
  next
    case (step c d)
    show ?case
    proof
      assume c: "c = ((p, t), (r, u), ql, qr)"
      from step.hyps(1) [unfolded c] show "\<exists>ms ns. drives p t (ql @ ms) a ns \<and> drives r u (qr @ ns) b ms"
      proof (cases rule: sstep_elim)
        case (L p' t' ql' out)
        from step.IH [of p' t' r u ql' "qr @ out"] L(1) obtain ms ns where
          "drives p' t' (ql' @ ms) a ns" "drives r u ((qr @ out) @ ns) b ms" by blast
        with drives_advance [OF L(2), of ms a ns] have
          "drives p t (ql @ ms) a (out @ ns) \<and> drives r u (qr @ (out @ ns)) b ms" by simp
        then show ?thesis by blast
      next
        case (R r' u' qr' out)
        from step.IH [of p t r' u' "ql @ out" qr'] R(1) obtain ms ns where
          "drives p t ((ql @ out) @ ms) a ns" "drives r' u' (qr' @ ns) b ms" by blast
        with drives_advance [OF R(2), of ns b ms] have
          "drives p t (ql @ (out @ ms)) a ns \<and> drives r u (qr @ ns) b (out @ ms)" by simp
        then show ?thesis by blast
      qed
    qed
  qed
  with assms show ?thesis by blast
qed

lemma runs_drives:
  "runs p r t u (Ret a) (Ret b) \<Longrightarrow> \<exists>ms ns. drives p t ms a ns \<and> drives r u ns b ms"
  using session_drives [of p t r u "[]" "[]" a b] by (auto simp: runs_def dest!: spec [of _ "[]"])


section \<open>Key agreement between two clients\<close>

lemma handshake:
  assumes "paired L F" "runs (f ()) (g ()) t u p' r'"
  shows "\<exists>p1. bind_proc (start_protocol L) f = Put (msg L PTCL (first_message L)) p1
    \<and> runs p1 (bind_proc (start_protocol F) g) t u p' r'"
proof -
  have role: "role_of L = Leader" "role_of F = Follower" "kind F = kind L" "length (me L) \<le> 16"
    using assms(1) by (simp_all add: paired_def)
  show ?thesis
    unfolding start_protocol_def role role.case lead_protocol_first follow_protocol_answer
      send_control [OF role(4)] bind_proc.simps bind_proc_assoc
    by (intro exI conjI, rule refl, rule send_left [OF assms(1)])
      (simp add: data_item_msg assms(2))
qed

lemma peer_user_plain:
  "wf_dict d \<Longrightarrow> map_of d (str ''user'') = None \<Longrightarrow> peer_user v (PDict d) = Inr v"
  by (simp add: peer_user_def dict_get_def map_of_dupdate map_add_def)

text \<open>A client that can talk to a peer: it knows where the peer and the relay are.\<close>

definition reaches :: "client \<Rightarrow> pystr \<Rightarrow> pystr \<Rightarrow> bool" where
  "reaches s own peer_name \<longleftrightarrow> conn_name (conn s) = own
     \<and> (\<exists>d. getConnectionInfo (userDB s) (PStr peer_name) = Inr (PDict d) \<and> wf_dict d \<and> map_of d (str ''user'') = None)
     \<and> (\<exists>h. getitem (root_config s) ''host'' = Inr h) \<and> (\<exists>p. getitem (root_config s) ''port'' = Inr p)
     \<and> control_message_queue s peer_name = []"

lemma run_with_reachable:
  assumes "reaches s own peer_name" "drives (program P) (tape_of w) (arrivals w) x ns"
    and "make_party k own (PStr peer_name) r (root_config s) ks = Inr P"
  shows "run_with_peer k r (PStr peer_name) ks w program s = (Inr x, sent_by s (PStr peer_name) ns)"
proof -
  from assms(1) obtain d where d: "getConnectionInfo (userDB s) (PStr peer_name) = Inr (PDict d)"
    "peer_user (PStr peer_name) (PDict d) = Inr (PStr peer_name)"
    by (auto simp: reaches_def peer_user_plain)
  have q: "control_message_queue s peer_name = []" "conn_name (conn s) = own"
    using assms(1) by (simp_all add: reaches_def)
  show ?thesis
    using d q assms(2,3)
    by (simp add: run_with_peer_def core_getConnectionInfo_def step_simps queue_name_def drives_def)
qed

lemma reaches_party:
  assumes "reaches s own peer_name"
  obtains h p where "make_party k own (PStr peer_name) r (root_config s) ks =
    Inr \<lparr>kind = k, me = own, peer = PStr peer_name, role_of = r, relay_host = h, relay_port = p, key_size = ks\<rparr>"
proof -
  from assms obtain h p where "getitem (root_config s) ''host'' = Inr h" "getitem (root_config s) ''port'' = Inr p"
    by (auto simp: reaches_def)
  then have "make_party k own (PStr peer_name) r (root_config s) ks =
    Inr \<lparr>kind = k, me = own, peer = PStr peer_name, role_of = r, relay_host = h, relay_port = p, key_size = ks\<rparr>"
    by (simp add: make_party_def device_init_def)
  then show ?thesis by (rule that)
qed

lemma getConnectionInfo_known: "getConnectionInfo db u = Inr v \<Longrightarrow> \<exists>i. get_user db u = Some i \<and> i \<noteq> []"
  by (auto simp: getConnectionInfo_def get_field_def split: option.splits if_splits)

text \<open>Storing the key of a known user.\<close>

definition keyed :: "client \<Rightarrow> pystr \<Rightarrow> bytes \<Rightarrow> client" where
  "keyed s u key = s\<lparr>userDB := changeUserInfo (PStr u) [(str ''message_key'', PBytes key)] (userDB s)\<rparr>"

lemma keyed_simps [simp]:
  "conn (keyed s u key) = conn s" "core_name (keyed s u key) = core_name s" "signer_key (keyed s u key) = signer_key s"
  "mailbox (keyed s u key) = mailbox s" "outbound_queue (keyed s u key) = outbound_queue s"
  by (simp_all add: keyed_def)

lemma change_info_keyed: "change_info (PStr u) [(str ''message_key'', PBytes key)] s = (Inr (), keyed s u key)"
  by (simp add: change_info_def step_simps keyed_def)

lemma keyed_fields:
  assumes "getConnectionInfo (userDB s) (PStr u) = Inr v"
  shows "getMessageKey (userDB (keyed s u key)) (PStr u) = Inr (PBytes key)"
    and "getConnectionInfo (userDB (keyed s u key)) (PStr u) = Inr v"
    and "getPublicKey (userDB (keyed s u key)) (PStr u) = getPublicKey (userDB s) (PStr u)"
proof -
  from getConnectionInfo_known [OF assms] obtain i where i: "get_user (userDB s) (PStr u) = Some i" "i \<noteq> []" by blast
  have "dset (str ''message_key'') (PBytes key) i \<noteq> []"
    by (metis map_of_dset fun_upd_same map_of.simps(1) option.distinct(1))
  with i have get: "get_user (userDB (keyed s u key)) (PStr u) = Some (dset (str ''message_key'') (PBytes key) i)"
    "dset (str ''message_key'') (PBytes key) i \<noteq> []"
    by (simp_all add: keyed_def users.lookup_change dupdate_def)
  then show "getMessageKey (userDB (keyed s u key)) (PStr u) = Inr (PBytes key)"
    by (simp add: getter_defs dict_get_def)
  from get i assms show "getConnectionInfo (userDB (keyed s u key)) (PStr u) = Inr v"
    "getPublicKey (userDB (keyed s u key)) (PStr u) = getPublicKey (userDB s) (PStr u)"
    by (simp_all add: getter_defs dict_get_def str_def)
qed

definition start_message :: "pystr \<Rightarrow> message" where
  "start_message own = \<lparr>msg_class = PTCL, msg_sender = own, msg_data = PDict
     [(str ''name'', PStr (str ''BB84_PURIFIED'')), (str ''key_size'', PInt 16)]\<rparr>"

text \<open>What a client keeps of a session that it led, and of one that it followed.\<close>

lemma lead_stores:
  assumes "reaches a A B" "make_party BB84_PURIFIED A (PStr B) Leader (root_config a) (PInt 16) = Inr L"
    and "drives (key_program (fuel_of w) L) (tape_of w) (arrivals w) key ns"
  shows "establish_key w BB84_PURIFIED (PStr B) (PInt 16) a = (Inr (), keyed (sent_by a (PStr B) ns) B key)"
proof -
  have run: "run_with_peer BB84_PURIFIED Leader (PStr B) (PInt 16) w (key_program (fuel_of w)) a = (Inr key, sent_by a (PStr B) ns)"
    using assms(3) by (intro run_with_reachable [OF assms(1) _ assms(2)])
  from assms(1) obtain v where v: "getConnectionInfo (userDB a) (PStr B) = Inr v" by (auto simp: reaches_def)
  have "hasUser (userDB a) (PStr B)" using getConnectionInfo_known [OF v] by (auto simp: hasUser_def)
  with run show ?thesis by (simp add: establish_key_def has_user_PStr step_simps change_info_keyed)
qed

lemma follow_stores:
  assumes "reaches b B A" "make_party BB84_PURIFIED B (PStr A) Follower (root_config b) (PInt 16) = Inr F"
    and "drives (key_program (fuel_of w) F) (tape_of w) (arrivals w) key ns"
  shows "follow_request w (start_message A) b = (Inr (), keyed (sent_by b (PStr A) ns) A key)"
proof -
  have run: "run_with_peer BB84_PURIFIED Follower (PStr A) (PInt 16) w (key_program (fuel_of w)) b = (Inr key, sent_by b (PStr A) ns)"
    using assms(3) by (intro run_with_reachable [OF assms(1) _ assms(2)])
  from assms(1) obtain d where d: "getConnectionInfo (userDB b) (PStr A) = Inr (PDict d)"
    "peer_user (PStr A) (PDict d) = Inr (PStr A)" by (auto simp: reaches_def peer_user_plain)
  have pop: "pop_key (msg_data (start_message A)) ''name'' =
      Inr (PStr (str ''BB84_PURIFIED''), PDict [(str ''key_size'', PInt 16)])"
    by (simp add: start_message_def pop_key_def dpop_def)
  have create: "createProtocol (PStr (str ''BB84_PURIFIED'')) = Inr (Some BB84_PURIFIED)"
    by (simp add: createProtocol_def protocol_mapping_def)
  have args: "call_kwargs [''key_size''] (PDict [(str ''key_size'', PInt 16)]) = Inr [(str ''key_size'', PInt 16)]"
    by (simp add: call_kwargs_def dkeys_def)
  show ?thesis
    using run d pop create args
    by (simp add: follow_request_def start_message_def core_getConnectionInfo_def step_simps dict_get_def change_info_keyed)
qed

text \<open>The two programs of a key establishment, each seen from its own client.\<close>

lemma programs_agree:
  assumes "paired L F" "can_request L" "kind L = BB84_PURIFIED" "key_size L = PInt 16" "key_size F = PInt 16"
    and "good_channel ls fs picks" "length ys = 16" "list_all seed_ok ys" "39 \<le> fuel"
  shows "\<exists>t u to_a to_b key. length key = 16
    \<and> drives (key_program fuel L) t to_a key (start_message (me L) # to_b)
    \<and> drives (key_program fuel F) u to_b key to_a"
proof -
  have size: "key_size L = PInt (int (length ys))" "key_size F = key_size L" "23 + length ys \<le> fuel"
    using assms(4,5,7,9) by simp_all
  have kinds: "kind F = BB84_PURIFIED" using assms(1,3) by (simp add: paired_def)
  obtain t u key where key: "length key = 16"
    and run: "runs (bb84_execute fuel L) (bb84_execute fuel F) t u (Ret key) (Ret key)"
    using bb84_together [OF assms(1,2) size(1,2) assms(6,8) size(3)] assms(7) by auto
  from handshake [OF assms(1), of "\<lambda>_. bb84_execute fuel L" "\<lambda>_. bb84_execute fuel F", OF run]
  obtain p1 where p1: "key_program fuel L = Put (start_message (me L)) p1"
    and run1: "runs p1 (key_program fuel F) t u (Ret key) (Ret key)"
    using assms(3,4) kinds by (auto simp: key_program_def msg_def start_message_def first_message_def)
  from runs_drives [OF run1] obtain ms ns where d: "drives p1 t ms key ns" "drives (key_program fuel F) u ns key ms"
    by blast
  have "drives (key_program fuel L) t ms key (start_message (me L) # ns)"
    using d(1) unfolding p1 by (simp add: drives_def)
  with key d(2) show ?thesis by blast
qed

text \<open>What the two calls leave, in full.\<close>

lemma key_shared:
  assumes "reaches a A B" "reaches b B A" "length A \<le> 16" "length B \<le> 16"
    and "encode_message \<lparr>msg_class = RQQB, msg_sender = A, msg_data = PDict [(str ''user'', PStr B)]\<rparr> = Inr rq"
    and "good_channel ls fs picks" "length ys = 16" "list_all seed_ok ys" "39 \<le> fuel"
  shows "\<exists>t u to_a to_b key. length key = 16
    \<and> (\<forall>ts n. establish_key \<lparr>turns = ts, arrivals = to_a, tape_of = t, nonce_of = n, fuel_of = fuel\<rparr>
        BB84_PURIFIED (PStr B) (PInt 16) a = (Inr (), keyed (sent_by a (PStr B) (start_message A # to_b)) B key))
    \<and> (\<forall>ts n. follow_request \<lparr>turns = ts, arrivals = to_b, tape_of = u, nonce_of = n, fuel_of = fuel\<rparr>
        (start_message A) b = (Inr (), keyed (sent_by b (PStr A) to_a) A key))"
proof -
  obtain h p where L: "make_party BB84_PURIFIED A (PStr B) Leader (root_config a) (PInt 16) = Inr
    \<lparr>kind = BB84_PURIFIED, me = A, peer = PStr B, role_of = Leader, relay_host = h, relay_port = p, key_size = PInt 16\<rparr>"
    (is "_ = Inr ?L") using reaches_party [OF assms(1)] .
  obtain h' p' where F: "make_party BB84_PURIFIED B (PStr A) Follower (root_config b) (PInt 16) = Inr
    \<lparr>kind = BB84_PURIFIED, me = B, peer = PStr A, role_of = Follower, relay_host = h', relay_port = p', key_size = PInt 16\<rparr>"
    (is "_ = Inr ?F") using reaches_party [OF assms(2)] .
  have pair: "paired ?L ?F" using assms(3,4) by (simp add: paired_def)
  have req: "can_request ?L"
    using assms(3,5) by (simp add: can_request_def mk_message_def unpack_message_data_def)
  from programs_agree [OF pair req _ _ _ assms(6-9)] obtain t u to_a to_b key where
    d: "length key = 16" "drives (key_program fuel ?L) t to_a key (start_message A # to_b)"
    "drives (key_program fuel ?F) u to_b key to_a" by auto
  have "establish_key \<lparr>turns = ts, arrivals = to_a, tape_of = t, nonce_of = n, fuel_of = fuel\<rparr>
      BB84_PURIFIED (PStr B) (PInt 16) a = (Inr (), keyed (sent_by a (PStr B) (start_message A # to_b)) B key)" for ts n
    by (rule lead_stores [OF assms(1) L]) (simp add: d(2))
  moreover have "follow_request \<lparr>turns = ts, arrivals = to_b, tape_of = u, nonce_of = n, fuel_of = fuel\<rparr>
      (start_message A) b = (Inr (), keyed (sent_by b (PStr A) to_a) A key)" for ts n
    by (rule follow_stores [OF assms(2) F]) (simp add: d(3))
  ultimately show ?thesis using d(1) by blast
qed


section \<open>Instances\<close>

text \<open>Two clients that know each other and the root server.\<close>

definition demo_client :: "string \<Rightarrow> dict \<Rightarrow> string \<Rightarrow> client" where
  "demo_client n record_of other = \<lparr>core_name = str n, config = PNone,
     root_config = PDict [(str ''host'', PStr (str ''root'')), (str ''port'', PInt 8004)],
     signer_key = lit ''k'', allow_invalid = False,
     conn = \<lparr>conn_name = str n, conn_host = PStr (str ''localhost''), conn_port = PInt 8000,
       message_queue = [], conn_route = (\<lambda>_ _. None), conn_sent = []\<rparr>,
     userDB = [(PStr (str other), record_of)], qubit_history = (\<lambda>_. []), control_message_queue = (\<lambda>_. []),
     mailbox = mailbox_init, outbound_queue = []\<rparr>"

definition demo_address :: "pystr \<times> pyval" where
  "demo_address = (str ''connection'', PDict [(str ''host'', PStr (str ''localhost'')), (str ''port'', PInt 8001)])"

lemma demo_reaches: "reaches (demo_client n [demo_address] other) (str n) (str other)"
  by (simp add: reaches_def demo_client_def demo_address_def getConnectionInfo_def get_field_def get_user_def
      dict_get_def getitem_def dget_def wf_dict_def dkeys_def)


end
