(* ===== verification/Chat.thy ===== *)
theory Chat
  imports Client_Session
begin

text \<open>
  The chat messages of \<^verbatim>\<open>qchat/client.py\<close> from the sender's text to the receiver's history, the
  history of a client's mailbox, and its outbound queue.
\<close>

section \<open>Sizes on the wire\<close>

text \<open>\<open>json.dumps\<close> writes at most six characters for a character of Latin-1 text.\<close>

definition latin :: "pystr \<Rightarrow> bool" where
  "latin s \<longleftrightarrow> list_all (\<lambda>c. c < 256) s"

lemma latin_decode [simp]: "latin (latin1_decode b)"
  by (auto simp: latin_def list_all_iff dest: latin1_decode_bound)

lemma latin_valid: "latin s \<Longrightarrow> valid_str s"
  by (auto simp: latin_def list_all_iff scalar_def surrogate_def)

lemma length_json_str: "latin s \<Longrightarrow> length (json_str s) \<le> 6 * length s + 2"
proof -
  assume "latin s"
  then have "length (concat (map esc_char s)) \<le> 6 * length s"
    by (induction s) (auto simp: latin_def esc_char_def hex4_def)
  then show ?thesis by (simp add: json_str_def)
qed

lemma length_join: "length (join [44, 32] ss) \<le> sum_list (map (\<lambda>s. length s + 2) ss)"
  by (induction "[44, 32] :: pystr" ss rule: join.induct) auto

lemma dumped_fits:
  assumes "wf_json (PDict d)" "those (map dump_pair d) = Some ss" "2 + sum_list (map (\<lambda>s. length s + 2) ss) < 256 ^ 4"
  shows "payload_fits (PDict d)"
proof -
  define s where "s = [123] @ join [44, 32] ss @ [125]"
  have s: "dumps (PDict d) = Some s" unfolding dumps_PDict by (simp add: assms(2) s_def)
  have "length s < 256 ^ 4" using length_join [of ss] assms(3) by (simp add: s_def)
  moreover have "payload_bytes (PDict d) = Inr (map of_nat s)"
    using dumps_ascii [OF assms(1) s] s by (simp add: payload_bytes_def json_dumps_def utf8_encode_ascii del: dumps.simps)
  ultimately show ?thesis by (simp add: payload_fits_def)
qed

text \<open>A dictionary of texts, and a bound of its JSON form.\<close>

definition texts :: "(pystr \<times> pystr) list \<Rightarrow> dict" where
  "texts d = map (\<lambda>(k, t). (k, PStr t)) d"

definition texts_size :: "(pystr \<times> pystr) list \<Rightarrow> nat" where
  "texts_size d = 2 + sum_list (map (\<lambda>(k, t). 6 * (length k + length t) + 8) d)"

lemma texts_fit:
  assumes "distinct (map fst d)" "list_all (\<lambda>(k, t). latin k \<and> latin t) d" "texts_size d < 256 ^ 4"
  shows "wf_json (PDict (texts d)) \<and> payload_fits (PDict (texts d))"
proof
  have fst: "map fst (texts d) = map fst d" by (induction d) (auto simp: texts_def)
  have "wf_dict (texts d)" using assms(1) by (simp add: wf_dict_def dkeys_def fst)
  moreover have "list_all (\<lambda>p. valid_str (fst p) \<and> wf_json (snd p)) (texts d)"
    using assms(2) by (induction d) (auto simp: texts_def dest: latin_valid)
  ultimately show wf: "wf_json (PDict (texts d))" by simp
  have pairs: "\<exists>ss. those (map dump_pair (texts d)) = Some ss \<and>
      sum_list (map (\<lambda>s. length s + 2) ss) \<le> sum_list (map (\<lambda>(k, t). 6 * (length k + length t) + 8) d)"
    using assms(2)
  proof (induction d)
    case (Cons p d)
    obtain k t where p: "p = (k, t)" by (cases p)
    with Cons obtain ss where ss: "those (map dump_pair (texts d)) = Some ss"
      "sum_list (map (\<lambda>s. length s + 2) ss) \<le> sum_list (map (\<lambda>(k, t). 6 * (length k + length t) + 8) d)"
      by auto
    have step: "texts ((k, t) # d) = (k, PStr t) # texts d"
      "dump_pair (k, PStr t) = Some (json_str k @ [58, 32] @ json_str t)" by (simp_all add: texts_def p dump_pair_def)
    have "length (json_str k) + length (json_str t) \<le> 6 * (length k + length t) + 4"
      using length_json_str [of k] length_json_str [of t] Cons.prems by (simp add: p)
    with ss show ?case by (simp add: step p)
  qed (simp add: texts_def)
  then obtain ss where ss: "those (map dump_pair (texts d)) = Some ss"
    "sum_list (map (\<lambda>s. length s + 2) ss) \<le> sum_list (map (\<lambda>(k, t). 6 * (length k + length t) + 8) d)" by blast
  show "payload_fits (PDict (texts d))"
    by (rule dumped_fits [OF wf ss(1)]) (use ss(2) assms(3) in \<open>simp add: texts_size_def\<close>)
qed

section \<open>One chat message\<close>

definition chat_texts :: "bytes \<times> bytes \<times> bytes \<Rightarrow> (pystr \<times> pystr) list" where
  "chat_texts p = (case p of (nonce, ciphertext, tag) \<Rightarrow>
     [(str ''nonce'', latin1_decode nonce), (str ''ciphertext'', latin1_decode ciphertext),
      (str ''tag'', latin1_decode tag)])"

definition chat_message :: "pystr \<Rightarrow> bytes \<times> bytes \<times> bytes \<Rightarrow> message" where
  "chat_message sender p = \<lparr>msg_class = QCHT, msg_sender = sender, msg_data = PDict (texts (chat_texts p))\<rparr>"

lemma chat_message_simps [simp]:
  "msg_class (chat_message n p) = QCHT"
  "msg_sender (chat_message n p) = n"
  "msg_data (chat_message n p) = PDict (texts (chat_texts p))"
  by (simp_all add: chat_message_def)

lemma create_chat:
  assumes "getMessageKey (userDB a) (PStr u) = Inr (PBytes key)" "key \<noteq> []" "latin1_encode text = Inr data"
    and "cipher_encrypt C (PBytes key) (nonce_of w) data = Inr p" "length (core_name a) \<le> 16"
  shows "createQChatMessage C w (PStr u) text a = (Inr (chat_message (core_name a) p), a)"
  using assms
  by (cases p) (simp add: createQChatMessage_def core_getMessageKey_def step_simps mk_message_def
      unpack_message_data_def chat_message_def chat_texts_def texts_def)

lemma read_chat:
  assumes "encryption_ok C" "getMessageKey db (PStr n) = Inr key" "cipher_encrypt C key nonce data = Inr p"
  shows "read_mail C db (chat_message n p) = Inr (PBytes data)"
proof -
  obtain nonce' c t where p: "p = (nonce', c, t)" by (cases p)
  have "cipher_decrypt C key (nonce', c, t) = Inr data"
    using decrypt_encrypt [OF assms(1,3)] by (simp add: p)
  moreover have "data_bytes (chat_message n p) ''nonce'' = Inr nonce'"
    "data_bytes (chat_message n p) ''ciphertext'' = Inr c" "data_bytes (chat_message n p) ''tag'' = Inr t"
    by (simp_all add: data_bytes_def getitem_def dget_def encode_latin1_def texts_def chat_texts_def p str_def)
  ultimately show ?thesis using assms(2) by (simp add: read_mail_def)
qed

text \<open>What the theorems about messages ask of the cipher's output: it is as long as the text, the tag short.\<close>

definition cipher_sizes :: "crypto \<Rightarrow> bool" where
  "cipher_sizes C \<longleftrightarrow> (\<forall>k n d. length (gcm_stream C k n d) = length d \<and> length (gcm_tag C k n d) \<le> 16)"

lemma cipher_parts:
  assumes "cipher_sizes C" "cipher_encrypt C key nonce data = Inr (n, c, t)"
  shows "n = nonce" "length c = length data" "length t \<le> 16"
  using assms by (auto simp: cipher_encrypt_def cipher_sizes_def bindE_eq_Inr Let_def)

lemma chat_sendable:
  assumes "cipher_sizes C" "cipher_encrypt C key nonce data = Inr p" "wire_name sender"
    and "length nonce + length data \<le> 700000000" "length sg \<le> 4096"
  shows "sendable (chat_message sender p)"
    and "sendable ((chat_message sender p)\<lparr>msg_data := PDict (dset (str ''sig'') (PStr (latin1_decode sg)) (texts (chat_texts p)))\<rparr>)"
proof -
  obtain n c t where p: "p = (n, c, t)" by (cases p)
  note sizes = cipher_parts [OF assms(1,2) [unfolded p]]
  have keys: "latin (str ''nonce'')" "latin (str ''ciphertext'')" "latin (str ''tag'')" "latin (str ''sig'')"
    by (simp_all add: latin_def str_def)
  let ?d = "chat_texts p" and ?e = "chat_texts p @ [(str ''sig'', latin1_decode sg)]"
  have len: "length (latin1_decode b) = length b" for b by (simp add: latin1_decode_def)
  have d: "distinct (map fst ?d)" "list_all (\<lambda>(k, t). latin k \<and> latin t) ?d" "texts_size ?d < 256 ^ 4"
    using keys sizes assms(4) by (simp_all add: chat_texts_def p texts_size_def len str_def)
  have e: "distinct (map fst ?e)" "list_all (\<lambda>(k, t). latin k \<and> latin t) ?e" "texts_size ?e < 256 ^ 4"
    using keys sizes assms(4,5) by (simp_all add: chat_texts_def p texts_size_def len str_def)
  have set_sig: "dset (str ''sig'') (PStr (latin1_decode sg)) (texts ?d) = texts ?e"
    by (simp add: texts_def chat_texts_def p dset_def)
  show "sendable (chat_message sender p)"
    using texts_fit [OF d] assms(3) by (simp add: sendable_def del: wf_json.simps)
  show "sendable ((chat_message sender p)\<lparr>msg_data := PDict (dset (str ''sig'') (PStr (latin1_decode sg)) (texts (chat_texts p)))\<rparr>)"
    using texts_fit [OF e] assms(3) unfolding set_sig by (simp add: sendable_def del: wf_json.simps)
qed

section \<open>From the text to the history\<close>

lemma sendMessage_route:
  assumes "getConnectionInfo (userDB a) (PStr u) = Inr target" "getitem target ''host'' = Inr host"
    and "getitem target ''port'' = Inr port" "sign_message C m a = (Inr m1, a)" "encode_message m1 = Inr b"
  shows "sendMessage C ts (PStr u) m a = send_to host port b a"
proof -
  have "hasUser (userDB a) (PStr u)"
    using assms(1) by (auto simp: getConnectionInfo_def get_field_def hasUser_def split: option.splits)
  then show ?thesis
    using assms by (simp add: sendMessage_def has_user_PStr core_getConnectionInfo_def step_simps)
qed

lemma history_one:
  assumes "mailbox b = mailbox_init" "read_mail C (userDB b) m = Inr v"
  shows "getMessageHistory C (b\<lparr>mailbox := storeMessage m mailbox_init\<rparr>) = (Inr [(msg_sender m, [v])], b)"
proof -
  have "b\<lparr>mailbox := mailbox_init\<rparr> = b" using assms(1) by (cases b) simp
  then show ?thesis
    using assms(2) by (simp add: getMessageHistory_def storeMessage_def popMessages_def mailbox_init_def
        add_history_def dset_def)
qed

lemma chat_sent:
  assumes "core_name a = A" "length A \<le> 16"
    and "getConnectionInfo (userDB a) (PStr B) = Inr target" "getitem target ''host'' = Inr host"
    and "getitem target ''port'' = Inr port" "conn_route (conn a) host port = None"
    and "getMessageKey (userDB a) (PStr B) = Inr (PBytes key)" "key \<noteq> []" "latin1_encode text = Inr data"
    and "cipher_encrypt C (PBytes key) (nonce_of w) data = Inr p"
    and "encode_message (chat_message A p) = Inr b0"
    and "encode_message (with_sig C (signer_key a) b0 (chat_message A p)) = Inr frame"
  shows "sendQChatMessage C w (PStr B) text a
    = (Inr (), a\<lparr>conn := (conn a)\<lparr>conn_sent := conn_sent (conn a) @ [(host, port, frame)]\<rparr>\<rparr>)"
proof -
  have sig: "sign_message C (chat_message A p) a = (Inr (with_sig C (signer_key a) b0 (chat_message A p)), a)"
    by (rule sign_message_dict [OF _ assms(11)]) simp
  have create: "createQChatMessage C w (PStr B) text a = (Inr (chat_message A p), a)"
    using create_chat [OF assms(7-10)] assms(1,2) by simp
  have "hasUser (userDB a) (PStr B)"
    using assms(7) by (auto simp: getMessageKey_def get_field_def hasUser_def split: option.splits)
  then show ?thesis
    using create sendMessage_route [OF assms(3-5) sig assms(12)] assms(6)
    by (simp add: sendQChatMessage_def has_user_PStr step_simps send_to_def send_message_def)
qed

lemma chat_stored:
  assumes "signatures_ok C" "encode_message (chat_message A p) = Inr b0" "mailbox b = mailbox_init"
    and "holds_key C (userDB b) A key"
  shows "process_message C (client_handlers C w) ts (with_sig C key b0 (chat_message A p)) b
    = (Inr (), b\<lparr>mailbox := storeMessage (chat_message A p) mailbox_init\<rparr>)"
proof -
  have m: "msg_verify (msg_class (chat_message A p))" "msg_data (chat_message A p) = PDict (texts (chat_texts p))"
    "map_of (texts (chat_texts p)) (str ''sig'') = None"
    by (cases p, simp add: msg_verify_def texts_def chat_texts_def str_def)+
  have held: "holds_key C (userDB b) (msg_sender (chat_message A p)) key" using assms(4) by simp
  show ?thesis
    unfolding signed_dispatch_held [OF assms(1) m assms(2) held]
    by (simp add: dispatch_def client_handlers_def store_in_mailbox_def step_simps assms(3))
qed

lemma chat_delivered:
  fixes a b :: client
  assumes "signatures_ok C" "encryption_ok C" "key_sizes_ok C" "cipher_sizes C"
    and "core_name a = A" "wire_name A" "\<forall>d. length (sign C (signer_key a) d) \<le> 4096"
    and "getConnectionInfo (userDB a) (PStr B) = Inr target" "getitem target ''host'' = Inr host"
    and "getitem target ''port'' = Inr port" "conn_route (conn a) host port = None"
    and "getMessageKey (userDB a) (PStr B) = Inr (PBytes key)" "length key = 16"
    and "getMessageKey (userDB b) (PStr A) = Inr (PBytes key)"
    and "holds_key C (userDB b) A (signer_key a)"
    and "message_queue (conn b) = []" "mailbox b = mailbox_init" "whole_fields f"
    and "latin1_encode text = Inr data" "nonce_of w \<noteq> []" "length (nonce_of w) + length data \<le> 700000000"
  shows "\<exists>frame m m'.
    sendQChatMessage C w (PStr B) text a
      = (Inr (), a\<lparr>conn := (conn a)\<lparr>conn_sent := conn_sent (conn a) @ [(host, port, frame)]\<rparr>\<rparr>)
    \<and> read_from_connection (b\<lparr>conn := snd (handle_connection \<lparr>pending = frame, sched = f\<rparr> (conn b))\<rparr>) = (Inr (Some m), b)
    \<and> process_message C (client_handlers C w') ts m b = (Inr (), b\<lparr>mailbox := storeMessage m' mailbox_init\<rparr>)
    \<and> getMessageHistory C (b\<lparr>mailbox := storeMessage m' mailbox_init\<rparr>) = (Inr [(A, [PBytes data])], b)"
proof -
  obtain p where p: "cipher_encrypt C (PBytes key) (nonce_of w) data = Inr p"
    using encrypt_total [OF assms(3,13,20), of data] by blast
  let ?m = "chat_message A p"
  note send = chat_sendable [OF assms(4) p assms(6,21), of "sign C (signer_key a) b0" for b0]
  have s0: "sendable ?m" using send(1) assms(7) by simp
  obtain b0 where b0: "encode_message ?m = Inr b0"
    using encode_message_shape [of ?m] s0 by (auto simp: sendable_def)
  let ?m1 = "with_sig C (signer_key a) b0 ?m"
  have s1: "sendable ?m1" using send(2) [of b0] assms(7) by (simp add: with_sig_def)
  obtain frame where frame: "encode_message ?m1 = Inr frame"
    using encode_message_shape [of ?m1] s1 by (auto simp: sendable_def)
  have key: "key \<noteq> []" using assms(13) by auto
  have "getMessageHistory C (b\<lparr>mailbox := storeMessage ?m mailbox_init\<rparr>) = (Inr [(A, [PBytes data])], b)"
    using history_one [OF assms(17) read_chat [OF assms(2,14) p]] by simp
  with chat_sent [OF assms(5) wire_name_length [OF assms(6)] assms(8-12) key assms(19) p b0 frame]
    frame_taken [OF s1 frame assms(16,18)] chat_stored [OF assms(1) b0 assms(17,15)]
  show ?thesis by blast
qed

text \<open>
  C2. A chat message arrives. When two hosts know each other, hold the same 16-byte message key
  and the receiver has the sender's public key, then sending a Latin-1 text writes one frame to
  the receiver's address and changes nothing else; the frame, under any fragmentation of its
  payload, is read, verified, stored, and the receiver's next history holds exactly the
  text's bytes under the sender's name, the mailbox being empty again.
\<close>

theorem chat_end_to_end:
  fixes a b :: client
  assumes "signatures_ok C" "encryption_ok C" "key_sizes_ok C" "cipher_sizes C"
    and "core_name a = A" "wire_name A" "\<forall>d. length (sign C (signer_key a) d) \<le> 4096"
    and "getConnectionInfo (userDB a) (PStr B) = Inr target" "getitem target ''host'' = Inr host"
    and "getitem target ''port'' = Inr port" "conn_route (conn a) host port = None"
    and "getMessageKey (userDB a) (PStr B) = Inr (PBytes key)" "length key = 16"
    and "getMessageKey (userDB b) (PStr A) = Inr (PBytes key)"
    and "holds_key C (userDB b) A (signer_key a)"
    and "message_queue (conn b) = []" "mailbox b = mailbox_init" "whole_fields f"
    and "latin1_encode text = Inr data" "nonce_of w \<noteq> []" "length (nonce_of w) + length data \<le> 700000000"
  shows "\<exists>frame m m'.
    sendQChatMessage C w (PStr B) text a
      = (Inr (), a\<lparr>conn := (conn a)\<lparr>conn_sent := conn_sent (conn a) @ [(host, port, frame)]\<rparr>\<rparr>)
    \<and> read_from_connection (b\<lparr>conn := snd (handle_connection \<lparr>pending = frame, sched = f\<rparr> (conn b))\<rparr>) = (Inr (Some m), b)
    \<and> process_message C (client_handlers C w') ts m b = (Inr (), b\<lparr>mailbox := storeMessage m' mailbox_init\<rparr>)
    \<and> getMessageHistory C (b\<lparr>mailbox := storeMessage m' mailbox_init\<rparr>) = (Inr [(A, [PBytes data])], b)"
  using chat_delivered [OF assms] .

section \<open>The history of a mailbox\<close>

definition mail_value :: "crypto \<Rightarrow> userdb \<Rightarrow> message \<Rightarrow> pyval" where
  "mail_value C db m = (case read_mail C db m of Inl e \<Rightarrow> PNone | Inr v \<Rightarrow> v)"

lemma map_of_add_history:
  "map_of (add_history u v h) w =
    (if w = u then Some ((case map_of h u of None \<Rightarrow> [] | Some vs \<Rightarrow> vs) @ [v]) else map_of h w)"
  by (simp add: add_history_def)

lemma history_fold:
  "\<forall>m \<in> set ms. \<exists>v. read_mail C db m = Inr v \<Longrightarrow>
   \<exists>h'. foldE (\<lambda>m h. bindE (read_mail C db m) (\<lambda>v. Inr (add_history (msg_sender m) v h))) ms h = Inr h'
     \<and> (\<forall>u. map_of h' u = (let us = filter (\<lambda>m. msg_sender m = u) ms in
         if us = [] then map_of h u
         else Some ((case map_of h u of None \<Rightarrow> [] | Some vs \<Rightarrow> vs) @ map (mail_value C db) us)))"
proof (induction ms arbitrary: h)
  case (Cons m ms)
  then obtain v where v: "read_mail C db m = Inr v" by auto
  from Cons.IH [of "add_history (msg_sender m) v h"] Cons.prems obtain h' where
    "foldE (\<lambda>m h. bindE (read_mail C db m) (\<lambda>v. Inr (add_history (msg_sender m) v h))) ms
      (add_history (msg_sender m) v h) = Inr h'"
    "\<forall>u. map_of h' u = (let us = filter (\<lambda>m. msg_sender m = u) ms in
       if us = [] then map_of (add_history (msg_sender m) v h) u
       else Some ((case map_of (add_history (msg_sender m) v h) u of None \<Rightarrow> [] | Some vs \<Rightarrow> vs)
         @ map (mail_value C db) us))" by auto
  with v show ?case
    by (intro exI [of _ h']) (simp add: map_of_add_history mail_value_def Let_def)
qed simp

text \<open>
  C34. A history that can be read is complete: every stored message of a sender is in the sender's
  list, decrypted, in the order of arrival, a user without messages has no entry, and the mailbox
  is empty afterwards.
\<close>

theorem history_complete:
  assumes "\<forall>m \<in> set (mb_messages (mailbox s)). \<exists>v. read_mail C (userDB s) m = Inr v"
  shows "\<exists>h. getMessageHistory C s = (Inr h, s\<lparr>mailbox := mailbox_init\<rparr>)
    \<and> (\<forall>u. map_of h u = (let us = filter (\<lambda>m. msg_sender m = u) (mb_messages (mailbox s)) in
        if us = [] then None else Some (map (mail_value C (userDB s)) us)))"
  using history_fold [OF assms, of "[]"]
  by (auto simp: getMessageHistory_def popMessages_def mailbox_init_def Let_def)

lemma unreadable_history:
  assumes "m \<in> set (mb_messages (mailbox s))" "read_mail C (userDB s) m = Inl e"
  shows "\<exists>e'. getMessageHistory C s = (Inl e', s\<lparr>mailbox := mailbox_init\<rparr>)"
proof -
  have "\<exists>e'. foldE (\<lambda>m h. bindE (read_mail C db m) (\<lambda>v. Inr (add_history (msg_sender m) v h))) ms h = Inl e'"
    if "m \<in> set ms" "read_mail C db m = Inl e" for ms h db
    using that
  proof (induction ms arbitrary: h)
    case (Cons m' ms)
    then show ?case by (cases "read_mail C db m'") auto
  qed simp
  from this [OF assms] show ?thesis
    by (auto simp: getMessageHistory_def popMessages_def mailbox_init_def)
qed

text \<open>
  The history is all or nothing: one message that cannot be read (an unknown sender, no key, a
  wrong tag, a missing field) makes the call raise, and every other message of the mailbox is
  lost with it.
\<close>

theorem history_all_or_nothing:
  assumes "m \<in> set (mb_messages (mailbox s))" "read_mail C (userDB s) m = Inl e"
  shows "\<exists>e'. getMessageHistory C s = (Inl e', s\<lparr>mailbox := mailbox_init\<rparr>)"
  using unreadable_history [OF assms] .

section \<open>The outbound queue\<close>

definition with_sent :: "'a core_scheme \<Rightarrow> (pyval \<times> pyval \<times> bytes) list \<Rightarrow> 'a core_scheme" where
  "with_sent s fs = s\<lparr>conn := (conn s)\<lparr>conn_sent := conn_sent (conn s) @ fs\<rparr>\<rparr>"

text \<open>What becomes of one queued message to a known user: a frame, or an exception.\<close>

definition delivery :: "crypto \<Rightarrow> 'a core_scheme \<Rightarrow> pyval \<times> message \<Rightarrow> (pyval \<times> pyval \<times> bytes) res" where
  "delivery C s p = bindE (getConnectionInfo (userDB s) (fst p)) (\<lambda>info.
     bindE (getitem info ''host'') (\<lambda>host.
     bindE (getitem info ''port'') (\<lambda>port.
     bindE (fst (sign_message C (snd p) s)) (\<lambda>m1.
     bindE (encode_message m1) (\<lambda>b.
     case conn_route (conn s) host port of Some e \<Rightarrow> Inl e | None \<Rightarrow> Inr (host, port, b))))))"

definition to_known :: "userdb \<Rightarrow> pyval \<times> message \<Rightarrow> bool" where
  "to_known db p \<longleftrightarrow> (\<exists>n. fst p = PStr n) \<and> hasUser db (fst p)"

lemma sign_keeps: "sign_message C m s = (fst (sign_message C m s), s)"
  by (simp add: sign_message_def)

lemma sendMessage_delivery:
  assumes "to_known (userDB s) (u, m)"
  shows "sendMessage C ts u m s = (case delivery C s (u, m) of
     Inl e \<Rightarrow> (Inl e, s) | Inr f \<Rightarrow> (Inr (), with_sent s [f]))"
proof -
  obtain n where n: "u = PStr n" "hasUser (userDB s) (PStr n)" using assms by (auto simp: to_known_def)
  obtain r where r: "sign_message C m s = (r, s)" using sign_keeps by blast
  show ?thesis
    by (auto simp: sendMessage_def delivery_def n has_user_PStr core_getConnectionInfo_def andThen_def lift_def
        r send_to_def send_message_def with_sent_def ret_def bindE_def split: sum.split option.split)
qed

lemma delivery_with_sent: "delivery C ((with_sent s fs)\<lparr>outbound_queue := q\<rparr>) p = delivery C s p"
  by (simp add: delivery_def with_sent_def sign_message_def)

text \<open>
  The sending thread empties the queue in order, and stops for good at the first message it
  cannot deliver: the messages before it have been sent, in the order they were queued, the
  message itself is lost and those behind it stay in the queue. (The receivers are known users.)
\<close>

theorem outbound_until_failure:
  fixes s :: client
  assumes "outbound_queue s = ps @ rest" "list_all (to_known (userDB s)) (ps @ rest)"
    and "map (delivery C s) ps = map Inr fs" "rest \<noteq> [] \<longrightarrow> delivery C s (hd rest) = Inl e"
    and "length (ps @ rest) \<le> n"
  shows "send_outbound_messages C ts n s =
    (if rest = [] then Inr () else Inl e, (with_sent s fs)\<lparr>outbound_queue := tl rest\<rparr>)"
  using assms
proof (induction ps arbitrary: s fs n)
  case Nil
  show ?case
  proof (cases rest)
    case r: Nil
    with Nil have "s = s\<lparr>conn := (conn s)\<lparr>conn_sent := conn_sent (conn s)\<rparr>, outbound_queue := []\<rparr>" by simp
    with r Nil show ?thesis by (cases n) (simp_all add: get_outbound_def with_sent_def)
  next
    case r: (Cons p q)
    obtain u m where p: "p = (u, m)" by (cases p)
    obtain k where n: "n = Suc k" using Nil r by (cases n) simp_all
    let ?s = "s\<lparr>outbound_queue := q\<rparr>"
    have "to_known (userDB ?s) (u, m)" using Nil r p by simp
    note send = sendMessage_delivery [OF this, of C ts]
    have "delivery C ?s (u, m) = Inl e"
      using Nil r p delivery_with_sent [of C q s "[]"] by (simp add: with_sent_def)
    with r n p Nil show ?thesis by (simp add: get_outbound_def send with_sent_def)
  qed
next
  case (Cons p ps)
  obtain u m where p: "p = (u, m)" by (cases p)
  obtain k where n: "n = Suc k" "length (ps @ rest) \<le> k" using Cons.prems(5) by (cases n) simp_all
  obtain f fs' where fs: "fs = f # fs'" "delivery C s (u, m) = Inr f" "map (delivery C s) ps = map Inr fs'"
    using Cons.prems(3) p by (cases fs) auto
  let ?s = "s\<lparr>outbound_queue := ps @ rest\<rparr>"
  let ?t = "with_sent ?s [f]"
  have "to_known (userDB ?s) (u, m)" using Cons.prems(2) p by simp
  note send = sendMessage_delivery [OF this, of C ts]
  have d: "delivery C ?t = delivery C s" "delivery C ?s = delivery C s"
    by (simp_all add: fun_eq_iff delivery_def with_sent_def sign_message_def)
  have t: "outbound_queue ?t = ps @ rest" "userDB ?t = userDB s" by (simp_all add: with_sent_def)
  have "send_outbound_messages C ts k ?t =
      (if rest = [] then Inr () else Inl e, (with_sent ?t fs')\<lparr>outbound_queue := tl rest\<rparr>)"
    by (rule Cons.IH) (use Cons.prems(2,4) t d fs(3) n(2) in simp_all)
  moreover have "send_outbound_messages C ts n s = send_outbound_messages C ts k ?t"
    using Cons.prems(1) p n(1) fs(2) d(2) send by (simp add: get_outbound_def)
  ultimately show ?case by (simp add: with_sent_def fs(1))
qed

section \<open>Instances\<close>

definition demo_record :: dict where
  "demo_record = [demo_address, (str ''pub'', PBytes (lit ''k'')), (str ''message_key'', PBytes (replicate 16 7))]"

definition demo_world :: world where
  "demo_world = \<lparr>turns = [], arrivals = [], tape_of = [], nonce_of = [1], fuel_of = 0\<rparr>"

lemma demo_cipher_sizes: "cipher_sizes demo_crypto"
  by (auto simp: cipher_sizes_def demo_crypto_def min_def)

lemma demo_client_facts:
  "core_name (demo_client n r other) = str n" "conn_route (conn (demo_client n r other)) h p = None"
  "message_queue (conn (demo_client n r other)) = []" "mailbox (demo_client n r other) = mailbox_init"
  "signer_key (demo_client n r other) = lit ''k''" "userDB (demo_client n r other) = [(PStr (str other), r)]"
  by (simp_all add: demo_client_def)

lemma demo_record_facts:
  "getConnectionInfo [(u, demo_record)] u = Inr (PDict [(str ''host'', PStr (str ''localhost'')), (str ''port'', PInt 8001)])"
  "getMessageKey [(u, demo_record)] u = Inr (PBytes (replicate 16 7))"
  "getPublicKey [(u, demo_record)] u = Inr (PBytes (get_pub demo_crypto (lit ''k'')))"
  by (simp_all add: demo_record_def demo_address_def getter_defs get_user_def dict_get_def get_pub_def demo_crypto_def)

text \<open>What the demo clients need for a chat.\<close>

lemma demo_chat:
  fixes a b :: client
  defines "a \<equiv> demo_client ''Alice'' demo_record ''Bob''" and "b \<equiv> demo_client ''Bob'' demo_record ''Alice''"
  shows "wire_name (str ''Alice'')" "\<forall>d. length (sign demo_crypto (signer_key a) d) \<le> 4096"
    "getConnectionInfo (userDB a) (PStr (str ''Bob'')) = Inr (PDict [(str ''host'', PStr (str ''localhost'')), (str ''port'', PInt 8001)])"
    "getitem (PDict [(str ''host'', PStr (str ''localhost'')), (str ''port'', PInt 8001)]) ''host'' = Inr (PStr (str ''localhost''))"
    "getitem (PDict [(str ''host'', PStr (str ''localhost'')), (str ''port'', PInt 8001)]) ''port'' = Inr (PInt 8001)"
    "getMessageKey (userDB a) (PStr (str ''Bob'')) = Inr (PBytes (replicate 16 7))"
    "getMessageKey (userDB b) (PStr (str ''Alice'')) = Inr (PBytes (replicate 16 7))"
    "holds_key demo_crypto (userDB b) (str ''Alice'') (signer_key a)"
    "nonce_of demo_world \<noteq> []" "length (nonce_of demo_world) \<le> 16"
    "length (replicate 16 (7 :: byte)) = 16" "whole_fields []"
  by (simp_all add: a_def b_def holds_key_def wire_name_def wire_eval sign_def demo_crypto_def lit_def getitem_def dget_def
      demo_client_facts demo_record_facts [unfolded demo_crypto_def] demo_world_def whole_fields_def)

theorem chat_end_to_end_witness:
  "\<exists>frame m m'.
    sendQChatMessage demo_crypto demo_world (PStr (str ''Bob'')) (str ''hi'') (demo_client ''Alice'' demo_record ''Bob'')
      = (Inr (), (demo_client ''Alice'' demo_record ''Bob'')\<lparr>conn := (conn (demo_client ''Alice'' demo_record ''Bob''))
          \<lparr>conn_sent := [(PStr (str ''localhost''), PInt 8001, frame)]\<rparr>\<rparr>)
    \<and> process_message demo_crypto (client_handlers demo_crypto demo_world) [] m (demo_client ''Bob'' demo_record ''Alice'')
      = (Inr (), (demo_client ''Bob'' demo_record ''Alice'')\<lparr>mailbox := storeMessage m' mailbox_init\<rparr>)
    \<and> getMessageHistory demo_crypto ((demo_client ''Bob'' demo_record ''Alice'')\<lparr>mailbox := storeMessage m' mailbox_init\<rparr>)
      = (Inr [(str ''Alice'', [PBytes (lit ''hi'')])], demo_client ''Bob'' demo_record ''Alice'')"
proof -
  let ?a = "demo_client ''Alice'' demo_record ''Bob''"
  have plain: "latin1_encode (str ''hi'') = Inr (lit ''hi'')" by (simp add: latin1_encode_def str_def lit_def)
  have size: "length (nonce_of demo_world) + length (lit ''hi'') \<le> 700000000"
    by (simp add: demo_world_def lit_def)
  have sent: "conn_sent (conn ?a) = []" by (simp add: demo_client_def)
  from chat_end_to_end [OF demo_crypto_ok(1,3,4) demo_cipher_sizes demo_client_facts(1) demo_chat(1-5)
      demo_client_facts(2) demo_chat(6,11,7,8) demo_client_facts(3,4) demo_chat(12) plain demo_chat(9) size,
      of demo_world "[]"]
  show ?thesis unfolding sent by auto
qed

definition demo_dense :: message where
  "demo_dense = \<lparr>msg_class = SPDS, msg_sender = str ''Alice'', msg_data = PDict [(str ''plaintext'', PBytes [1, 2])]\<rparr>"

definition demo_stray :: message where
  "demo_stray = \<lparr>msg_class = QCHT, msg_sender = str ''Eve'', msg_data = PDict []\<rparr>"

lemma demo_mail: "read_mail C db demo_dense = Inr (PBytes [1, 2])"
  by (simp add: read_mail_def demo_dense_def getitem_def dget_def)

theorem history_complete_witness:
  "\<exists>h. getMessageHistory demo_crypto ((demo_client ''Bob'' demo_record ''Alice'')\<lparr>mailbox := \<lparr>mb_messages = [demo_dense]\<rparr>\<rparr>)
      = (Inr h, demo_client ''Bob'' demo_record ''Alice'')
    \<and> map_of h (str ''Alice'') = Some [PBytes [1, 2]]"
proof -
  let ?b = "demo_client ''Bob'' demo_record ''Alice''"
  have b: "?b\<lparr>mailbox := mailbox_init\<rparr> = ?b" by (simp add: demo_client_def)
  have sender: "msg_sender demo_dense = str ''Alice''" by (simp add: demo_dense_def)
  from history_complete [of "?b\<lparr>mailbox := \<lparr>mb_messages = [demo_dense]\<rparr>\<rparr>" demo_crypto]
  show ?thesis by (auto simp: demo_mail b mail_value_def sender)
qed

lemma demo_stray_unread: "read_mail C (userDB (demo_client ''Bob'' demo_record ''Alice'')) demo_stray = Inl DBException"
proof -
  have "getMessageKey (userDB (demo_client ''Bob'' demo_record ''Alice'')) (PStr (msg_sender demo_stray)) = Inl DBException"
    by (simp add: demo_client_facts getter_defs get_user_def demo_stray_def)
  then show ?thesis by (simp add: read_mail_def) (simp add: demo_stray_def)
qed

theorem history_all_or_nothing_witness:
  "\<exists>e'. getMessageHistory demo_crypto
      ((demo_client ''Bob'' demo_record ''Alice'')\<lparr>mailbox := \<lparr>mb_messages = [demo_dense, demo_stray]\<rparr>\<rparr>)
    = (Inl e', demo_client ''Bob'' demo_record ''Alice'')"
proof -
  let ?b = "demo_client ''Bob'' demo_record ''Alice''"
  have b: "?b\<lparr>mailbox := mailbox_init\<rparr> = ?b" by (simp add: demo_client_def)
  have "read_mail demo_crypto (userDB ?b) demo_stray = Inl DBException" by (rule demo_stray_unread)
  with history_all_or_nothing [of demo_stray "?b\<lparr>mailbox := \<lparr>mb_messages = [demo_dense, demo_stray]\<rparr>\<rparr>" demo_crypto]
  show ?thesis by (simp add: b)
qed

definition demo_raw :: message where
  "demo_raw = \<lparr>msg_class = BB84, msg_sender = str ''Alice'', msg_data = PDict [(str ''x'', PBytes [])]\<rparr>"

theorem outbound_until_failure_witness:
  "\<exists>frame. send_outbound_messages demo_crypto [] 5 ((demo_client ''Alice'' demo_record ''Bob'')\<lparr>outbound_queue :=
      [(PStr (str ''Bob''), demo_ack), (PStr (str ''Bob''), demo_raw), (PStr (str ''Bob''), demo_ack)]\<rparr>)
    = (Inl MalformedMessage, (with_sent (demo_client ''Alice'' demo_record ''Bob'') [frame])\<lparr>outbound_queue :=
      [(PStr (str ''Bob''), demo_ack)]\<rparr>)"
proof -
  let ?q = "[(PStr (str ''Bob''), demo_ack), (PStr (str ''Bob''), demo_raw), (PStr (str ''Bob''), demo_ack)]"
  let ?s = "(demo_client ''Alice'' demo_record ''Bob'')\<lparr>outbound_queue := ?q\<rparr>"
  have "fst (sign_message demo_crypto demo_ack ?s) = fst (sign_message demo_crypto demo_ack (demo_core n db))" for n db
    by (simp add: sign_message_def demo_client_facts demo_core_def)
  then have sg: "fst (sign_message demo_crypto demo_ack ?s) = Inr demo_signed" by (simp add: demo_signing)
  have raw: "fst (sign_message demo_crypto demo_raw ?s) = Inl MalformedMessage"
    by (simp add: sign_message_def demo_raw_def wire_eval)
  have d: "delivery demo_crypto ?s (PStr (str ''Bob''), demo_ack) = Inr (PStr (str ''localhost''), PInt 8001, demo_signed_frame)"
    "delivery demo_crypto ?s (PStr (str ''Bob''), demo_raw) = Inl MalformedMessage"
    using demo_signed_sendable(2)
    by (simp_all add: delivery_def sg raw demo_client_facts demo_record_facts getitem_def dget_def)
  have "with_sent ?s fs\<lparr>outbound_queue := q\<rparr> = (with_sent (demo_client ''Alice'' demo_record ''Bob'') fs)\<lparr>outbound_queue := q\<rparr>" for fs q
    by (simp add: with_sent_def demo_client_def)
  moreover have "list_all (to_known (userDB ?s)) ?q"
    by (simp add: to_known_def demo_client_facts hasUser_def get_user_def)
  ultimately show ?thesis
    using outbound_until_failure [of ?s "[(PStr (str ''Bob''), demo_ack)]"
        "[(PStr (str ''Bob''), demo_raw), (PStr (str ''Bob''), demo_ack)]" demo_crypto
        "[(PStr (str ''localhost''), PInt 8001, demo_signed_frame)]" MalformedMessage 5 "[]"] d
    by auto
qed

end
