(* ===== verification/Dense_Session.thy ===== *)
theory Dense_Session
  imports Chat
begin

text \<open>
  A superdense message between two clients: the sender's call, the receiver's handler for the
  first message, and the receiver's history.
\<close>

section \<open>The session inside the clients\<close>

definition dense_start :: "pystr \<Rightarrow> message" where
  "dense_start own = \<lparr>msg_class = PTCL, msg_sender = own, msg_data = PDict [(str ''name'', PStr (str ''SUPERDENSE''))]\<rparr>"

definition dense_mail :: "pystr \<Rightarrow> bytes \<Rightarrow> message" where
  "dense_mail sender data = \<lparr>msg_class = SPDS, msg_sender = sender, msg_data = PDict [(str ''plaintext'', PBytes data)]\<rparr>"

text \<open>The two programs, each seen from its own client.\<close>

lemma dense_programs:
  assumes "paired L F" "kind L = SUPERDENSE" "latin1_encode plain = Inr data"
  shows "\<exists>to_a to_b.
    drives (bind_proc (start_protocol L) (\<lambda>_. bind_proc (of_res (latin1_encode plain)) (send_dense L)))
      (message_tape pair_send_tape data) to_a () (dense_start (me L) # to_b)
    \<and> drives (bind_proc (start_protocol F) (\<lambda>_. receive_dense F)) (message_tape pair_receive_tape data) to_b data to_a"
proof -
  let ?t = "message_tape pair_send_tape data" and ?u = "message_tape pair_receive_tape data"
  let ?f = "\<lambda>_ :: unit. bind_proc (of_res (latin1_encode plain)) (send_dense L)"
  have "runs (?f ()) (receive_dense F) ?t ?u (Ret ()) (Ret data)"
    using dense_together [OF assms(1), of data] assms(3) by simp
  from handshake [OF assms(1), of ?f "\<lambda>_. receive_dense F", OF this] obtain p where
    p: "bind_proc (start_protocol L) ?f = Put (dense_start (me L)) p"
    and run: "runs p (bind_proc (start_protocol F) (\<lambda>_. receive_dense F)) ?t ?u (Ret ()) (Ret data)"
    using assms(2) by (auto simp: msg_def dense_start_def first_message_def)
  from runs_drives [OF run] obtain ms ns where
    d: "drives p ?t ms () ns" "drives (bind_proc (start_protocol F) (\<lambda>_. receive_dense F)) ?u ns data ms" by blast
  have "drives (bind_proc (start_protocol L) ?f) ?t ms () (dense_start (me L) # ns)"
    using d(1) unfolding p by (simp add: drives_def)
  with d(2) show ?thesis by blast
qed

lemma dense_leads:
  assumes "reaches a A B" "make_party SUPERDENSE A (PStr B) Leader (root_config a) PNone = Inr L"
    and "drives (bind_proc (start_protocol L) (\<lambda>_. bind_proc (of_res (latin1_encode plain)) (send_dense L)))
      (tape_of w) (arrivals w) () ns"
  shows "sendSuperDenseMessage C w (PStr B) plain a = (Inr (), sent_by a (PStr B) ns)"
proof -
  from assms(1) obtain v where v: "getConnectionInfo (userDB a) (PStr B) = Inr v" by (auto simp: reaches_def)
  have known: "hasUser (userDB a) (PStr B)" using getConnectionInfo_known [OF v] by (auto simp: hasUser_def)
  have "run_with_peer SUPERDENSE Leader (PStr B) PNone w (\<lambda>P. bind_proc (start_protocol P) (\<lambda>_.
      bind_proc (of_res (latin1_encode plain)) (send_dense P))) a = (Inr (), sent_by a (PStr B) ns)"
    using assms(3) by (intro run_with_reachable [OF assms(1) _ assms(2)])
  with known show ?thesis by (simp add: sendSuperDenseMessage_def has_user_PStr step_simps)
qed

lemma dense_follows:
  assumes "reaches b B A" "length A \<le> 16" "make_party SUPERDENSE B (PStr A) Follower (root_config b) PNone = Inr F"
    and "drives (bind_proc (start_protocol F) (\<lambda>_. receive_dense F)) (tape_of w) (arrivals w) data ns"
  shows "follow_request w (dense_start A) b =
    (Inr (), (sent_by b (PStr A) ns)\<lparr>mailbox := storeMessage (dense_mail A data) (mailbox b)\<rparr>)"
proof -
  have run: "run_with_peer SUPERDENSE Follower (PStr A) PNone w (\<lambda>P. bind_proc (start_protocol P) (\<lambda>_. receive_dense P)) b
      = (Inr data, sent_by b (PStr A) ns)"
    using assms(4) by (intro run_with_reachable [OF assms(1) _ assms(3)])
  from assms(1) obtain d where d: "getConnectionInfo (userDB b) (PStr A) = Inr (PDict d)"
    "peer_user (PStr A) (PDict d) = Inr (PStr A)" by (auto simp: reaches_def peer_user_plain)
  have pop: "pop_key (msg_data (dense_start A)) ''name'' = Inr (PStr (str ''SUPERDENSE''), PDict [])"
    by (simp add: dense_start_def pop_key_def dpop_def)
  have create: "createProtocol (PStr (str ''SUPERDENSE'')) = Inr (Some SUPERDENSE)"
    by (simp add: createProtocol_def protocol_mapping_def str_def)
  have mail: "mk_message SPDS A (PDict [(str ''plaintext'', PBytes data)]) = Inr (dense_mail A data)"
    using assms(2) by (simp add: mk_message_def unpack_message_data_def dense_mail_def)
  have "mailbox (sent_by b (PStr A) ns) = mailbox b" by (simp add: sent_by_def)
  with run d pop create mail show ?thesis
    by (simp add: follow_request_def dense_start_def core_getConnectionInfo_def step_simps call_kwargs_def dkeys_def
        store_in_mailbox_def)
qed

lemma read_dense: "read_mail C db (dense_mail n data) = Inr (PBytes data)"
  by (simp add: read_mail_def dense_mail_def getitem_def dget_def)

lemma dense_history:
  "mailbox s = storeMessage (dense_mail n data) mailbox_init \<Longrightarrow>
    getMessageHistory C s = (Inr [(n, [PBytes data])], s\<lparr>mailbox := mailbox_init\<rparr>)"
  by (simp add: getMessageHistory_def storeMessage_def popMessages_def mailbox_init_def add_history_def
      dset_def read_dense) (simp add: dense_mail_def)

text \<open>The client to which a superdense message came.\<close>

definition got_dense :: "client \<Rightarrow> pystr \<Rightarrow> message list \<Rightarrow> bytes \<Rightarrow> client" where
  "got_dense b A ns data = (sent_by b (PStr A) ns)\<lparr>mailbox := storeMessage (dense_mail A data) (mailbox b)\<rparr>"

lemma dense_shared:
  assumes "reaches a A B" "reaches b B A" "length A \<le> 16" "length B \<le> 16" "latin1_encode plain = Inr data"
  shows "\<exists>to_a to_b. \<forall>ts n fuel ts' n' fuel'.
    sendSuperDenseMessage C \<lparr>turns = ts, arrivals = to_a, tape_of = message_tape pair_send_tape data,
      nonce_of = n, fuel_of = fuel\<rparr> (PStr B) plain a = (Inr (), sent_by a (PStr B) (dense_start A # to_b))
    \<and> follow_request \<lparr>turns = ts', arrivals = to_b, tape_of = message_tape pair_receive_tape data,
      nonce_of = n', fuel_of = fuel'\<rparr> (dense_start A) b = (Inr (), got_dense b A to_a data)"
proof -
  obtain h p where L: "make_party SUPERDENSE A (PStr B) Leader (root_config a) PNone = Inr
    \<lparr>kind = SUPERDENSE, me = A, peer = PStr B, role_of = Leader, relay_host = h, relay_port = p, key_size = PNone\<rparr>"
    (is "_ = Inr ?L") using reaches_party [OF assms(1)] .
  obtain h' p' where F: "make_party SUPERDENSE B (PStr A) Follower (root_config b) PNone = Inr
    \<lparr>kind = SUPERDENSE, me = B, peer = PStr A, role_of = Follower, relay_host = h', relay_port = p', key_size = PNone\<rparr>"
    (is "_ = Inr ?F") using reaches_party [OF assms(2)] .
  have pair: "paired ?L ?F" using assms(3,4) by (simp add: paired_def)
  from dense_programs [OF pair _ assms(5)] obtain to_a to_b where
    d: "drives (bind_proc (start_protocol ?L) (\<lambda>_. bind_proc (of_res (latin1_encode plain)) (send_dense ?L)))
      (message_tape pair_send_tape data) to_a () (dense_start A # to_b)"
    "drives (bind_proc (start_protocol ?F) (\<lambda>_. receive_dense ?F)) (message_tape pair_receive_tape data) to_b data to_a"
    by auto
  show ?thesis
    using d by (intro exI [of _ to_a] exI [of _ to_b] allI conjI dense_leads [OF assms(1) L]
      dense_follows [OF assms(2,3) F, folded got_dense_def]) simp_all
qed



end
