(* ===== verification/Client_Run.thy ===== *)
theory Client_Run
  imports Chat Core_Run
begin

text \<open>
  The client as a state machine: its constructor, the frames that arrive, the messages that its
  threads take and handle, and the calls that a user makes, in any order. The locale extends
  that of the core by the client's own updates and operations.
\<close>

section \<open>Invariants of the client's operations\<close>

text \<open>\<open>ok\<close>: what may be assumed of a message that is stored for its reader.\<close>

locale client_steps = core_steps P for P :: "client \<Rightarrow> bool" +
  fixes ok :: "message \<Rightarrow> bool"
  assumes P_change: "P s \<Longrightarrow> P (s\<lparr>userDB := changeUserInfo k kw (userDB s)\<rparr>)"
    and P_outbound: "P s \<Longrightarrow> P (s\<lparr>outbound_queue := mails\<rparr>)"
    and P_wait: "P s \<Longrightarrow> control_message_queue s u = m # q \<Longrightarrow>
      P (s\<lparr>control_message_queue := (control_message_queue s)(u := q)\<rparr>)"
    and P_received: "P s \<Longrightarrow> msg_class m = SPDS \<Longrightarrow> P (s\<lparr>mailbox := storeMessage m (mailbox s)\<rparr>)"
    and P_read: "P s \<Longrightarrow> P (s\<lparr>mailbox := snd (popMessages (mailbox s))\<rparr>)"
    and P_mail: "P s \<Longrightarrow> msg_class m = QCHT \<Longrightarrow> ok m \<Longrightarrow> P (s\<lparr>mailbox := storeMessage m (mailbox s)\<rparr>)"
    and P_control: "P s \<Longrightarrow> msg_class m \<notin> {QCHT, GETU, PUTU, PTCL} \<Longrightarrow> ok m \<Longrightarrow>
      P (s\<lparr>control_message_queue := (control_message_queue s)
        (msg_sender m := control_message_queue s (msg_sender m) @ [m])\<rparr>)"
begin

lemma keeps_drive [keeps_rules]: "keeps P (drive p t ms u to)"
proof (rule keepsI)
  fix s
  show "P s \<Longrightarrow> P (snd (drive p t ms u to s))"
  proof (induction p arbitrary: t ms s)
    case (Get k)
    have "P (s\<lparr>control_message_queue := (control_message_queue s)(u := q)\<rparr>)" if "control_message_queue s u = m # q" for m q
      using P_wait [OF Get.prems that] .
    then show ?case using Get by (auto split: list.split)
  qed (auto intro: P_outbound split: list.split answer.split)
qed

lemma keeps_run [keeps_rules]: "keeps P (run_with_peer k r user ks w program)"
  unfolding run_with_peer_def by (intro keeps_rules)

lemma keeps_change [keeps_rules]: "keeps P (change_info user kw)"
  unfolding change_info_def by (intro keeps_rules keeps_modifies P_change)

lemma keeps_establish [keeps_rules]: "keeps P (establish_key w k user ks)"
  unfolding establish_key_def by (intro keeps_rules)

lemma keeps_key [keeps_rules]: "keeps P (core_getMessageKey user)"
  by (simp add: keeps_def core_getMessageKey_def)

lemma keeps_create [keeps_rules]: "keeps P (createQChatMessage C w user plaintext)"
  unfolding createQChatMessage_def by (intro keeps_rules) (auto split: prod.split intro!: keeps_rules)

lemma keeps_chat: "list_all P (turns w) \<Longrightarrow> keeps P (sendQChatMessage C w user plaintext)"
  unfolding sendQChatMessage_def by (intro keeps_rules keeps_request keeps_sendMessage)

lemma keeps_dense: "list_all P (turns w) \<Longrightarrow> keeps P (sendSuperDenseMessage C w user plaintext)"
  unfolding sendSuperDenseMessage_def by (intro keeps_rules keeps_request)

lemma keeps_received: "msg_class m = SPDS \<Longrightarrow> keeps P (store_in_mailbox m)"
  unfolding store_in_mailbox_def by (intro keeps_modifies P_received)

lemma keeps_follow [keeps_rules]: "keeps P (follow_request w m)"
proof -
  have store: "keeps P (andThen (lift (mk_message SPDS n d)) store_in_mailbox)" for n d
    by (auto simp: keeps_def andThen_lift mk_message_Inr intro!: keepsD [OF keeps_received] split: sum.split)
  show ?thesis
    unfolding follow_request_def
    by (intro keeps_rules) (auto split: prod.split option.split protocol.split intro!: keeps_rules store)
qed

lemma keeps_dispatch: "ok m \<Longrightarrow> keeps P (dispatch (client_handlers C w) m)"
  unfolding dispatch_def client_handlers_def
  by (cases "msg_class m")
    (auto simp: store_in_mailbox_def store_control_message_def intro!: keeps_rules keeps_modifies P_mail P_control)

lemma keeps_history: "keeps P (getMessageHistory C)"
  by (simp add: keeps_def getMessageHistory_def P_read)

lemma keeps_outbound: "list_all P ts \<Longrightarrow> keeps P (send_outbound_messages C ts n)"
proof (rule keepsI)
  fix s
  show "list_all P ts \<Longrightarrow> P s \<Longrightarrow> P (snd (send_outbound_messages C ts n s))"
  proof (induction n arbitrary: s)
    case (Suc n)
    then have "P (snd (sendMessage C ts user m (s\<lparr>outbound_queue := q\<rparr>)))" for user m q
      by (intro keepsD [OF keeps_sendMessage] P_outbound)
    with Suc show ?case
      by (auto split: option.split prod.split sum.split) (metis snd_conv)+
  qed simp
qed

end

section \<open>The steps of a client\<close>

text \<open>
  A handler thread may run at any time after its message was taken from the connection. A call
  runs to its end before the next one, except where it waits for a lookup: there it goes on in a
  state that the other threads have reached.
\<close>

inductive client_reaches ::
  "crypto \<Rightarrow> dict \<Rightarrow> pystr \<Rightarrow> bytes \<Rightarrow> bool \<Rightarrow> (pyval \<Rightarrow> pyval \<Rightarrow> pyexn option) \<Rightarrow> client \<Rightarrow> bool"
  for C base name key allow route
where
  made: "client_init C base name key allow route = Inr s \<Longrightarrow> client_reaches C base name key allow route s"
| arrives: "client_reaches C base name key allow route s \<Longrightarrow>
    client_reaches C base name key allow route (s\<lparr>conn := snd (handle_connection st (conn s))\<rparr>)"
| takes: "client_reaches C base name key allow route s \<Longrightarrow>
    client_reaches C base name key allow route (snd (read_from_connection s))"
| handles: "client_reaches C base name key allow route s \<Longrightarrow>
    client_reaches C base name key allow route t \<Longrightarrow> read_from_connection t = (Inr (Some m), t') \<Longrightarrow>
    list_all (client_reaches C base name key allow route) (turns w) \<Longrightarrow>
    client_reaches C base name key allow route (snd (process_message C (client_handlers C w) (turns w) m s))"
| chats: "client_reaches C base name key allow route s \<Longrightarrow>
    list_all (client_reaches C base name key allow route) (turns w) \<Longrightarrow>
    client_reaches C base name key allow route (snd (sendQChatMessage C w user text s))"
| sends_dense: "client_reaches C base name key allow route s \<Longrightarrow>
    list_all (client_reaches C base name key allow route) (turns w) \<Longrightarrow>
    client_reaches C base name key allow route (snd (sendSuperDenseMessage C w user text s))"
| looks_up: "client_reaches C base name key allow route s \<Longrightarrow>
    list_all (client_reaches C base name key allow route) ts \<Longrightarrow>
    client_reaches C base name key allow route (snd (requestUserInfo C ts user s))"
| reads: "client_reaches C base name key allow route s \<Longrightarrow>
    client_reaches C base name key allow route (snd (getMessageHistory C s))"
| sends_out: "client_reaches C base name key allow route s \<Longrightarrow>
    list_all (client_reaches C base name key allow route) ts \<Longrightarrow>
    client_reaches C base name key allow route (snd (send_outbound_messages C ts n s))"

text \<open>A new client: what its parts hold.\<close>

lemma client_init_state:
  assumes "client_init C base name key allow route = Inr s"
  shows "message_queue (conn s) = [] \<and> allow_invalid s = allow \<and> mailbox s = mailbox_init
    \<and> control_message_queue s = (\<lambda>_. [])
    \<and> (\<exists>cn. userDB s = addUser (PStr name) ((str ''pub'', PBytes (get_pub C key)) # get_connection_info cn) [])"
proof -
  from assms obtain c where "core_init C base name key allow route = Inr c"
    and "s = core.extend c \<lparr>mailbox = mailbox_init, outbound_queue = []\<rparr>"
    by (auto simp: client_init_def bindE_eq_Inr)
  then show ?thesis using core_init_state [of C base name key allow route c] by (simp add: core.defs)
qed

section \<open>What holds in every state\<close>

text \<open>
  The database lists no user and no field twice, the queue holds messages that passed the
  connection's checks, the mailbox holds chat and dense messages only, and a control queue holds
  messages of the peer it is named after, of the classes that have no handler.
\<close>

definition client_ok :: "client \<Rightarrow> bool" where
  "client_ok s \<longleftrightarrow> db_ok (userDB s) \<and> queue_ok (conn s)
     \<and> (\<forall>m \<in> set (mb_messages (mailbox s)). msg_class m \<in> {QCHT, SPDS})
     \<and> (\<forall>u. \<forall>m \<in> set (control_message_queue s u). msg_sender m = u \<and> msg_class m \<notin> {QCHT, GETU, PUTU, PTCL})"

interpretation checked: client_steps client_ok "\<lambda>_. True"
proof unfold_locales
  fix s u m q
  assume "client_ok s" "control_message_queue s u = m # q"
  then have "set q \<subseteq> set (control_message_queue s u)" by auto
  with \<open>client_ok s\<close> show "client_ok (s\<lparr>control_message_queue := (control_message_queue s)(u := q)\<rparr>)"
    by (auto simp: client_ok_def)
qed (auto simp: client_ok_def queue_ok_def db_ok_addUser db_ok_changeUserInfo storeMessage_def popMessages_def)


section \<open>Where stored messages come from\<close>

text \<open>
  A message that was taken from the connection in some state, with a signature that verified in
  some state under the key that the database held for its sender then.
\<close>

definition accepted ::
  "crypto \<Rightarrow> dict \<Rightarrow> pystr \<Rightarrow> bytes \<Rightarrow> (pyval \<Rightarrow> pyval \<Rightarrow> pyexn option) \<Rightarrow> message \<Rightarrow> bool" where
  "accepted C base name key route m \<longleftrightarrow> (\<exists>m1 t t' v.
     client_reaches C base name key False route t \<and> read_from_connection t = (Inr (Some m1), t') \<and>
     client_reaches C base name key False route v \<and> authentic C (userDB v) m1 \<and> m = stripped m1)"

definition vouched :: "(message \<Rightarrow> bool) \<Rightarrow> client \<Rightarrow> bool" where
  "vouched A s \<longleftrightarrow> \<not> allow_invalid s
     \<and> (\<forall>m \<in> set (mb_messages (mailbox s)). msg_class m = QCHT \<longrightarrow> A m)
     \<and> (\<forall>u. \<forall>m \<in> set (control_message_queue s u). msg_verify (msg_class m) \<longrightarrow> A m)"

interpretation vouching: client_steps "vouched A" "\<lambda>m. msg_verify (msg_class m) \<longrightarrow> A m" for A
proof unfold_locales
  fix s u m q
  assume "vouched A s" "control_message_queue s u = m # q"
  then have "set q \<subseteq> set (control_message_queue s u)" by auto
  with \<open>vouched A s\<close> show "vouched A (s\<lparr>control_message_queue := (control_message_queue s)(u := q)\<rparr>)"
    by (auto simp: vouched_def)
qed (auto simp: vouched_def storeMessage_def popMessages_def msg_verify_def)

lemma stripped_class [simp]: "msg_class (stripped m) = msg_class m"
  by (auto simp: stripped_def strip_signature_def bindE_def split: sum.split prod.split)

lemma sender_known_reaches:
  assumes "client_reaches C base name key allow route s" "list_all (client_reaches C base name key allow route) ts"
  shows "client_reaches C base name key allow route (snd (know_sender C ts m s))"
  using assms by (auto simp: know_sender_def has_user_PStr step_simps intro: client_reaches.looks_up)

lemma client_vouched:
  assumes "client_reaches C base name key False route s"
  shows "vouched (accepted C base name key route) s"
  using assms
proof (induction rule: client_reaches.induct)
  case (made s)
  from client_init_state [OF this] show ?case by (simp add: vouched_def mailbox_init_def)
next
  case (arrives s st)
  then show ?case by (simp add: vouched_def)
next
  case (takes s)
  then show ?case using read_state [of s] by (auto simp: vouched_def)
next
  case (handles s t m t' w)
  have ts: "list_all (client_reaches C base name key False route) (turns w)"
    "list_all (vouched (accepted C base name key route)) (turns w)"
    using handles.IH handles.hyps by (simp_all add: list_all_iff)
  let ?v = "snd (know_sender C (turns w) m s)"
  have v: "client_reaches C base name key False route ?v" using sender_known_reaches [OF handles.hyps(1) ts(1)] .
  have "\<not> allow_invalid ?v"
    using keepsD [OF vouching.keeps_know_sender [OF ts(2)] handles.IH(1)] by (simp add: vouched_def)
  then have "accepted C base name key route (stripped m)" if "allow_invalid ?v \<or> authentic C (userDB ?v) m"
    using that handles.hyps v unfolding accepted_def by blast
  then show ?case by (intro vouching.process_keeps vouching.keeps_dispatch handles.IH(1) ts(2)) auto
next
  case (chats s w user plain)
  then show ?case by (intro keepsD [OF vouching.keeps_chat]) (auto dest: list_all_both)
next
  case (sends_dense s w user plain)
  then show ?case by (intro keepsD [OF vouching.keeps_dense]) (auto dest: list_all_both)
next
  case (looks_up s ts user)
  then show ?case by (intro keepsD [OF vouching.keeps_request]) (auto dest: list_all_both)
next
  case (reads s)
  then show ?case by (intro keepsD [OF vouching.keeps_history])
next
  case (sends_out s ts n)
  then show ?case by (intro keepsD [OF vouching.keeps_outbound]) (auto dest: list_all_both)
qed


section \<open>Instances\<close>

definition demo_config :: dict where
  "demo_config = [(str ''Alice'', PDict [(str ''root'', PStr (str ''Root'')), (str ''host'', PStr (str ''localhost'')),
     (str ''port'', PInt 8000)])]"

abbreviation demo_reach :: "client \<Rightarrow> bool" where
  "demo_reach \<equiv> client_reaches demo_crypto demo_config (str ''Alice'') (lit ''k'') False (\<lambda>_ _. None)"

lemma demo_init: "\<exists>s. client_init demo_crypto demo_config (str ''Alice'') (lit ''k'') False (\<lambda>_ _. None) = Inr s"
  by (simp add: client_init_def core_init_def load_server_config_def demo_config_def getitem_def dget_def Let_def
      dict_get_def str_def)

lemma demo_made:
  obtains s where "demo_reach s" "message_queue (conn s) = []" "control_message_queue s = (\<lambda>_. [])"
    "getPublicKey (userDB s) (PStr (str ''Alice'')) = Inr (PBytes (lit ''k''))"
proof -
  from demo_init obtain s where s: "client_init demo_crypto demo_config (str ''Alice'') (lit ''k'') False (\<lambda>_ _. None) = Inr s" ..
  note made = client_reaches.made [OF s]
  have "getPublicKey (userDB s) (PStr (str ''Alice'')) = Inr (PBytes (lit ''k''))"
    using client_init_state [OF s]
    by (auto simp: getPublicKey_def get_field_def addUser_def get_user_def dict_get_def get_connection_info_def
        dupdate_def dset_def get_pub_def demo_crypto_def)
  with client_init_state [OF s] made show ?thesis by (intro that) simp_all
qed


text \<open>The client Alice, who knows her own key, takes a control message that she signed.\<close>

definition demo_quiet :: world where
  "demo_quiet = \<lparr>turns = [], arrivals = [], tape_of = [], nonce_of = [], fuel_of = 0\<rparr>"

lemma demo_signed_by: "with_sig demo_crypto (lit ''k'') demo_ack_frame demo_ack = demo_signed"
  using demo_signing [of "''Alice''" "[]"] sign_message_dict [OF demo_ack_facts(3) demo_ack_sendable(2), of demo_crypto "demo_core ''Alice'' []"]
  by (simp add: demo_core_def)


end
