(* ===== verification/Rpc.thy ===== *)
theory Rpc
  imports Chat
begin

text \<open>
  \<^verbatim>\<open>qchat/rpc.py\<close>: the server, whose remote calls are passed on to a client (the clients are a
  class attribute, one dictionary for all servers of the process), and the command line client.
  The XML-RPC library between them is not part of the repository: a call that raises in the
  server raises a fault in the caller, and what a history looks like to the caller is an argument.
\<close>

section \<open>The server\<close>

type_synonym rpc_clients = "(pystr \<times> client) list"

text \<open>
  \<open>QChatClient(user)\<close> lacks the constructor's second argument: a user without a client makes
  the call raise.
\<close>

definition ensure_client_for :: "pystr \<Rightarrow> (rpc_clients, unit) step" where
  "ensure_client_for user cs = (case map_of cs user of None \<Rightarrow> (Inl TypeError, cs) | Some _ \<Rightarrow> (Inr (), cs))"

definition rpc_init :: "pystr \<Rightarrow> client \<Rightarrow> (rpc_clients, unit) step" where
  "rpc_init user c = andThen (modifies (dset user c)) (\<lambda>_. ensure_client_for user)"

text \<open>A call of a method of \<open>self.clients[user]\<close>, which keeps the client's new state.\<close>

definition on_client :: "pystr \<Rightarrow> (client, 'a) step \<Rightarrow> (rpc_clients, 'a) step" where
  "on_client user f cs = (case map_of cs user of
     None \<Rightarrow> (Inl KeyError, cs)
   | Some c \<Rightarrow> (fst (f c), dset user (snd (f c)) cs))"

text \<open>\<open>try: ... except Exception: v\<close>\<close>

definition or_else :: "'a \<Rightarrow> ('s, 'a) step \<Rightarrow> ('s, 'a) step" where
  "or_else v m s = (case m s of (Inl _, t) \<Rightarrow> (Inr v, t) | (Inr x, t) \<Rightarrow> (Inr x, t))"

definition rpc_send_message :: "crypto \<Rightarrow> world \<Rightarrow> pystr \<Rightarrow> pystr \<Rightarrow> pystr \<Rightarrow> (rpc_clients, bool) step" where
  "rpc_send_message C w user destination message =
     andThen (ensure_client_for user) (\<lambda>_.
     or_else False (andThen (on_client user (sendQChatMessage C w (PStr destination) message)) (\<lambda>_. ret True)))"

definition rpc_get_messages :: "crypto \<Rightarrow> pystr \<Rightarrow> (rpc_clients, history) step" where
  "rpc_get_messages C user =
     andThen (ensure_client_for user) (\<lambda>_. or_else [] (on_client user (getMessageHistory C)))"

section \<open>The command line client\<close>

text \<open>\<open>cli_screen\<close> is the text that was printed.\<close>

record cli =
  cli_user :: pystr
  cli_destination :: pystr
  cli_running :: bool
  cli_screen :: pystr

definition cli_init :: "pystr \<Rightarrow> pystr \<Rightarrow> cli" where
  "cli_init user destination = \<lparr>cli_user = user, cli_destination = destination, cli_running = False, cli_screen = []\<rparr>"

type_synonym 'a cli_op = "(cli \<times> rpc_clients, 'a) step"

definition remote :: "(rpc_clients, 'a) step \<Rightarrow> 'a cli_op" where
  "remote f = (\<lambda>(u, cs). case f cs of
     (Inl e, cs') \<Rightarrow> (Inl (PyException ''Fault''), (u, cs'))
   | (Inr x, cs') \<Rightarrow> (Inr x, (u, cs')))"

definition print_text :: "pystr \<Rightarrow> unit cli_op" where
  "print_text s = modifies (\<lambda>(u, cs). (u\<lparr>cli_screen := cli_screen u @ s\<rparr>, cs))"

definition cli_prompt :: "unit cli_op" where
  "cli_prompt = andThen (gets fst) (\<lambda>u. print_text ([10] @ str ''[ '' @ cli_user u @ str '' ]: ''))"

text \<open>A line of input, with what \<open>time.time()\<close> prints as. Both calls run under the client's lock.\<close>

definition cli_say :: "crypto \<Rightarrow> world \<Rightarrow> pystr \<Rightarrow> pystr \<Rightarrow> unit cli_op" where
  "cli_say C w input_text now =
     andThen cli_prompt (\<lambda>_.
     andThen (gets fst) (\<lambda>u.
     andThen (remote (rpc_send_message C w (cli_user u) (cli_destination u) (input_text @ str '' @ '' @ now))) (\<lambda>_.
     ret ())))"

text \<open>
  The loop ends with the exception \<open>e\<close> at a prompt (the end of the input, or the keyboard's
  interrupt), or with a fault of the call.
\<close>

fun cli_inputs :: "crypto \<Rightarrow> pyexn \<Rightarrow> (pystr \<times> pystr \<times> world) list \<Rightarrow> unit cli_op" where
  "cli_inputs C e [] = andThen cli_prompt (\<lambda>_. throw e)"
| "cli_inputs C e ((input_text, now, w) # inputs) = andThen (cli_say C w input_text now) (\<lambda>_. cli_inputs C e inputs)"

definition cli_start :: "crypto \<Rightarrow> pyexn \<Rightarrow> (pystr \<times> pystr \<times> world) list \<Rightarrow> unit cli_op" where
  "cli_start C e inputs =
     andThen (gets fst) (\<lambda>u.
     andThen (print_text (str ''Hello, this is '' @ cli_user u @ [10])) (\<lambda>_.
     andThen (modifies (\<lambda>(u, cs). (u\<lparr>cli_running := True\<rparr>, cs))) (\<lambda>_.
     cli_inputs C e inputs)))"

definition cli_stop :: "unit cli_op" where
  "cli_stop = modifies (\<lambda>(u, cs). (u\<lparr>cli_running := False\<rparr>, cs))"

text \<open>
  What arrives of a returned history: for each sender the texts that the received values are
  printed as. (Bytes arrive as the library's \<open>Binary\<close>, which prints as their Latin-1 text.)
\<close>

type_synonym transport = "history \<Rightarrow> (pystr \<times> pystr list) list res"

definition message_line :: "pystr \<Rightarrow> pystr \<Rightarrow> pystr" where
  "message_line sender m = str ''[ '' @ sender @ str '' ]: '' @ m @ [10, 10]"

definition print_messages :: "(pystr \<times> pystr list) list \<Rightarrow> unit cli_op" where
  "print_messages ms = andThen (gets fst) (\<lambda>u. print_text (
     [10, 10] @ concat (map (\<lambda>(sender, texts). concat (map (message_line sender) texts)) ms)
     @ str ''[ '' @ cli_user u @ str '' ]: ''))"

text \<open>A turn of the reading thread; its exceptions are logged.\<close>

definition cli_poll :: "crypto \<Rightarrow> transport \<Rightarrow> unit cli_op" where
  "cli_poll C net = swallow (
     andThen (gets fst) (\<lambda>u.
     andThen (remote (rpc_get_messages C (cli_user u))) (\<lambda>h.
     andThen (lift (net h)) (\<lambda>user_messages.
     if user_messages \<noteq> [] then print_messages user_messages else ret ()))))"

text \<open>At most \<open>n\<close> turns: the loop runs until the client is stopped.\<close>

fun cli_read_messages :: "crypto \<Rightarrow> transport \<Rightarrow> nat \<Rightarrow> unit cli_op" where
  "cli_read_messages C net 0 s = (Inr (), s)"
| "cli_read_messages C net (Suc n) s =
     (if cli_running (fst s) then cli_read_messages C net n (snd (cli_poll C net s)) else (Inr (), s))"

definition binary_text :: "transport \<Rightarrow> bool" where
  "binary_text net \<longleftrightarrow> (\<forall>sender b. net [(sender, [PBytes b])] = Inr [(sender, [latin1_decode b])])"

section \<open>What a remote caller sees\<close>

text \<open>
  Sending by remote call: for a user with a client the call never raises; it answers
  \<open>True\<close> exactly when the client's own call returned, and changes that client only. For any other
  user it raises, because the client it means to make is not given its quantum connection.
\<close>

theorem rpc_send_reports:
  "rpc_send_message C w user destination message cs =
    (case map_of cs user of
       None \<Rightarrow> (Inl TypeError, cs)
     | Some c \<Rightarrow> (Inr (fst (sendQChatMessage C w (PStr destination) message c) = Inr ()),
         dset user (snd (sendQChatMessage C w (PStr destination) message c)) cs))"
proof (cases "map_of cs user")
  case None
  then show ?thesis by (simp add: rpc_send_message_def ensure_client_for_def step_simps)
next
  case (Some c)
  then show ?thesis
    by (cases "sendQChatMessage C w (PStr destination) message c";
        cases "fst (sendQChatMessage C w (PStr destination) message c)")
      (simp_all add: rpc_send_message_def ensure_client_for_def on_client_def or_else_def step_simps)
qed

text \<open>
  Fetching by remote call hides a loss: when one message of the client's mailbox cannot be
  read, the caller is told that there are no messages, and the mailbox has been emptied.
\<close>

theorem rpc_fetch_loses:
  assumes "map_of cs user = Some c" "m \<in> set (mb_messages (mailbox c))" "read_mail C (userDB c) m = Inl e"
  shows "rpc_get_messages C user cs = (Inr [], dset user (c\<lparr>mailbox := mailbox_init\<rparr>) cs)"
proof -
  from unreadable_history [OF assms(2,3)] obtain e' where
    "getMessageHistory C c = (Inl e', c\<lparr>mailbox := mailbox_init\<rparr>)" ..
  then show ?thesis
    using assms(1) by (simp add: rpc_get_messages_def ensure_client_for_def on_client_def or_else_def step_simps)
qed

text \<open>Saying a line and polling, when the calls behind them return.\<close>

definition showing :: "cli \<Rightarrow> pystr \<Rightarrow> cli" where
  "showing u s = u\<lparr>cli_screen := cli_screen u @ s\<rparr>"

lemma showing_simps [simp]:
  "cli_user (showing u s) = cli_user u"
  "cli_destination (showing u s) = cli_destination u"
  by (simp_all add: showing_def)

lemma latin1_decode_encode: "latin1_encode s = Inr b \<Longrightarrow> latin1_decode b = s"
proof -
  assume "latin1_encode s = Inr b"
  then have "\<forall>c \<in> set s. c < 256" "b = map of_nat s"
    by (auto simp: latin1_encode_def list_all_iff split: if_splits)
  then show ?thesis
    by (auto simp: latin1_decode_def o_def unat_of_nat intro!: map_idI)
qed

lemma cli_say_sent:
  assumes "map_of cs (cli_user u) = Some a"
    and "sendQChatMessage C w (PStr (cli_destination u)) (input_text @ str '' @ '' @ now) a = (Inr (), a')"
  shows "cli_say C w input_text now (u, cs)
    = (Inr (), (showing u ([10] @ str ''[ '' @ cli_user u @ str '' ]: ''), dset (cli_user u) a' cs))"
  using assms
  by (simp add: cli_say_def cli_prompt_def print_text_def remote_def rpc_send_message_def ensure_client_for_def on_client_def
      or_else_def step_simps showing_def)

lemma cli_poll_shown:
  assumes "map_of cs (cli_user v) = Some b" "getMessageHistory C b = (Inr [(sender, [PBytes data])], b')" "binary_text net"
  shows "cli_poll C net (v, cs) = (Inr (), (showing v ([10, 10] @ message_line sender (latin1_decode data)
      @ str ''[ '' @ cli_user v @ str '' ]: ''), dset (cli_user v) b' cs))"
  using assms
  by (simp add: cli_poll_def swallow_def remote_def rpc_get_messages_def ensure_client_for_def on_client_def
      or_else_def step_simps binary_text_def print_messages_def print_text_def showing_def)


section \<open>Instances\<close>

definition demo_transport :: transport where
  "demo_transport h = Inr (map (\<lambda>(u, vs). (u, map (\<lambda>v. case v of PBytes b \<Rightarrow> latin1_decode b | _ \<Rightarrow> []) vs)) h)"



theorem rpc_fetch_loses_witness:
  "rpc_get_messages demo_crypto (str ''Bob'') [(str ''Bob'', (demo_client ''Bob'' demo_record ''Alice'')
      \<lparr>mailbox := \<lparr>mb_messages = [demo_dense, demo_stray]\<rparr>\<rparr>)]
    = (Inr [], [(str ''Bob'', demo_client ''Bob'' demo_record ''Alice'')])"
proof -
  let ?b = "demo_client ''Bob'' demo_record ''Alice''"
  let ?c = "?b\<lparr>mailbox := \<lparr>mb_messages = [demo_dense, demo_stray]\<rparr>\<rparr>"
  have b: "?c\<lparr>mailbox := mailbox_init\<rparr> = ?b" by (simp add: demo_client_def)
  have "read_mail demo_crypto (userDB ?c) demo_stray = Inl DBException" by (simp add: demo_stray_unread)
  then show ?thesis
    using rpc_fetch_loses [of "[(str ''Bob'', ?c)]" "str ''Bob''" ?c demo_stray demo_crypto DBException]
    by (simp add: b dset_def)
qed

end
