(* ===== verification/First_Chat.thy ===== *)
theory First_Chat
  imports Chat
begin

text \<open>
  The first chat message between two clients: there is no message key yet, so the sender's call
  establishes one with the receiver before it encrypts.
\<close>

section \<open>What a key establishment leaves\<close>

lemma sent_by_fields [simp]:
  "conn (sent_by s to ns) = conn s" "core_name (sent_by s to ns) = core_name s" "signer_key (sent_by s to ns) = signer_key s"
  "mailbox (sent_by s to ns) = mailbox s" "outbound_queue (sent_by s to ns) = outbound_queue s @ map (Pair to) ns"
  by (simp_all add: sent_by_def)

lemma getMessageKey_known: "getMessageKey db u = Inr v \<Longrightarrow> hasUser db u"
  by (auto simp: getMessageKey_def get_field_def hasUser_def split: option.splits)

text \<open>A call that finds no key goes on as a call with the key that it establishes.\<close>

lemma chat_after_key:
  assumes "getMessageKey (userDB a) (PStr u) = Inr v" "\<not> truthy v"
    and "establish_key w BB84_PURIFIED (PStr u) (PInt 16) a = (Inr (), a')"
    and "getMessageKey (userDB a') (PStr u) = Inr key" "truthy key"
  shows "sendQChatMessage C w (PStr u) plain a = sendQChatMessage C w (PStr u) plain a'"
proof -
  have "hasUser (userDB a) (PStr u)" "hasUser (userDB a') (PStr u)" using assms(1,4) getMessageKey_known by blast+
  then show ?thesis
    using assms by (simp add: sendQChatMessage_def createQChatMessage_def core_getMessageKey_def has_user_PStr step_simps andThen_assoc)
qed

text \<open>The clients afterwards, in full: the sender and the receiver.\<close>

definition led :: "client \<Rightarrow> pystr \<Rightarrow> message list \<Rightarrow> bytes \<Rightarrow> pyval \<times> pyval \<times> bytes \<Rightarrow> client" where
  "led a u ns key frame = with_sent (keyed (sent_by a (PStr u) ns) u key) [frame]"

definition followed :: "client \<Rightarrow> pystr \<Rightarrow> message list \<Rightarrow> bytes \<Rightarrow> client" where
  "followed b u ns key = keyed (sent_by b (PStr u) ns) u key"

lemma led_simps [simp]:
  "core_name (led a u ns key fr) = core_name a" "signer_key (led a u ns key fr) = signer_key a" "mailbox (led a u ns key fr) = mailbox a"
  "message_queue (conn (led a u ns key fr)) = message_queue (conn a)" "conn_sent (conn (led a u ns key fr)) = conn_sent (conn a) @ [fr]"
  "outbound_queue (led a u ns key fr) = outbound_queue a @ map (Pair (PStr u)) ns"
  by (simp_all add: led_def with_sent_def)

lemma followed_simps [simp]:
  "core_name (followed b u ns key) = core_name b" "signer_key (followed b u ns key) = signer_key b" "mailbox (followed b u ns key) = mailbox b"
  "conn (followed b u ns key) = conn b" "outbound_queue (followed b u ns key) = outbound_queue b @ map (Pair (PStr u)) ns"
  by (simp_all add: followed_def)

lemma led_fields:
  assumes "reaches a own u"
  shows "getMessageKey (userDB (led a u ns key fr)) (PStr u) = Inr (PBytes key)"
    "getMessageKey (userDB (followed a u ns key)) (PStr u) = Inr (PBytes key)"
    "getConnectionInfo (userDB (followed a u ns key)) (PStr u) = getConnectionInfo (userDB a) (PStr u)"
    "holds_key C (userDB (led a u ns key fr)) u k = holds_key C (userDB a) u k"
    "holds_key C (userDB (followed a u ns key)) u k = holds_key C (userDB a) u k"
proof -
  from assms obtain v where v: "getConnectionInfo (userDB (sent_by a (PStr u) ns)) (PStr u) = Inr v" by (auto simp: reaches_def)
  from keyed_fields [OF v, of key] v show "getMessageKey (userDB (led a u ns key fr)) (PStr u) = Inr (PBytes key)"
    "getMessageKey (userDB (followed a u ns key)) (PStr u) = Inr (PBytes key)"
    "getConnectionInfo (userDB (followed a u ns key)) (PStr u) = getConnectionInfo (userDB a) (PStr u)"
    "holds_key C (userDB (led a u ns key fr)) u k = holds_key C (userDB a) u k"
    "holds_key C (userDB (followed a u ns key)) u k = holds_key C (userDB a) u k"
    by (simp_all add: led_def followed_def with_sent_def holds_key_def)
qed

lemma first_chat:
  fixes a b :: client
  assumes "signatures_ok C" "encryption_ok C" "key_sizes_ok C" "cipher_sizes C"
    and "core_name a = A" "wire_name A" "length B \<le> 16" "\<forall>d. length (sign C (signer_key a) d) \<le> 4096"
    and "reaches a A B" "reaches b B A" "getMessageKey (userDB a) (PStr B) = Inr v" "\<not> truthy v"
    and "getConnectionInfo (userDB a) (PStr B) = Inr target" "getitem target ''host'' = Inr host"
    and "getitem target ''port'' = Inr port" "conn_route (conn a) host port = None"
    and "holds_key C (userDB b) A (signer_key a)"
    and "message_queue (conn b) = []" "mailbox b = mailbox_init" "whole_fields f"
    and "latin1_encode text = Inr data" "n \<noteq> []" "length n + length data \<le> 700000000"
    and "encode_message \<lparr>msg_class = RQQB, msg_sender = A, msg_data = PDict [(str ''user'', PStr B)]\<rparr> = Inr rq"
    and "good_channel ls fs picks" "length ys = 16" "list_all seed_ok ys" "39 \<le> fuel"
  shows "\<exists>t u to_a to_b key frame m m'. length key = 16
    \<and> sendQChatMessage C \<lparr>turns = ts, arrivals = to_a, tape_of = t, nonce_of = n, fuel_of = fuel\<rparr> (PStr B) text a
      = (Inr (), led a B (start_message A # to_b) key (host, port, frame))
    \<and> follow_request \<lparr>turns = tb, arrivals = to_b, tape_of = u, nonce_of = n, fuel_of = fuel\<rparr> (start_message A) b
      = (Inr (), followed b A to_a key)
    \<and> (let b' = followed b A to_a key in
      read_from_connection (b'\<lparr>conn := snd (handle_connection \<lparr>pending = frame, sched = f\<rparr> (conn b'))\<rparr>) = (Inr (Some m), b')
      \<and> process_message C (client_handlers C w') ts' m b' = (Inr (), b'\<lparr>mailbox := storeMessage m' mailbox_init\<rparr>)
      \<and> getMessageHistory C (b'\<lparr>mailbox := storeMessage m' mailbox_init\<rparr>) = (Inr [(A, [PBytes data])], b'))"
proof -
  from key_shared [OF assms(9,10) wire_name_length [OF assms(6)] assms(7,24-28)] obtain t u to_a to_b key where
    k: "length key = 16" "\<forall>ts n. establish_key \<lparr>turns = ts, arrivals = to_a, tape_of = t, nonce_of = n, fuel_of = fuel\<rparr>
        BB84_PURIFIED (PStr B) (PInt 16) a = (Inr (), keyed (sent_by a (PStr B) (start_message A # to_b)) B key)"
    "\<forall>ts n. follow_request \<lparr>turns = ts, arrivals = to_b, tape_of = u, nonce_of = n, fuel_of = fuel\<rparr>
        (start_message A) b = (Inr (), followed b A to_a key)" unfolding followed_def by blast
  let ?w = "\<lparr>turns = ts, arrivals = to_a, tape_of = t, nonce_of = n, fuel_of = fuel\<rparr>"
  let ?a = "followed a B (start_message A # to_b) key" and ?b = "followed b A to_a key"
  note ka = led_fields [OF assms(9), where ns = "start_message A # to_b" and key = key] and kb = led_fields [OF assms(10), where ns = to_a and key = key]
  have target: "getConnectionInfo (userDB ?a) (PStr B) = Inr target" using ka(3) assms(13) by simp
  have key: "truthy (PBytes key)" using k(1) by auto
  have held: "holds_key C (userDB ?b) A (signer_key ?a)" using kb(5) assms(17) by simp
  have first: "sendQChatMessage C ?w (PStr B) text a = sendQChatMessage C ?w (PStr B) text ?a"
    using chat_after_key [OF assms(11,12) _ ka(2) key] k(2) unfolding followed_def by blast
  from chat_delivered [OF assms(1-4) _ assms(6) _ target assms(14,15) _ ka(2) k(1) kb(2) held _ _ assms(20,21), of ?w w' ts']
  obtain frame m m' where d: "sendQChatMessage C ?w (PStr B) text ?a = (Inr (), with_sent ?a [(host, port, frame)])"
    "read_from_connection (?b\<lparr>conn := snd (handle_connection \<lparr>pending = frame, sched = f\<rparr> (conn ?b))\<rparr>) = (Inr (Some m), ?b)"
    "process_message C (client_handlers C w') ts' m ?b = (Inr (), ?b\<lparr>mailbox := storeMessage m' mailbox_init\<rparr>)"
    "getMessageHistory C (?b\<lparr>mailbox := storeMessage m' mailbox_init\<rparr>) = (Inr [(A, [PBytes data])], ?b)"
    using assms(5,8,16,18,19,22,23) by (auto simp: with_sent_def)
  have "sendQChatMessage C ?w (PStr B) text a = (Inr (), led a B (start_message A # to_b) key (host, port, frame))"
    unfolding first d(1) by (simp add: led_def followed_def)
  with k(1,3) d(2-4) show ?thesis unfolding Let_def by blast
qed


section \<open>An instance\<close>

definition demo_contact :: dict where
  "demo_contact = [demo_address, (str ''pub'', PBytes (lit ''k''))]"

lemma demo_contact_facts:
  "reaches (demo_client n demo_contact other) (str n) (str other)"
  "getMessageKey [(x, demo_contact)] x = Inr PNone"
  "getConnectionInfo [(x, demo_contact)] x = Inr (PDict [(str ''host'', PStr (str ''localhost'')), (str ''port'', PInt 8001)])"
  "holds_key demo_crypto [(PStr u, demo_contact)] u (lit ''k'')"
  by (simp_all add: reaches_def demo_client_def demo_contact_def demo_address_def getter_defs get_user_def
      dict_get_def getitem_def dget_def wf_dict_def dkeys_def holds_key_def get_pub_def demo_crypto_def)


end
