(* ===== verification/Network.thy ===== *)
theory Network
  imports Dense_Session Dense_Order
begin

text \<open>
  Two clients joined by the network, down to the single steps of their threads: the protocol's thread,
  the sending thread with its signatures, the frames on the way, the listening thread, the reading
  thread, and the handler threads that verify a message and store it for the protocol. The
  steps may come in any order; frames may arrive, and handlers run, in any order. The theorem is that such a network implements the
  sessions of \<open>Process\<close> and \<open>Ordering\<close>, whose messages are just there.
\<close>

section \<open>Threads and hosts\<close>

text \<open>
  One step of a protocol's thread in its client, whose peer is \<open>u\<close>. (A wait that times out is not
  among them.)
\<close>

definition thread_step :: "pystr \<Rightarrow> 'r proc \<times> tape \<Rightarrow> client \<Rightarrow> (('r proc \<times> tape) \<times> client) option" where
  "thread_step u x s = (case advance (fst x) (snd x) (control_message_queue s u) of
     None \<Rightarrow> None
   | Some (p, t, q, out) \<Rightarrow> Some ((p, t), s\<lparr>control_message_queue := (control_message_queue s)(u := q),
       outbound_queue := outbound_queue s @ map (Pair (PStr u)) out\<rparr>))"

text \<open>These are the steps of \<open>drive\<close>, the run of a program in its client.\<close>

lemma thread_step_drives:
  "thread_step u (p, t) s = Some ((p', t'), s') \<Longrightarrow> drive p t ms u (PStr u) s = drive p' t' ms u (PStr u) s'"
proof (induction p t "control_message_queue s u" rule: advance.induct)
  case (2 k t m q)
  then show ?case by (auto simp: thread_step_def simp flip: 2(1))
qed (auto simp: thread_step_def split: if_splits)

text \<open>One turn of the sending thread. The peer is known, so that it does not wait for a lookup.\<close>

definition send_next :: "crypto \<Rightarrow> (unit client_ext, unit) op" where
  "send_next C = send_outbound_messages C [] 1"

text \<open>
  A host is the protocol's thread with what it has yet to draw, the client object, and the messages
  whose handler threads were started and have not run. What a step of the host takes from the frames on the
  way to it, and what it sends, are arguments beside it.
\<close>

type_synonym 'r host = "('r proc \<times> tape) \<times> client \<times> message list"

inductive host_step ::
  "crypto \<Rightarrow> pystr \<Rightarrow> 'r host \<Rightarrow> bytes list \<Rightarrow> 'r host \<Rightarrow> bytes list \<Rightarrow> (pyval \<times> pyval \<times> bytes) list \<Rightarrow> bool"
  for C u
where
  works: "thread_step u x s = Some (x', s') \<Longrightarrow> host_step C u (x, s, hs) ws (x', s', hs) ws []"
| sends: "outbound_queue s \<noteq> [] \<Longrightarrow> send_next C s = (Inr (), s') \<Longrightarrow>
    conn_sent (conn s') = conn_sent (conn s) @ out \<Longrightarrow> host_step C u (x, s, hs) ws (x, s', hs) ws out"
| arrives: "whole_fields g \<Longrightarrow>
    host_step C u (x, s, hs) (ws @ b # ws') (x, s\<lparr>conn := snd (handle_connection \<lparr>pending = b, sched = g\<rparr> (conn s))\<rparr>, hs) (ws @ ws') []"
| takes: "read_from_connection s = (Inr (Some m), s') \<Longrightarrow> host_step C u (x, s, hs) ws (x, s', hs @ [m]) ws []"
| handles: "process_message C (client_handlers C w) [] m s = (r, s') \<Longrightarrow>
    host_step C u (x, s, hs @ m # hs') ws (x, s', hs @ hs') ws []"

inductive_cases host_stepE: "host_step C u (x, s, hs) ws h' ws' out"

lemma host_step_elim:
  assumes "host_step C u (x, s, hs) ws h' ws' out"
  obtains (works) x' s' where "h' = (x', s', hs)" "ws' = ws" "out = []" "thread_step u x s = Some (x', s')"
    | (sends) s' where "h' = (x, s', hs)" "ws' = ws" "outbound_queue s \<noteq> []" "send_next C s = (Inr (), s')"
      "conn_sent (conn s') = conn_sent (conn s) @ out"
    | (arrives) g ws1 b ws2 where "ws = ws1 @ b # ws2" "ws' = ws1 @ ws2" "out = []" "whole_fields g"
      "h' = (x, s\<lparr>conn := snd (handle_connection \<lparr>pending = b, sched = g\<rparr> (conn s))\<rparr>, hs)"
    | (takes) m s' where "h' = (x, s', hs @ [m])" "ws' = ws" "out = []" "read_from_connection s = (Inr (Some m), s')"
    | (handles) w m r s' hs1 hs2 where "hs = hs1 @ m # hs2" "h' = (x, s', hs1 @ hs2)" "ws' = ws" "out = []"
      "process_message C (client_handlers C w) [] m s = (r, s')"
  using assms by (rule host_stepE) blast+

text \<open>The network delivers what is sent to a host's address.\<close>

definition frames_for :: "connection \<Rightarrow> (pyval \<times> pyval \<times> bytes) list \<Rightarrow> bytes list" where
  "frames_for c out = map (snd \<circ> snd) (filter (\<lambda>f. fst f = conn_host c \<and> fst (snd f) = conn_port c) out)"

type_synonym ('a, 'b) net = "'a host \<times> 'b host \<times> bytes list \<times> bytes list"

inductive net_step :: "crypto \<Rightarrow> pystr \<Rightarrow> pystr \<Rightarrow> ('a, 'b) net \<Rightarrow> ('a, 'b) net \<Rightarrow> bool" for C A B where
  left: "host_step C B h fl h' fl' out \<Longrightarrow>
    net_step C A B (h, k, fl, fr) (h', k, fl', fr @ frames_for (conn (fst (snd k))) out)"
| right: "host_step C A k fr k' fr' out \<Longrightarrow>
    net_step C A B (h, k, fl, fr) (h, k', fl @ frames_for (conn (fst (snd h))) out, fr')"

section \<open>One message from queue to queue\<close>

definition frame_of :: "message \<Rightarrow> bytes" where
  "frame_of m = (case encode_message m of Inl e \<Rightarrow> [] | Inr b \<Rightarrow> b)"

definition signed_as :: "crypto \<Rightarrow> bytes \<Rightarrow> message \<Rightarrow> message" where
  "signed_as C key m = with_sig C key (frame_of m) m"

text \<open>A control message that its sender's frames can carry, without and with its signature.\<close>

definition carriable :: "crypto \<Rightarrow> bytes \<Rightarrow> pystr \<Rightarrow> message \<Rightarrow> bool" where
  "carriable C key own m \<longleftrightarrow> msg_sender m = own \<and> msg_class m \<in> {BB84, DQKD, SPDS} \<and> sendable m \<and> sendable (signed_as C key m)
     \<and> (\<exists>d. msg_data m = PDict d \<and> map_of d (str ''sig'') = None)"

lemma sendable_encode: "sendable m \<Longrightarrow> encode_message m = Inr (frame_of m)"
  using encode_message_shape [of m] by (auto simp: sendable_def frame_of_def)

text \<open>A host that can send to the peer \<open>u\<close>, at an address, and holds its public key.\<close>

definition knows :: "crypto \<Rightarrow> client \<Rightarrow> pystr \<Rightarrow> bytes \<Rightarrow> pyval \<Rightarrow> pyval \<Rightarrow> bool" where
  "knows C s u key host port \<longleftrightarrow>
     (\<exists>c. getConnectionInfo (userDB s) (PStr u) = Inr c \<and> getitem c ''host'' = Inr host \<and> getitem c ''port'' = Inr port)
     \<and> conn_route (conn s) host port = None
     \<and> holds_key C (userDB s) u key"

lemma message_handled:
  assumes "signatures_ok C" "carriable C key u m" "knows C s u key host port"
  shows "process_message C (client_handlers C w) ts (signed_as C key m) s
    = (Inr (), s\<lparr>control_message_queue := (control_message_queue s)(u := control_message_queue s u @ [m])\<rparr>)"
proof -
  from assms(2) obtain d where m: "msg_sender m = u" "msg_class m \<in> {BB84, DQKD, SPDS}" "msg_data m = PDict d"
    "map_of d (str ''sig'') = None" "encode_message m = Inr (frame_of m)"
    using sendable_encode by (auto simp: carriable_def)
  have verify: "msg_verify (msg_class m)" using m(2) by (auto simp: msg_verify_def)
  have "process_message C (client_handlers C w) ts (signed_as C key m) s = dispatch (client_handlers C w) m s"
    using assms(3) m unfolding signed_as_def knows_def by (intro signed_dispatch_held [OF assms(1) verify m(3-5)]) simp
  also have "\<dots> = (Inr (), s\<lparr>control_message_queue := (control_message_queue s)(u := control_message_queue s u @ [m])\<rparr>)"
    using m(1,2) by (auto simp: dispatch_def client_handlers_def store_control_message_def step_simps)
  finally show ?thesis .
qed

lemma message_arrives:
  assumes "carriable C key own m" "whole_fields g"
  shows "snd (handle_connection \<lparr>pending = frame_of (signed_as C key m), sched = g\<rparr> c) = append_message_to_queue (signed_as C key m) c"
proof -
  have s: "sendable (signed_as C key m)" using assms(1) by (simp add: carriable_def)
  from read_frame [OF s sendable_encode [OF s], of "\<lparr>pending = frame_of (signed_as C key m), sched = g\<rparr>" "[]"] assms(2)
  show ?thesis by (simp add: handle_connection_def)
qed

lemma message_sent:
  assumes "carriable C (signer_key s) own m" "knows C s u key host port" "outbound_queue s = (PStr u, m) # q"
  shows "send_next C s
    = (Inr (), s\<lparr>conn := (conn s)\<lparr>conn_sent := conn_sent (conn s) @ [(host, port, frame_of (signed_as C (signer_key s) m))]\<rparr>,
        outbound_queue := q\<rparr>)"
proof -
  let ?s = "s\<lparr>outbound_queue := q\<rparr>"
  from assms(1) obtain d where m: "msg_data m = PDict d" "encode_message m = Inr (frame_of m)"
    "encode_message (signed_as C (signer_key s) m) = Inr (frame_of (signed_as C (signer_key s) m))"
    using sendable_encode by (auto simp: carriable_def)
  from assms(2) obtain c where c: "getConnectionInfo (userDB s) (PStr u) = Inr c" "getitem c ''host'' = Inr host"
    "getitem c ''port'' = Inr port" "conn_route (conn s) host port = None" by (auto simp: knows_def)
  have sg: "sign_message C m ?s = (Inr (signed_as C (signer_key s) m), ?s)"
    using sign_message_dict [OF m(1,2), of C ?s] by (simp add: signed_as_def)
  have "sendMessage C [] (PStr u) m ?s = send_to host port (frame_of (signed_as C (signer_key s) m)) ?s"
    using c m(3) sg by (intro sendMessage_route) simp_all
  then show ?thesis using assms(3) c(4) by (simp add: send_next_def get_outbound_def send_to_def send_message_def)
qed

section \<open>The session behind a network\<close>

text \<open>
  What is on the way to a host's thread: the messages of its control queue, in their order, and those
  that its handlers, its inbound queue, the frames on the way and the peer's outbound queue hold.
\<close>

definition feeds ::
  "crypto \<Rightarrow> bytes \<Rightarrow> client \<Rightarrow> pystr \<Rightarrow> message list \<Rightarrow> bytes list \<Rightarrow> message list \<Rightarrow> message list \<Rightarrow> bool" where
  "feeds C key s u hs ws out q \<longleftrightarrow> (\<exists>ms0 ms1 ms2 rest. hs = map (signed_as C key) ms0
     \<and> message_queue (conn s) = map (signed_as C key) ms1 \<and> ws = map (\<lambda>m. frame_of (signed_as C key m)) ms2
     \<and> q = control_message_queue s u @ rest \<and> mset rest = mset (ms0 @ ms1 @ ms2 @ out))"

lemma feedsI:
  "hs = map (signed_as C key) ms0 \<Longrightarrow> message_queue (conn s) = map (signed_as C key) ms1 \<Longrightarrow>
   ws = map (\<lambda>m. frame_of (signed_as C key m)) ms2 \<Longrightarrow> q = control_message_queue s u @ rest \<Longrightarrow>
   mset rest = mset (ms0 @ ms1 @ ms2 @ out) \<Longrightarrow> feeds C key s u hs ws out q"
  unfolding feeds_def by blast

lemma feedsE:
  assumes "feeds C key s u hs ws out q"
  obtains ms0 ms1 ms2 rest where "hs = map (signed_as C key) ms0" "message_queue (conn s) = map (signed_as C key) ms1"
    "ws = map (\<lambda>m. frame_of (signed_as C key m)) ms2" "q = control_message_queue s u @ rest"
    "mset rest = mset (ms0 @ ms1 @ ms2 @ out)"
  using assms unfolding feeds_def by blast

text \<open>What a step does not change of a host: its address, its key, and what it knows of the peer.\<close>

definition same_host :: "client \<Rightarrow> client \<Rightarrow> bool" where
  "same_host s s' \<longleftrightarrow> userDB s' = userDB s \<and> signer_key s' = signer_key s \<and> conn_host (conn s') = conn_host (conn s)
     \<and> conn_port (conn s') = conn_port (conn s) \<and> conn_route (conn s') = conn_route (conn s)"

lemma same_host_knows: "same_host s s' \<Longrightarrow> knows C s' u key host port = knows C s u key host port"
  by (simp add: same_host_def knows_def)

text \<open>A step of a host is a step of its side of the session, or moves a message one place on.\<close>

lemma host_step_works:
  assumes "thread_step u x s = Some (x', s')" "feeds C key s u hs ws out q" "outbound_queue s = map (Pair (PStr u)) mine"
  obtains q' new where "advance (fst x) (snd x) q = Some (fst x', snd x', q', new)"
    and "feeds C key s' u hs ws out q'" "outbound_queue s' = map (Pair (PStr u)) (mine @ new)" "same_host s s'"
proof -
  from assms(1) obtain cq new where adv: "advance (fst x) (snd x) (control_message_queue s u) = Some (fst x', snd x', cq, new)"
    and s': "s' = s\<lparr>control_message_queue := (control_message_queue s)(u := cq),
       outbound_queue := outbound_queue s @ map (Pair (PStr u)) new\<rparr>"
    by (auto simp: thread_step_def split: option.splits)
  from assms(2) obtain ms0 ms1 ms2 rest where f: "hs = map (signed_as C key) ms0" "message_queue (conn s) = map (signed_as C key) ms1"
    "ws = map (\<lambda>m. frame_of (signed_as C key m)) ms2" "q = control_message_queue s u @ rest"
    "mset rest = mset (ms0 @ ms1 @ ms2 @ out)" by (elim feedsE)
  show ?thesis
  proof (rule that)
    show "advance (fst x) (snd x) q = Some (fst x', snd x', cq @ rest, new)" unfolding f(4) by (rule advance_more [OF adv])
    show "feeds C key s' u hs ws out (cq @ rest)" using f by (intro feedsI) (simp_all add: s')
  qed (simp_all add: s' assms(3) same_host_def)
qed

lemma host_step_sends:
  assumes "outbound_queue s \<noteq> []" "send_next C s = (Inr (), s')"
    and "conn_sent (conn s') = conn_sent (conn s) @ sent" "outbound_queue s = map (Pair (PStr u)) mine"
    and "\<forall>m \<in> set mine. carriable C (signer_key s) own m" "knows C s u key' host port" "feeds C key s u hs ws out q"
  obtains m ms where "mine = m # ms" "sent = [(host, port, frame_of (signed_as C (signer_key s) m))]"
    and "feeds C key s' u hs ws out q" "outbound_queue s' = map (Pair (PStr u)) ms" "same_host s s'"
proof -
  from assms(1,4) obtain m ms where m: "mine = m # ms" by (cases mine) auto
  have "carriable C (signer_key s) own m" "outbound_queue s = (PStr u, m) # map (Pair (PStr u)) ms"
    using assms(4,5) m by simp_all
  from message_sent [OF this(1) assms(6) this(2)] assms(2)
  have s': "s' = s\<lparr>conn := (conn s)\<lparr>conn_sent := conn_sent (conn s) @ [(host, port, frame_of (signed_as C (signer_key s) m))]\<rparr>,
      outbound_queue := map (Pair (PStr u)) ms\<rparr>" by simp
  show ?thesis
  proof (rule that [OF m])
    show "sent = [(host, port, frame_of (signed_as C (signer_key s) m))]" using assms(3) by (simp add: s')
    show "feeds C key s' u hs ws out q" using assms(7) by (simp add: feeds_def s')
  qed (simp_all add: s' same_host_def)
qed

text \<open>The three steps that move a message inside the host; storing may bring one before others.\<close>

lemma feeds_arrives:
  assumes "feeds C key s u hs (ws1 @ b # ws2) out q" "\<forall>m \<in> set q. carriable C key u m" "whole_fields g"
  defines "s' \<equiv> s\<lparr>conn := snd (handle_connection \<lparr>pending = b, sched = g\<rparr> (conn s))\<rparr>"
  shows "feeds C key s' u hs (ws1 @ ws2) out q" "same_host s s'" "outbound_queue s' = outbound_queue s"
    "length (message_queue (conn s')) = Suc (length (message_queue (conn s)))"
proof -
  from assms(1) obtain ms0 ms1 ms2 rest where f: "hs = map (signed_as C key) ms0" "message_queue (conn s) = map (signed_as C key) ms1"
    "ws1 @ b # ws2 = map (\<lambda>m. frame_of (signed_as C key m)) ms2" "q = control_message_queue s u @ rest"
    "mset rest = mset (ms0 @ ms1 @ ms2 @ out)" by (elim feedsE)
  from f(3) obtain ma m mb where m: "ms2 = ma @ m # mb" "b = frame_of (signed_as C key m)"
    "ws1 = map (\<lambda>m. frame_of (signed_as C key m)) ma" "ws2 = map (\<lambda>m. frame_of (signed_as C key m)) mb"
    by (auto simp: append_eq_map_conv Cons_eq_map_conv)
  have "carriable C key u m" using assms(2) mset_eq_setD [OF f(5)] f(4) m(1) by simp
  then have s': "s' = s\<lparr>conn := append_message_to_queue (signed_as C key m) (conn s)\<rparr>"
    unfolding s'_def m(2) using assms(3) by (simp add: message_arrives)
  show "feeds C key s' u hs (ws1 @ ws2) out q"
    using f m by (intro feedsI [where ?ms0.0 = ms0 and ?ms1.0 = "ms1 @ [m]" and ?ms2.0 = "ma @ mb"])
      (simp_all add: s' append_message_to_queue_def)
  show "same_host s s'" "outbound_queue s' = outbound_queue s"
    "length (message_queue (conn s')) = Suc (length (message_queue (conn s)))"
    by (simp_all add: s' same_host_def append_message_to_queue_def)
qed

lemma feeds_takes:
  assumes "feeds C key s u hs ws out q" "read_from_connection s = (Inr (Some m'), s')"
  shows "feeds C key s' u (hs @ [m']) ws out q" "same_host s s'" "outbound_queue s' = outbound_queue s"
    "length (message_queue (conn s)) = Suc (length (message_queue (conn s')))"
proof -
  from assms(1) obtain ms0 ms1 ms2 rest where f: "hs = map (signed_as C key) ms0" "message_queue (conn s) = map (signed_as C key) ms1"
    "ws = map (\<lambda>m. frame_of (signed_as C key m)) ms2" "q = control_message_queue s u @ rest"
    "mset rest = mset (ms0 @ ms1 @ ms2 @ out)" by (elim feedsE)
  from assms(2) f(2) obtain m ms where m: "ms1 = m # ms"
    by (cases ms1) (auto simp: read_from_connection_def recv_message_def)
  with assms(2) f(2) have t: "m' = signed_as C key m" "s' = s\<lparr>conn := (conn s)\<lparr>message_queue := map (signed_as C key) ms\<rparr>\<rparr>"
    by (auto simp: read_from_connection_def recv_message_def pop_message_from_queue_def)
  show "feeds C key s' u (hs @ [m']) ws out q"
    using f m t by (intro feedsI [where ?ms0.0 = "ms0 @ [m]" and ?ms1.0 = ms and ?ms2.0 = ms2]) simp_all
  show "same_host s s'" "outbound_queue s' = outbound_queue s"
    "length (message_queue (conn s)) = Suc (length (message_queue (conn s')))"
    using f(2) m by (simp_all add: t(2) same_host_def)
qed

lemma feeds_handles:
  assumes "feeds C key s u (hs1 @ m' # hs2) ws out q" "signatures_ok C" "knows C s u key host port"
    and "\<forall>m \<in> set q. carriable C key u m" "process_message C (client_handlers C w) ts m' s = (r, s')"
  shows "\<exists>q'. mset q' = mset q \<and> feeds C key s' u (hs1 @ hs2) ws out q'" "same_host s s'" "outbound_queue s' = outbound_queue s"
proof -
  from assms(1) obtain ms0 ms1 ms2 rest where f: "hs1 @ m' # hs2 = map (signed_as C key) ms0"
    "message_queue (conn s) = map (signed_as C key) ms1"
    "ws = map (\<lambda>m. frame_of (signed_as C key m)) ms2" "q = control_message_queue s u @ rest"
    "mset rest = mset (ms0 @ ms1 @ ms2 @ out)" by (elim feedsE)
  from f(1) obtain ma m mb where m: "ms0 = ma @ m # mb" "m' = signed_as C key m"
    "hs1 = map (signed_as C key) ma" "hs2 = map (signed_as C key) mb" by (auto simp: append_eq_map_conv Cons_eq_map_conv)
  have "m \<in> set rest" using mset_eq_setD [OF f(5)] m(1) by simp
  then obtain r1 r2 where rest: "rest = r1 @ m # r2" by (auto dest: split_list)
  have car: "carriable C key u m" using assms(4) f(4) rest by simp
  from assms(5) message_handled [OF assms(2) car assms(3), of w ts] m(2) have
    s': "s' = s\<lparr>control_message_queue := (control_message_queue s)(u := control_message_queue s u @ [m])\<rparr>" by simp
  let ?q = "(control_message_queue s u @ [m]) @ r1 @ r2"
  have "feeds C key s' u (hs1 @ hs2) ws out ?q"
    using f(2,3,5) m by (intro feedsI [where ?ms0.0 = "ma @ mb" and ?ms1.0 = ms1 and ?ms2.0 = ms2
      and rest = "r1 @ r2"]) (simp_all add: s' rest)
  moreover have "mset ?q = mset q" by (simp add: f(4) rest)
  ultimately show "\<exists>q'. mset q' = mset q \<and> feeds C key s' u (hs1 @ hs2) ws out q'" by blast
  show "same_host s s'" "outbound_queue s' = outbound_queue s" by (simp_all add: s' same_host_def)
qed

lemma host_step_related:
  assumes "host_step C u (x, s, hs) ws h' ws' sent" "signatures_ok C" "knows C s u key host port"
    and "feeds C key s u hs ws out q" "\<forall>m \<in> set q. carriable C key u m"
    and "outbound_queue s = map (Pair (PStr u)) mine" "\<forall>m \<in> set mine. carriable C (signer_key s) own m"
  obtains (worked) x' s' q' new where "h' = (x', s', hs)" "ws' = ws" "sent = []" "same_host s s'"
      "advance (fst x) (snd x) q = Some (fst x', snd x', q', new)" "feeds C key s' u hs ws out q'"
      "outbound_queue s' = map (Pair (PStr u)) (mine @ new)"
    | (sent) s' m ms where "h' = (x, s', hs)" "ws' = ws" "sent = [(host, port, frame_of (signed_as C (signer_key s) m))]"
      "same_host s s'" "mine = m # ms" "feeds C key s' u hs ws out q" "outbound_queue s' = map (Pair (PStr u)) ms"
    | (moved) s' hs' q' where "h' = (x, s', hs')" "sent = []" "same_host s s'" "mset q' = mset q"
      "feeds C key s' u hs' ws' out q'" "outbound_queue s' = map (Pair (PStr u)) mine"
proof -
  from assms(1) show thesis
  proof (cases rule: host_step_elim)
    case (works x' s')
    from host_step_works [OF works(4) assms(4,6)] obtain q' new where
      "advance (fst x) (snd x) q = Some (fst x', snd x', q', new)" "feeds C key s' u hs ws out q'"
      "outbound_queue s' = map (Pair (PStr u)) (mine @ new)" "same_host s s'" .
    with works show ?thesis by (intro worked)
  next
    case (sends s')
    from host_step_sends [OF sends(3-5) assms(6,7,3,4)] obtain m ms where "mine = m # ms"
      "sent = [(host, port, frame_of (signed_as C (signer_key s) m))]" "feeds C key s' u hs ws out q"
      "outbound_queue s' = map (Pair (PStr u)) ms" "same_host s s'" .
    with sends show ?thesis by (intro sent)
  next
    case (arrives g ws1 b ws2)
    note f = feeds_arrives [OF assms(4) [unfolded arrives(1)] assms(5) arrives(4)]
    show ?thesis by (rule moved [OF arrives(5,3) f(2) refl f(1) [folded arrives(2)] f(3) [unfolded assms(6)]])
  next
    case (takes m' s')
    from feeds_takes [OF assms(4) takes(4)] show ?thesis using takes(1-3) assms(6) by (intro moved) simp_all
  next
    case (handles w m' r s' hs1 hs2)
    note h = feeds_handles [OF assms(4) [unfolded handles(1)] assms(2,3,5) handles(5)]
    from h(1) obtain q' where "mset q' = mset q" "feeds C key s' u (hs1 @ hs2) ws out q'" by blast
    with h(2,3) show ?thesis using handles(2-4) assms(6) by (intro moved) simp_all
  qed
qed

section \<open>The network implements the session\<close>

definition related ::
  "crypto \<Rightarrow> pystr \<Rightarrow> pystr \<Rightarrow> bytes \<Rightarrow> bytes \<Rightarrow> ('a, 'b) net \<Rightarrow> ('a, 'b) session \<Rightarrow> bool" where
  "related C A B ka kb n c \<longleftrightarrow> (case n of ((x, a, ha), (y, b, hb), fl, fr) \<Rightarrow> case c of (l, r, ql, qr) \<Rightarrow>
     l = x \<and> r = y \<and> signer_key a = ka \<and> signer_key b = kb
     \<and> knows C a B kb (conn_host (conn b)) (conn_port (conn b)) \<and> knows C b A ka (conn_host (conn a)) (conn_port (conn a))
     \<and> (\<exists>oa ob. outbound_queue a = map (Pair (PStr B)) oa \<and> outbound_queue b = map (Pair (PStr A)) ob
        \<and> feeds C kb a B ha fl ob ql \<and> feeds C ka b A hb fr oa qr))"

text \<open>Every message on the way can be carried.\<close>

definition carriable_session :: "crypto \<Rightarrow> pystr \<Rightarrow> pystr \<Rightarrow> bytes \<Rightarrow> bytes \<Rightarrow> ('a, 'b) session \<Rightarrow> bool" where
  "carriable_session C A B ka kb c \<longleftrightarrow> (case c of (l, r, ql, qr) \<Rightarrow>
     (\<forall>m \<in> set ql. carriable C kb B m) \<and> (\<forall>m \<in> set qr. carriable C ka A m))"

lemma relatedI:
  "signer_key a = ka \<Longrightarrow> signer_key b = kb \<Longrightarrow> knows C a B kb (conn_host (conn b)) (conn_port (conn b)) \<Longrightarrow>
   knows C b A ka (conn_host (conn a)) (conn_port (conn a)) \<Longrightarrow> outbound_queue a = map (Pair (PStr B)) oa \<Longrightarrow>
   outbound_queue b = map (Pair (PStr A)) ob \<Longrightarrow> feeds C kb a B ha fl ob ql \<Longrightarrow> feeds C ka b A hb fr oa qr \<Longrightarrow>
   related C A B ka kb ((x, a, ha), (y, b, hb), fl, fr) (x, y, ql, qr)"
  unfolding related_def by auto

lemma frames_for_address:
  "frames_for c [] = []" "frames_for c [(conn_host c, conn_port c, b)] = [b]"
  by (simp_all add: frames_for_def)

lemma feeds_more: "feeds C key s u hs ws out q \<Longrightarrow> feeds C key s u hs ws (out @ new) (q @ new)"
  by (elim feedsE, rule feedsI) auto

lemma feeds_sent: "feeds C key s u hs ws (m # ms) q \<Longrightarrow> feeds C key s u hs (ws @ [frame_of (signed_as C key m)]) ms q"
proof (elim feedsE)
  fix ms0 ms1 ms2 rest
  assume "hs = map (signed_as C key) ms0" "message_queue (conn s) = map (signed_as C key) ms1"
    "ws = map (\<lambda>m. frame_of (signed_as C key m)) ms2" "q = control_message_queue s u @ rest"
    "mset rest = mset (ms0 @ ms1 @ ms2 @ m # ms)"
  then show ?thesis by (intro feedsI [where ?ms0.0 = ms0 and ?ms1.0 = ms1 and ?ms2.0 = "ms2 @ [m]"]) simp_all
qed

lemma feeds_out: "feeds C key s u hs ws out q \<Longrightarrow> set out \<subseteq> set q"
  by (elim feedsE, drule mset_eq_setD) auto

text \<open>A network and its mirror image.\<close>

definition net_swap :: "('a, 'b) net \<Rightarrow> ('b, 'a) net" where
  "net_swap n = (case n of (h, k, fl, fr) \<Rightarrow> (k, h, fr, fl))"

definition session_swap :: "('a, 'b) session \<Rightarrow> ('b, 'a) session" where
  "session_swap c = (case c of (l, r, ql, qr) \<Rightarrow> (r, l, qr, ql))"

lemma related_swap: "related C A B ka kb n c \<Longrightarrow> related C B A kb ka (net_swap n) (session_swap c)"
  by (auto simp: related_def net_swap_def session_swap_def)

lemma carriable_swap: "carriable_session C A B ka kb c \<Longrightarrow> carriable_session C B A kb ka (session_swap c)"
  by (auto simp: carriable_session_def session_swap_def)

lemma swap_swap: "net_swap (net_swap n) = n" "session_swap (session_swap c) = c"
  by (simp_all add: net_swap_def session_swap_def split: prod.split)

lemma rstep_swap: "rstep c d \<Longrightarrow> rstep (session_swap c) (session_swap d)"
proof (induction rule: rstep.induct)
  case (ordered c d)
  then show ?case by (cases rule: sstep.cases) (auto simp: session_swap_def intro: rstep.ordered sstep.intros)
qed (simp add: session_swap_def rstep.swapped)

lemma left_step_related:
  assumes "host_step C B h fl h' fl' sent" "signatures_ok C" "related C A B ka kb (h, k, fl, fr) c"
    and "carriable_session C A B ka kb c"
  shows "\<exists>d. rstep\<^sup>*\<^sup>* c d \<and> related C A B ka kb (h', k, fl', fr @ frames_for (conn (fst (snd k))) sent) d"
proof -
  obtain x a ha y b hb l r ql qr where h: "h = (x, a, ha)" "k = (y, b, hb)" "c = (l, r, ql, qr)"
    by (cases h; cases k; cases c)
  from assms(3) [unfolded h] obtain oa ob where R: "l = x" "r = y" "signer_key a = ka" "signer_key b = kb"
    "knows C a B kb (conn_host (conn b)) (conn_port (conn b))" "knows C b A ka (conn_host (conn a)) (conn_port (conn a))"
    "outbound_queue a = map (Pair (PStr B)) oa" "outbound_queue b = map (Pair (PStr A)) ob"
    "feeds C kb a B ha fl ob ql" "feeds C ka b A hb fr oa qr" by (auto simp: related_def)
  have ok: "\<forall>m \<in> set ql. carriable C kb B m" "\<forall>m \<in> set oa. carriable C (signer_key a) A m"
    using assms(4) feeds_out [OF R(10)] by (auto simp: carriable_session_def h R(3))
  from assms(1) [unfolded h] assms(2) R(5,9) ok(1) R(7) ok(2) show ?thesis
  proof (cases rule: host_step_related)
    case (worked x' s' q' new)
    have "sstep ((fst x, snd x), (fst y, snd y), ql, qr) ((fst x', snd x'), (fst y, snd y), q', qr @ new)"
      by (rule sstep.left [OF worked(5)])
    then have "rstep\<^sup>*\<^sup>* c (x', y, q', qr @ new)" by (simp add: h R(1,2) rstep.ordered r_into_rtranclp)
    moreover have "related C A B ka kb ((x', s', ha), (y, b, hb), fl, fr) (x', y, q', qr @ new)"
      using R(3-6) worked(4) same_host_knows [OF worked(4)]
      by (intro relatedI [OF _ _ _ _ worked(7) R(8) worked(6) feeds_more [OF R(10)]]) (simp_all add: same_host_def)
    then have "related C A B ka kb (h', k, fl', fr @ frames_for (conn (fst (snd k))) sent) (x', y, q', qr @ new)"
      by (simp add: worked(1-3) h frames_for_address)
    ultimately show ?thesis by blast
  next
    case (sent s' m ms)
    have "related C A B ka kb ((x, s', ha), (y, b, hb), fl, fr @ [frame_of (signed_as C ka m)]) (x, y, ql, qr)"
      using R(3-6) sent(4) same_host_knows [OF sent(4)]
      by (intro relatedI [OF _ _ _ _ sent(7) R(8) sent(6) feeds_sent [OF R(10) [unfolded sent(5)]]]) (simp_all add: same_host_def)
    then have "related C A B ka kb (h', k, fl', fr @ frames_for (conn (fst (snd k))) sent) c"
      by (simp add: sent(1-3) h R(1-3) frames_for_address)
    then show ?thesis by blast
  next
    case (moved s' hs' q')
    have "rstep c (x, y, q', qr)" unfolding h R(1,2) by (rule rstep.swapped) (simp_all add: moved(4))
    moreover have "related C A B ka kb ((x, s', hs'), (y, b, hb), fl', fr) (x, y, q', qr)"
      using R(3-6) moved(3) same_host_knows [OF moved(3)]
      by (intro relatedI [OF _ _ _ _ moved(6) R(8) moved(5) R(10)]) (simp_all add: same_host_def)
    then have "related C A B ka kb (h', k, fl', fr @ frames_for (conn (fst (snd k))) sent) (x, y, q', qr)"
      by (simp add: moved(1,2) h frames_for_address)
    ultimately show ?thesis by blast
  qed
qed

lemma net_step_related:
  assumes "net_step C A B n n'" "signatures_ok C" "related C A B ka kb n c" "carriable_session C A B ka kb c"
  shows "\<exists>d. rstep\<^sup>*\<^sup>* c d \<and> related C A B ka kb n' d"
  using assms(1)
proof (cases rule: net_step.cases)
  case (left h fl h' fl' out k fr)
  from left_step_related [OF left(3) assms(2) assms(3) [unfolded left(1)] assms(4)] show ?thesis unfolding left(2) .
next
  case (right k fr k' fr' out h fl)
  have mirror: "net_swap n = (k, h, fr, fl)" "net_swap n' = (k', h, fr', fl @ frames_for (conn (fst (snd h))) out)"
    by (simp_all add: right(1,2) net_swap_def)
  from left_step_related [OF right(3) assms(2) related_swap [OF assms(3), unfolded mirror(1)] carriable_swap [OF assms(4)]]
  obtain d where d: "rstep\<^sup>*\<^sup>* (session_swap c) d" "related C B A kb ka (net_swap n') d" unfolding mirror(2) by blast
  have "rstep\<^sup>*\<^sup>* (session_swap (session_swap c)) (session_swap d)"
    using d(1) by (induction rule: rtranclp_induct) (auto intro: rtranclp.rtrancl_into_rtrancl rstep_swap)
  with related_swap [OF d(2)] show ?thesis unfolding swap_swap by blast
qed

lemma network_reaches:
  assumes "signatures_ok C" "related C A B ka kb n c" "(net_step C A B)\<^sup>*\<^sup>* n n'"
    and "\<forall>d. rstep\<^sup>*\<^sup>* c d \<longrightarrow> carriable_session C A B ka kb d"
  shows "\<exists>d. rstep\<^sup>*\<^sup>* c d \<and> related C A B ka kb n' d"
  using assms(3)
proof (induction rule: rtranclp_induct)
  case base
  show ?case using assms(2) by blast
next
  case (step n1 n2)
  then obtain d where d: "rstep\<^sup>*\<^sup>* c d" "related C A B ka kb n1 d" by blast
  with net_step_related [OF step(2) assms(1) d(2)] assms(4) obtain e where
    "rstep\<^sup>*\<^sup>* d e" "related C A B ka kb n2 e" by blast
  with d(1) show ?case by (meson rtranclp_trans)
qed

section \<open>The session can always go on\<close>

lemma whole_nil: "whole_fields []"
  by (simp add: whole_fields_def)

text \<open>Everything on the way to the left host gets as far as its handlers.\<close>

lemma flush_left:
  assumes "related C A B ka kb ((x, a, ha), (y, b, hb), fl, fr) (x, y, ql, qr)" "signatures_ok C"
    and "carriable_session C A B ka kb (x, y, ql, qr)"
  shows "\<exists>a' ha' b'. (net_step C A B)\<^sup>*\<^sup>* ((x, a, ha), (y, b, hb), fl, fr) ((x, a', ha'), (y, b', hb), [], fr)
    \<and> related C A B ka kb ((x, a', ha'), (y, b', hb), [], fr) (x, y, ql, qr)
    \<and> message_queue (conn a') = [] \<and> outbound_queue b' = []"
  using assms(1)
proof (induction "3 * length (outbound_queue b) + 2 * length fl + length (message_queue (conn a))"
    arbitrary: a ha b fl rule: less_induct)
  case less
  from less.prems obtain oa ob where R: "signer_key a = ka" "signer_key b = kb"
    "knows C a B kb (conn_host (conn b)) (conn_port (conn b))" "knows C b A ka (conn_host (conn a)) (conn_port (conn a))"
    "outbound_queue a = map (Pair (PStr B)) oa" "outbound_queue b = map (Pair (PStr A)) ob"
    "feeds C kb a B ha fl ob ql" "feeds C ka b A hb fr oa qr" by (auto simp: related_def)
  have okl: "\<forall>m \<in> set ql. carriable C kb B m" using assms(3) by (simp add: carriable_session_def)
  have okb: "\<forall>m \<in> set ob. carriable C (signer_key b) B m" using okl feeds_out [OF R(7)] R(2) by blast
  have go: ?case if "net_step C A B ((x, a, ha), (y, b, hb), fl, fr) ((x, a', ha'), (y, b', hb), fl', fr)"
    "related C A B ka kb ((x, a', ha'), (y, b', hb), fl', fr) (x, y, ql, qr)"
    "3 * length (outbound_queue b') + 2 * length fl' + length (message_queue (conn a'))
      < 3 * length (outbound_queue b) + 2 * length fl + length (message_queue (conn a))" for a' ha' b' fl'
    using less.hyps [OF that(3,2)] that(1) by (meson converse_rtranclp_into_rtranclp)
  consider "ob \<noteq> []" | "ob = []" "fl \<noteq> []" | "ob = []" "fl = []" "message_queue (conn a) \<noteq> []"
    | "ob = []" "fl = []" "message_queue (conn a) = []" by blast
  then show ?case
  proof cases
    case 1
    then obtain m ms where m: "ob = m # ms" by (cases ob) auto
    let ?b = "b\<lparr>conn := (conn b)\<lparr>conn_sent := conn_sent (conn b) @ [(conn_host (conn a), conn_port (conn a),
      frame_of (signed_as C (signer_key b) m))]\<rparr>, outbound_queue := map (Pair (PStr A)) ms\<rparr>"
    have sent: "send_next C b = (Inr (), ?b)"
      using okb m R(6) by (intro message_sent [where own = B, OF _ R(4)]) simp_all
    have "host_step C A (y, b, hb) fr (y, ?b, hb) fr [(conn_host (conn a), conn_port (conn a), frame_of (signed_as C kb m))]"
      by (rule host_step.sends [OF _ sent]) (use R(2,6) m in simp_all)
    from net_step.right [OF this, where B = B and h = "(x, a, ha)" and fl = fl] have
      "net_step C A B ((x, a, ha), (y, b, hb), fl, fr) ((x, a, ha), (y, ?b, hb), fl @ [frame_of (signed_as C kb m)], fr)"
      by (simp add: frames_for_address)
    moreover have "same_host b ?b" by (simp add: same_host_def)
    then have "related C A B ka kb ((x, a, ha), (y, ?b, hb), fl @ [frame_of (signed_as C kb m)], fr) (x, y, ql, qr)"
      using R(1-4) same_host_knows [of b ?b] R(8)
      by (intro relatedI [OF _ _ _ _ R(5) _ feeds_sent [OF R(7) [unfolded m]], where b = ?b])
        (simp_all add: feeds_def)
    ultimately show ?thesis by (rule go) (simp add: R(6) m)
  next
    case 2
    then obtain w ws where w: "fl = [] @ w # ws" by (cases fl) auto
    let ?a = "a\<lparr>conn := snd (handle_connection \<lparr>pending = w, sched = []\<rparr> (conn a))\<rparr>"
    note f = feeds_arrives [OF R(7) [unfolded w] okl whole_nil]
    have "host_step C B (x, a, ha) fl (x, ?a, ha) ([] @ ws) []" unfolding w by (rule host_step.arrives [OF whole_nil])
    from net_step.left [OF this, where A = A and k = "(y, b, hb)" and fr = fr] have
      "net_step C A B ((x, a, ha), (y, b, hb), fl, fr) ((x, ?a, ha), (y, b, hb), [] @ ws, fr)"
      by (simp add: frames_for_address)
    moreover have "related C A B ka kb ((x, ?a, ha), (y, b, hb), [] @ ws, fr) (x, y, ql, qr)"
      using R(1-4) f(2) same_host_knows [OF f(2)]
      by (intro relatedI [OF _ _ _ _ f(3) [unfolded R(5)] R(6) f(1) R(8)]) (simp_all add: same_host_def)
    ultimately show ?thesis by (rule go) (use f(4) w in simp)
  next
    case 3
    then obtain m ms where m: "message_queue (conn a) = m # ms" by (cases "message_queue (conn a)") auto
    then obtain a' where t: "read_from_connection a = (Inr (Some m), a')"
      by (simp add: read_from_connection_def recv_message_def pop_message_from_queue_def)
    note f = feeds_takes [OF R(7) t]
    have "host_step C B (x, a, ha) fl (x, a', ha @ [m]) fl []" by (rule host_step.takes [OF t])
    from net_step.left [OF this, where A = A and k = "(y, b, hb)" and fr = fr] have
      "net_step C A B ((x, a, ha), (y, b, hb), fl, fr) ((x, a', ha @ [m]), (y, b, hb), fl, fr)"
      by (simp add: frames_for_address)
    moreover have "related C A B ka kb ((x, a', ha @ [m]), (y, b, hb), fl, fr) (x, y, ql, qr)"
      using R(1-4) f(2) same_host_knows [OF f(2)]
      by (intro relatedI [OF _ _ _ _ f(3) [unfolded R(5)] R(6) f(1) R(8)]) (simp_all add: same_host_def)
    ultimately show ?thesis by (rule go) (use f(4) in simp)
  next
    case 4
    with less.prems R(6) show ?thesis by (intro exI [of _ a] exI [of _ ha] exI [of _ b]) simp
  qed
qed

text \<open>Of the handlers that were started, that of the session's next message can run next.\<close>

lemma feeds_next:
  assumes "feeds C key s u hs [] [] q" "message_queue (conn s) = []" "control_message_queue s u = []" "q = m # q'"
    and "signatures_ok C" "knows C s u key host port" "\<forall>m \<in> set q. carriable C key u m"
  shows "\<exists>hs1 hs2 s'. hs = hs1 @ signed_as C key m # hs2
    \<and> process_message C (client_handlers C w) ts (signed_as C key m) s = (Inr (), s')
    \<and> feeds C key s' u (hs1 @ hs2) [] [] q \<and> control_message_queue s' u = [m]
    \<and> same_host s s' \<and> outbound_queue s' = outbound_queue s"
proof -
  from assms(1) obtain ms0 where f: "hs = map (signed_as C key) ms0" "mset q = mset ms0"
    by (elim feedsE) (use assms(2,3) in auto)
  have "m \<in> set ms0" using mset_eq_setD [OF f(2)] assms(4) by auto
  then obtain ma mb where m: "ms0 = ma @ m # mb" by (auto dest: split_list)
  let ?s = "s\<lparr>control_message_queue := (control_message_queue s)(u := [m])\<rparr>"
  have "process_message C (client_handlers C w) ts (signed_as C key m) s = (Inr (), ?s)"
    using message_handled [OF assms(5) _ assms(6), of m w ts] assms(3,4,7) by simp
  moreover have "feeds C key ?s u (map (signed_as C key) ma @ map (signed_as C key) mb) [] [] q"
    using assms(2,4) f(2) m
    by (intro feedsI [where ?ms0.0 = "ma @ mb" and ?ms1.0 = "[]" and ?ms2.0 = "[]" and rest = q']) simp_all
  ultimately show ?thesis
    using f(1) m by (intro exI [of _ "map (signed_as C key) ma"] exI [of _ "map (signed_as C key) mb"] exI [of _ ?s])
      (simp add: same_host_def)
qed

lemma ready_left:
  assumes "related C A B ka kb ((x, a, ha), k, fl, fr) (x, r, m # ql, qr)" "signatures_ok C"
    and "carriable_session C A B ka kb (x, r, m # ql, qr)"
  shows "\<exists>a' ha' k' fl' fr'. (net_step C A B)\<^sup>*\<^sup>* ((x, a, ha), k, fl, fr) ((x, a', ha'), k', fl', fr')
    \<and> related C A B ka kb ((x, a', ha'), k', fl', fr') (x, r, m # ql, qr) \<and> control_message_queue a' B \<noteq> []"
proof -
  fix w :: world
  obtain y b hb where k: "k = (y, b, hb)" by (cases k)
  then have r: "r = y" using assms(1) by (simp add: related_def)
  from flush_left [OF assms(1) [unfolded k r] assms(2) assms(3) [unfolded r]] obtain a1 ha1 b1 where
    run: "(net_step C A B)\<^sup>*\<^sup>* ((x, a, ha), (y, b, hb), fl, fr) ((x, a1, ha1), (y, b1, hb), [], fr)"
    and rel: "related C A B ka kb ((x, a1, ha1), (y, b1, hb), [], fr) (x, y, m # ql, qr)"
    and idle: "message_queue (conn a1) = []" "outbound_queue b1 = []" by blast
  from rel idle(2) obtain oa where R: "signer_key a1 = ka" "signer_key b1 = kb"
    "knows C a1 B kb (conn_host (conn b1)) (conn_port (conn b1))" "knows C b1 A ka (conn_host (conn a1)) (conn_port (conn a1))"
    "outbound_queue a1 = map (Pair (PStr B)) oa" "outbound_queue b1 = map (Pair (PStr A)) []"
    "feeds C kb a1 B ha1 [] [] (m # ql)" "feeds C ka b1 A hb fr oa qr" by (auto simp: related_def)
  show ?thesis
  proof (cases "control_message_queue a1 B = []")
    case False
    with run rel show ?thesis unfolding k r by blast
  next
    case True
    have "\<forall>m \<in> set (m # ql). carriable C kb B m" using assms(3) by (simp add: carriable_session_def)
    from feeds_next [OF R(7) idle(1) True refl assms(2) R(3) this, where w = w and ts = "[]"] obtain hs1 hs2 a2 where
      h: "ha1 = hs1 @ signed_as C kb m # hs2"
        "process_message C (client_handlers C w) [] (signed_as C kb m) a1 = (Inr (), a2)"
        "feeds C kb a2 B (hs1 @ hs2) [] [] (m # ql)" "control_message_queue a2 B = [m]" "same_host a1 a2"
        "outbound_queue a2 = outbound_queue a1" by blast
    have "host_step C B (x, a1, ha1) [] (x, a2, hs1 @ hs2) [] []" unfolding h(1) by (rule host_step.handles [OF h(2)])
    from net_step.left [OF this, where A = A and k = "(y, b1, hb)" and fr = fr] have
      "net_step C A B ((x, a1, ha1), (y, b1, hb), [], fr) ((x, a2, hs1 @ hs2), (y, b1, hb), [], fr)"
      by (simp add: frames_for_address)
    with run have "(net_step C A B)\<^sup>*\<^sup>* ((x, a, ha), (y, b, hb), fl, fr) ((x, a2, hs1 @ hs2), (y, b1, hb), [], fr)"
      by (rule rtranclp.rtrancl_into_rtrancl)
    moreover have "related C A B ka kb ((x, a2, hs1 @ hs2), (y, b1, hb), [], fr) (x, y, m # ql, qr)"
      using R(1-4) h(5) same_host_knows [OF h(5)]
      by (intro relatedI [OF _ _ _ _ h(6) [unfolded R(5)] R(6) h(3) R(8)]) (simp_all add: same_host_def)
    moreover have "control_message_queue a2 B \<noteq> []" using h(4) by simp
    ultimately show ?thesis unfolding k r by blast
  qed
qed

text \<open>A step of a thread waits for the first message or for none.\<close>

lemma advance_head:
  assumes "advance p t q = Some (p', t', q', out)"
  shows "q' = q \<and> (\<forall>r. advance p t r = Some (p', t', r, out))
    \<or> (\<exists>m. q = m # q' \<and> (\<forall>r. advance p t (m # r) = Some (p', t', r, out)))"
  using assms by (induction p t q rule: advance.induct) (auto split: if_splits)

lemma left_realised:
  assumes "related C A B ka kb n ((p, t), r, ql, qr)" "advance p t ql = Some (p', t', ql', out)" "signatures_ok C"
    and "carriable_session C A B ka kb ((p, t), r, ql, qr)"
  shows "\<exists>n'. (net_step C A B)\<^sup>*\<^sup>* n n' \<and> related C A B ka kb n' ((p', t'), r, ql', qr @ out)"
proof -
  from assms(1) obtain a ha k fl fr where n: "n = (((p, t), a, ha), k, fl, fr)"
    by (cases n) (auto simp: related_def split: prod.splits)
  have "\<exists>a' ha' k' fl' fr'. (net_step C A B)\<^sup>*\<^sup>* n (((p, t), a', ha'), k', fl', fr')
      \<and> related C A B ka kb (((p, t), a', ha'), k', fl', fr') ((p, t), r, ql, qr)
      \<and> (\<exists>z. advance p t (control_message_queue a' B) = Some z)"
  proof (cases "\<exists>m. ql = m # ql' \<and> (\<forall>r. advance p t (m # r) = Some (p', t', r, out))")
    case False
    with advance_head [OF assms(2)] have "\<exists>z. advance p t (control_message_queue a B) = Some z" by blast
    with assms(1) show ?thesis unfolding n by blast
  next
    case True
    then obtain m where m: "ql = m # ql'" "\<And>r. advance p t (m # r) = Some (p', t', r, out)" by blast
    from ready_left [OF assms(1) [unfolded n m(1)] assms(3) assms(4) [unfolded m(1)]] obtain a' ha' k' fl' fr' where
      R: "(net_step C A B)\<^sup>*\<^sup>* n (((p, t), a', ha'), k', fl', fr')"
        "related C A B ka kb (((p, t), a', ha'), k', fl', fr') ((p, t), r, ql, qr)" "control_message_queue a' B \<noteq> []"
      unfolding n m(1) by blast
    obtain rest where "ql = control_message_queue a' B @ rest" using R(2) by (auto simp: related_def feeds_def split: prod.splits)
    with R(3) m(1) obtain cq where "control_message_queue a' B = m # cq" by (cases "control_message_queue a' B") auto
    with R(1,2) m(2) show ?thesis by metis
  qed
  then obtain a' ha' k' fl' fr' p1 t1 q1 o1 where
    run: "(net_step C A B)\<^sup>*\<^sup>* n (((p, t), a', ha'), k', fl', fr')"
    and rel: "related C A B ka kb (((p, t), a', ha'), k', fl', fr') ((p, t), r, ql, qr)"
    and adv: "advance p t (control_message_queue a' B) = Some (p1, t1, q1, o1)" by auto
  obtain y b hb where k: "k' = (y, b, hb)" by (cases k')
  from rel [unfolded k] obtain oa ob where R: "r = y" "signer_key a' = ka" "signer_key b = kb"
    "knows C a' B kb (conn_host (conn b)) (conn_port (conn b))" "knows C b A ka (conn_host (conn a')) (conn_port (conn a'))"
    "outbound_queue a' = map (Pair (PStr B)) oa" "outbound_queue b = map (Pair (PStr A)) ob"
    "feeds C kb a' B ha' fl' ob ql" "feeds C ka b A hb fr' oa qr" by (auto simp: related_def)
  obtain s' where step: "thread_step B (p, t) a' = Some ((p1, t1), s')" by (simp add: thread_step_def adv)
  from host_step_works [OF step R(8,6)] obtain q' new where
    w: "advance p t ql = Some (p1, t1, q', new)" "feeds C kb s' B ha' fl' ob q'"
      "outbound_queue s' = map (Pair (PStr B)) (oa @ new)" "same_host a' s'" by auto
  have eq: "p1 = p'" "t1 = t'" "q' = ql'" "new = out" using w(1) assms(2) by simp_all
  have "host_step C B ((p, t), a', ha') fl' ((p1, t1), s', ha') fl' []" by (rule host_step.works [OF step])
  from net_step.left [OF this, where A = A and k = k' and fr = fr'] have
    "net_step C A B (((p, t), a', ha'), k', fl', fr') (((p', t'), s', ha'), k', fl', fr')"
    by (simp add: frames_for_address eq)
  with run have "(net_step C A B)\<^sup>*\<^sup>* n (((p', t'), s', ha'), k', fl', fr')" by (rule rtranclp.rtrancl_into_rtrancl)
  moreover have "related C A B ka kb (((p', t'), s', ha'), k', fl', fr') ((p', t'), r, ql', qr @ out)"
    unfolding k R(1) using R(2-5) w(4) same_host_knows [OF w(4)]
    by (intro relatedI [OF _ _ _ _ w(3) [unfolded eq] R(7) w(2) [unfolded eq] feeds_more [OF R(9)]]) (simp_all add: same_host_def)
  ultimately show ?thesis by blast
qed

lemma net_step_swap: "net_step C A B n n' \<Longrightarrow> net_step C B A (net_swap n) (net_swap n')"
  by (induction rule: net_step.induct) (auto simp: net_swap_def intro: net_step.intros)

lemma session_step_realised:
  assumes "sstep c d" "related C A B ka kb n c" "signatures_ok C" "carriable_session C A B ka kb c"
  shows "\<exists>n'. (net_step C A B)\<^sup>*\<^sup>* n n' \<and> related C A B ka kb n' d"
  using assms(1)
proof (cases rule: sstep.cases)
  case (left p t ql p' t' ql' out r u qr)
  from left_realised [OF assms(2) [unfolded left(1)] left(3) assms(3) assms(4) [unfolded left(1)]]
  show ?thesis unfolding left(2) .
next
  case (right r u qr r' u' qr' out p t ql)
  have mirror: "session_swap c = ((r, u), (p, t), qr, ql)" "session_swap d = ((r', u'), (p, t), qr', ql @ out)"
    by (simp_all add: right(1,2) session_swap_def)
  from left_realised [OF related_swap [OF assms(2), unfolded mirror(1)] right(3) assms(3) carriable_swap [OF assms(4), unfolded mirror(1)]]
  obtain n' where n': "(net_step C B A)\<^sup>*\<^sup>* (net_swap n) n'" "related C B A kb ka n' (session_swap d)" unfolding mirror(2) by blast
  have "(net_step C A B)\<^sup>*\<^sup>* (net_swap (net_swap n)) (net_swap n')"
    using n'(1) by (induction rule: rtranclp_induct) (auto intro: rtranclp.rtrancl_into_rtrancl net_step_swap)
  with related_swap [OF n'(2)] show ?thesis unfolding swap_swap by blast
qed

lemma session_realised:
  assumes "sstep\<^sup>*\<^sup>* c d" "related C A B ka kb n c" "signatures_ok C"
    and "\<And>e. sstep\<^sup>*\<^sup>* c e \<Longrightarrow> carriable_session C A B ka kb e"
  shows "\<exists>n'. (net_step C A B)\<^sup>*\<^sup>* n n' \<and> related C A B ka kb n' d"
  using assms(1)
proof (induction rule: rtranclp_induct)
  case base
  show ?case using assms(2) by blast
next
  case (step e d)
  then obtain n1 where n1: "(net_step C A B)\<^sup>*\<^sup>* n n1" "related C A B ka kb n1 e" by blast
  from session_step_realised [OF step(2) n1(2) assms(3) assms(4) [OF step(1)]] obtain n' where
    "(net_step C A B)\<^sup>*\<^sup>* n1 n'" "related C A B ka kb n' d" by blast
  with n1(1) show ?case by (meson rtranclp_trans)
qed

text \<open>Where both threads have returned, nothing is left on the way.\<close>

lemma related_end:
  assumes "related C A B ka kb n (l, r, [], [])"
  shows "\<exists>a b. n = ((l, a, []), (r, b, []), [], []) \<and> message_queue (conn a) = [] \<and> message_queue (conn b) = []
    \<and> outbound_queue a = [] \<and> outbound_queue b = []
    \<and> control_message_queue a B = [] \<and> control_message_queue b A = []"
proof -
  have "hs = [] \<and> ws = [] \<and> out = [] \<and> message_queue (conn s) = [] \<and> control_message_queue s u = []" if "feeds C key s u hs ws out []" for key s u hs ws out
    using that by (elim feedsE) auto
  with assms show ?thesis by (cases n) (auto simp: related_def)
qed

text \<open>
  A session whose order does not matter and that ends can be brought to that end from wherever the
  network is.
\<close>

lemma session_completes:
  assumes "runs p r t u (Ret x) (Ret y)" "related C A B ka kb n ((p, t), (r, u), [], [])" "signatures_ok C"
    and "\<And>d. rstep\<^sup>*\<^sup>* ((p, t), (r, u), [], []) d \<Longrightarrow>
      sstep\<^sup>*\<^sup>* ((p, t), (r, u), [], []) d \<and> carriable_session C A B ka kb d"
    and "(net_step C A B)\<^sup>*\<^sup>* n n'"
  shows "\<exists>a b. (net_step C A B)\<^sup>*\<^sup>* n' (((Ret x, []), a, []), ((Ret y, []), b, []), [], [])
    \<and> message_queue (conn a) = [] \<and> message_queue (conn b) = []
    \<and> outbound_queue a = [] \<and> outbound_queue b = [] \<and> control_message_queue a B = [] \<and> control_message_queue b A = []"
proof -
  let ?c = "((p, t), (r, u), [], [])"
  obtain d where d: "rstep\<^sup>*\<^sup>* ?c d" "related C A B ka kb n' d"
    using network_reaches [OF assms(3,2,5)] assms(4) by blast
  then have "sstep\<^sup>*\<^sup>* ?c d" using assms(4) by blast
  from runs_every_schedule [OF assms(1) _ _ this] have "sstep\<^sup>*\<^sup>* d ((Ret x, []), (Ret y, []), [], [])" by simp
  moreover have "carriable_session C A B ka kb e" if "sstep\<^sup>*\<^sup>* d e" for e
  proof -
    have "rstep\<^sup>*\<^sup>* d e" using that by (induction rule: rtranclp_induct) (auto intro: rtranclp.rtrancl_into_rtrancl rstep.ordered)
    with d(1) show ?thesis using assms(4) by (meson rtranclp_trans)
  qed
  ultimately obtain n'' where "(net_step C A B)\<^sup>*\<^sup>* n' n''" "related C A B ka kb n'' ((Ret x, []), (Ret y, []), [], [])"
    using session_realised [OF _ d(2) assms(3)] by blast
  with related_end [OF this(2)] show ?thesis by blast
qed

section \<open>What a program can send\<close>

text \<open>
  Whatever it is told, the program sends only messages of a kind, and what it returns has a
  property. The values that it draws and that the quantum library gives it are restricted by \<open>V\<close>.
\<close>

primrec tells :: "(int \<Rightarrow> bool) \<Rightarrow> (message \<Rightarrow> bool) \<Rightarrow> ('a \<Rightarrow> bool) \<Rightarrow> 'a proc \<Rightarrow> bool" where
  "tells V Q S (Ret x) = S x"
| "tells V Q S (Raise e) = True"
| "tells V Q S Stuck = True"
| "tells V Q S (Put m p) = (Q m \<and> tells V Q S p)"
| "tells V Q S (Get k) = (\<forall>m. tells V Q S (k m))"
| "tells V Q S (Rand lo hi k) = (\<forall>v. V v \<and> lo \<le> v \<and> v \<le> hi \<longrightarrow> tells V Q S (k v))"
| "tells V Q S (Sample n c k) = (\<forall>js. tells V Q S (k js))"
| "tells V Q S (Quant q k) = ((\<forall>e. tells V Q S (k (Inl e))) \<and> (\<forall>v. V v \<longrightarrow> tells V Q S (k (Inr v))))"

abbreviation says :: "(int \<Rightarrow> bool) \<Rightarrow> (message \<Rightarrow> bool) \<Rightarrow> 'a proc \<Rightarrow> bool" where
  "says V Q \<equiv> tells V Q (\<lambda>_. True)"

lemma tells_bind: "tells V Q S p \<Longrightarrow> (\<And>x. S x \<Longrightarrow> tells V Q T (f x)) \<Longrightarrow> tells V Q T (bind_proc p f)"
  by (induction p) auto

lemma tells_more: "tells V Q S p \<Longrightarrow> (\<And>x. S x \<Longrightarrow> T x) \<Longrightarrow> tells V Q T p"
  by (induction p) auto

named_theorems says_rules \<open>programs whose messages are of a kind\<close>

lemma says_bind [says_rules]: "says V Q p \<Longrightarrow> (\<And>x. tells V Q S (f x)) \<Longrightarrow> tells V Q S (bind_proc p f)"
  by (rule tells_bind)

lemma says_return [says_rules]: "S x \<Longrightarrow> tells V Q S (Ret x)" "tells V Q S (Raise e)"
  by simp_all

lemma says_choice [says_rules]: "(b \<Longrightarrow> tells V Q S p) \<Longrightarrow> (\<not> b \<Longrightarrow> tells V Q S r) \<Longrightarrow> tells V Q S (if b then p else r)"
  by simp

lemma tells_of_res: "(\<And>x. r = Inr x \<Longrightarrow> S x) \<Longrightarrow> tells V Q S (of_res r)"
  by (cases r) simp_all

lemma says_pure [says_rules]:
  "says V Q (of_res r)" "says V Q (quantum q)" "says V Q (data_item m k)" "says V Q (require m k err)"
  "says V Q (wait_for_control_message c)"
  by (auto simp: of_res_def quantum_def data_item_def require_def wait_for_control_message_def
      intro!: says_rules split: sum.split option.split)

lemma says_fold [says_rules]: "(\<And>x s. says V Q (f x s)) \<Longrightarrow> says V Q (fold_proc f xs s)"
  by (induction xs arbitrary: s) (auto intro: says_rules)

lemma says_control [says_rules]:
  "length (me P) \<le> 16 \<Longrightarrow> Q (msg P c d) \<Longrightarrow> says V Q (send_control_message P d c)"
  by (simp add: send_control)

lemma says_exchange [says_rules]:
  "length (me P) \<le> 16 \<Longrightarrow> Q (msg P c d) \<Longrightarrow> says V Q (exchange_messages P d c)"
  by (auto simp: exchange_messages_def intro!: says_rules split: role.split)

text \<open>What is on the way was said by the other side.\<close>

definition answers_ok :: "(int \<Rightarrow> bool) \<Rightarrow> tape \<Rightarrow> bool" where
  "answers_ok V t \<longleftrightarrow> (\<forall>v. Num v \<in> set t \<longrightarrow> V v)"

definition said :: "(int \<Rightarrow> bool) \<Rightarrow> (message \<Rightarrow> bool) \<Rightarrow> (message \<Rightarrow> bool) \<Rightarrow> ('a, 'b) session \<Rightarrow> bool" where
  "said V Q R c = (case c of ((p, t), (r, u), ql, qr) \<Rightarrow>
     says V Q p \<and> says V R r \<and> answers_ok V t \<and> answers_ok V u \<and> (\<forall>m \<in> set ql. R m) \<and> (\<forall>m \<in> set qr. Q m))"

lemma advance_says:
  "advance p t q = Some (p', t', q', out) \<Longrightarrow> says V Q p \<Longrightarrow> answers_ok V t \<Longrightarrow>
    says V Q p' \<and> answers_ok V t' \<and> (\<forall>m \<in> set out. Q m) \<and> set q' \<subseteq> set q"
  by (induction p t q rule: advance.induct) (auto simp: answers_ok_def split: if_splits)

lemma rstep_said: "rstep c d \<Longrightarrow> said V Q R c \<Longrightarrow> said V Q R d"
proof (induction rule: rstep.induct)
  case (ordered c d)
  then show ?case by (cases rule: sstep.cases) (auto simp: said_def dest!: advance_says)
next
  case (swapped ql' ql qr' qr l r)
  from mset_eq_setD [OF swapped(1)] mset_eq_setD [OF swapped(2)] swapped(3) show ?case
    by (cases l; cases r) (simp add: said_def)
qed

lemma rsteps_said: "rstep\<^sup>*\<^sup>* c d \<Longrightarrow> said V Q R c \<Longrightarrow> said V Q R d"
  by (induction rule: rtranclp_induct) (auto intro: rstep_said)

section \<open>Networks that start a session\<close>

definition idle :: "client \<Rightarrow> pystr \<Rightarrow> bool" where
  "idle s u \<longleftrightarrow> message_queue (conn s) = [] \<and> outbound_queue s = [] \<and> control_message_queue s u = []"

lemma related_start:
  assumes "idle a B" "idle b A" "knows C a B (signer_key b) (conn_host (conn b)) (conn_port (conn b))"
    and "knows C b A (signer_key a) (conn_host (conn a)) (conn_port (conn a))"
  shows "related C A B (signer_key a) (signer_key b) ((x, a, []), (y, b, []), [], []) (x, y, [], [])"
  using assms by (intro relatedI [where oa = "[]" and ob = "[]"]) (simp_all add: idle_def feeds_def)

text \<open>A session that has an end: the network can always reach it, and stops nowhere else.\<close>

lemma session_ends:
  assumes "runs p r t u (Ret x) (Ret y)" "related C A B ka kb n ((p, t), (r, u), [], [])" "signatures_ok C"
    and "\<And>d. rstep\<^sup>*\<^sup>* ((p, t), (r, u), [], []) d \<Longrightarrow>
      sstep\<^sup>*\<^sup>* ((p, t), (r, u), [], []) d \<and> carriable_session C A B ka kb d"
    and "(net_step C A B)\<^sup>*\<^sup>* n n'"
  shows "\<exists>a b. (net_step C A B)\<^sup>*\<^sup>* n' (((Ret x, []), a, []), ((Ret y, []), b, []), [], []) \<and> idle a B \<and> idle b A
    \<and> ((\<forall>n''. \<not> net_step C A B n' n'') \<longrightarrow> n' = (((Ret x, []), a, []), ((Ret y, []), b, []), [], []))"
proof -
  from session_completes [OF assms] obtain a b where
    "(net_step C A B)\<^sup>*\<^sup>* n' (((Ret x, []), a, []), ((Ret y, []), b, []), [], [])" "idle a B" "idle b A" by (auto simp: idle_def)
  then show ?thesis by (metis converse_rtranclpE)
qed

text \<open>
  C8. The network implements the session. Whatever the threads of two clients do, in any order,
  with frames that arrive and handlers that run in any order, the state they are in is at any
  time that of a session of the two protocol threads whose messages may overtake each other: no
  message is lost, duplicated, altered or made up between one thread and the other. (For sessions
  whose messages fit into frames.)
\<close>

theorem network_refines_session:
  assumes "signatures_ok C" "related C A B ka kb n c" "(net_step C A B)\<^sup>*\<^sup>* n n'"
    and "\<forall>d. rstep\<^sup>*\<^sup>* c d \<longrightarrow> carriable_session C A B ka kb d"
  shows "\<exists>d. rstep\<^sup>*\<^sup>* c d \<and> related C A B ka kb n' d"
  using network_reaches [OF assms] .

section \<open>Instances\<close>

definition demo_info :: "int \<Rightarrow> dict" where
  "demo_info port = [(str ''connection'', PDict [(str ''host'', PStr (str ''localhost'')), (str ''port'', PInt port)]),
     (str ''pub'', PBytes (lit ''k''))]"

definition demo_alice :: client where
  "demo_alice = demo_client ''Alice'' (demo_info 8001) ''Bob''"

definition demo_bob :: client where
  "demo_bob = (demo_client ''Bob'' (demo_info 8000) ''Alice'')\<lparr>conn := (conn (demo_client ''Bob'' [] ''Alice''))\<lparr>conn_port := PInt 8001\<rparr>\<rparr>"

lemma demo_hosts:
  "signer_key demo_alice = lit ''k''" "signer_key demo_bob = lit ''k''"
  "idle demo_alice (str ''Bob'')" "idle demo_bob (str ''Alice'')"
  "knows demo_crypto demo_alice (str ''Bob'') (lit ''k'') (conn_host (conn demo_bob)) (conn_port (conn demo_bob))"
  "knows demo_crypto demo_bob (str ''Alice'') (lit ''k'') (conn_host (conn demo_alice)) (conn_port (conn demo_alice))"
  "wire_name (str ''Alice'')" "wire_name (str ''Bob'')" "\<forall>d. length (sign demo_crypto (lit ''k'') d) \<le> 4096"
  by (simp_all add: demo_alice_def demo_bob_def demo_client_def idle_def knows_def holds_key_def demo_info_def getter_defs get_user_def
      dict_get_def get_pub_def demo_crypto_def getitem_def dget_def wire_name_def wire_eval sign_def)

text \<open>Alice's thread has one message to send, Bob's waits for it.\<close>

lemma demo_ack_carriable: "carriable demo_crypto (lit ''k'') (str ''Alice'') demo_ack"
proof -
  have "frame_of demo_ack = demo_ack_frame" using demo_ack_sendable(2) by (simp add: frame_of_def)
  then have "signed_as demo_crypto (lit ''k'') demo_ack = demo_signed"
    using demo_signing [of "''Alice''" "[]"] sign_message_dict [OF demo_ack_facts(3) demo_ack_sendable(2), of demo_crypto "demo_core ''Alice'' []"]
    by (simp add: signed_as_def demo_core_def)
  then show ?thesis
    using demo_ack_facts demo_ack_sendable(1) demo_signed_sendable(1) by (simp add: carriable_def demo_ack_def [THEN arg_cong, of msg_class])
qed

theorem network_refines_session_witness:
  "\<exists>n' d. net_step demo_crypto (str ''Alice'') (str ''Bob'')
      (((Put demo_ack (Ret ()), []), demo_alice, []), ((Get (\<lambda>_. Ret ()), []), demo_bob, []), [], []) n'
    \<and> rstep\<^sup>*\<^sup>* ((Put demo_ack (Ret ()), []), (Get (\<lambda>_. Ret ()), []), [], []) d
    \<and> related demo_crypto (str ''Alice'') (str ''Bob'') (lit ''k'') (lit ''k'') n' d"
proof -
  let ?c = "((Put demo_ack (Ret ()), []), (Get (\<lambda>_. Ret ()), []), [], [])"
  let ?n = "(((Put demo_ack (Ret ()), []), demo_alice, []), ((Get (\<lambda>_. Ret ()), []), demo_bob, []), [], [])"
  have start: "related demo_crypto (str ''Alice'') (str ''Bob'') (lit ''k'') (lit ''k'') ?n ?c"
    using related_start [OF demo_hosts(3,4)] demo_hosts(1,2,5,6) by simp
  have start_said: "said (\<lambda>_. True) (\<lambda>m. m = demo_ack) (\<lambda>m. False) ?c" by (simp add: said_def answers_ok_def)
  have ok: "\<forall>d. rstep\<^sup>*\<^sup>* ?c d \<longrightarrow> carriable_session demo_crypto (str ''Alice'') (str ''Bob'') (lit ''k'') (lit ''k'') d"
    using demo_ack_carriable by (auto simp: carriable_session_def said_def dest!: rsteps_said [OF _ start_said] split: prod.splits)
  obtain x s where "thread_step (str ''Bob'') (Put demo_ack (Ret ()), []) demo_alice = Some (x, s)"
    by (simp add: thread_step_def)
  from net_step.left [OF host_step.works [OF this]] obtain n' where
    step: "net_step demo_crypto (str ''Alice'') (str ''Bob'') ?n n'" by blast
  then have "(net_step demo_crypto (str ''Alice'') (str ''Bob''))\<^sup>*\<^sup>* ?n n'" by blast
  from network_refines_session [OF demo_crypto_ok(1) start this ok] step show ?thesis by blast
qed

end
