(* ===== verification/Dense_Network.thy ===== *)
theory Dense_Network
  imports Network
begin

text \<open>
  Superdense coding between two clients on the network: all its messages fit into frames, so the
  session is what the hosts do, and from wherever their threads are it can be brought to its end.
\<close>

section \<open>What the two programs can send\<close>

text \<open>The messages of a party with a single entry: an acknowledgement, the end, the length of the message.\<close>

definition entry :: "party \<Rightarrow> pystr \<Rightarrow> pyval \<Rightarrow> message" where
  "entry P k v = msg P SPDS [(k, v)]"

definition dense_says :: "party \<Rightarrow> nat \<Rightarrow> message \<Rightarrow> bool" where
  "dense_says P n m \<longleftrightarrow> m \<in> {entry P (str ''ack'') (PBool True), entry P (str ''FIN'') (PBool True),
     entry P (str ''ACK'') (PStr (str ''ACK'')), entry P (str ''message_length'') (PInt (int n))}"

lemma dense_says_entries:
  "dense_says P n (msg P SPDS ack)" "dense_says P n (msg P SPDS [(str ''FIN'', PBool True)])"
  "dense_says P n (msg P SPDS [(str ''ACK'', PStr (str ''ACK''))])"
  "dense_says P n (msg P SPDS [(str ''message_length'', PInt (int n))])"
  by (simp_all add: dense_says_def entry_def ack_def)

lemma says_dense:
  assumes "kind P = SUPERDENSE" "length (me P) \<le> 16"
  shows "says V (dense_says P (length bs)) (send_dense P bs)" "says V (dense_says P n) (receive_dense P)"
    "says V (dense_says P n) (follow_protocol P)"
  unfolding send_dense_def send_byte_def send_pair_def receive_dense_def receive_byte_def receive_pair_def
    end_protocol_exchange follow_protocol_answer assms(1) message_type.simps
  using assms(2) by (auto intro!: says_rules dense_says_entries split: prod.split)

section \<open>All of it fits into frames\<close>

lemma length_nat_digits: "length (nat_digits n) \<le> Suc n"
proof (induction n rule: nat_digits.induct)
  case (1 n)
  show ?case
  proof (cases "n < 10")
    case False
    with 1 have "length (nat_digits (n div 10)) \<le> Suc (n div 10)" by simp
    moreover have "Suc (n div 10) \<le> n" using False by linarith
    ultimately show ?thesis using False by (subst nat_digits.simps) simp
  qed (subst nat_digits.simps, simp)
qed

text \<open>Entries whose JSON text is short; two of them, and a signature, stay below the length that a frame can state.\<close>

definition fits_entry :: "pystr \<times> pyval \<Rightarrow> bool" where
  "fits_entry e \<longleftrightarrow> fst e \<noteq> str ''sig'' \<and> latin (fst e) \<and> length (fst e) \<le> 1000 \<and> wf_json (snd e)
     \<and> (\<exists>t. dumps (snd e) = Some t \<and> length t \<le> 1000000000)"

lemma those_more: "those xs = Some ys \<Longrightarrow> those (xs @ [Some y]) = Some (ys @ [y])"
  by (induction xs arbitrary: ys) (auto split: option.splits)

lemma entries_dump:
  "list_all fits_entry d \<Longrightarrow> \<exists>ss. those (map dump_pair d) = Some ss \<and> sum_list (map (\<lambda>s. length s + 2) ss) \<le> length d * 1000006006"
proof (induction d)
  case (Cons e d)
  then obtain t ss where t: "dumps (snd e) = Some t" "length t \<le> 1000000000"
    and ss: "those (map dump_pair d) = Some ss" "sum_list (map (\<lambda>s. length s + 2) ss) \<le> length d * 1000006006"
    by (auto simp: fits_entry_def)
  have "length (json_str (fst e)) \<le> 6002" using length_json_str [of "fst e"] Cons.prems by (auto simp: fits_entry_def intro: order_trans)
  with t ss show ?case by (intro exI [of _ "(json_str (fst e) @ [58, 32] @ t) # ss"]) (simp add: dump_pair_def [of e])
qed simp

lemma entries_wf: "list_all fits_entry d \<Longrightarrow> list_all (\<lambda>p. valid_str (fst p) \<and> wf_json (snd p)) d"
  using latin_valid by (auto simp: fits_entry_def list_all_iff)

lemma carriable_dict:
  assumes "me P = own" "wire_name own" "\<forall>d. length (sign C key d) \<le> 4096" "c \<in> {BB84, DQKD, SPDS}"
    and "distinct (map fst d)" "list_all fits_entry d" "length d \<le> 2"
  shows "carriable C key own (msg P c d)"
proof -
  let ?m = "msg P c d"
  let ?sg = "latin1_decode (sign C key (frame_of ?m))" and ?k = "str ''sig''"
  have sig: "valid_str ?k" "length (json_str ?k) \<le> 20"
    by (simp_all add: str_def scalar_def surrogate_def json_str_def esc_char_def)
  have sg: "valid_str ?sg" "length (json_str ?sg) \<le> 24578"
    using latin_valid [OF latin_decode] length_json_str [OF latin_decode, of "sign C key (frame_of ?m)"] assms(3)
    by (auto simp: latin1_decode_def intro: order_trans)
  have new: "?k \<notin> fst ` set d" using assms(6) by (auto simp: fits_entry_def list_all_iff)
  then have signed: "dset ?k (PStr ?sg) d = d @ [(?k, PStr ?sg)]" "map_of d ?k = None"
    by (simp_all add: dset_new map_of_eq_None_iff)
  have wf: "wf_json (PDict d)" "wf_json (PDict (d @ [(?k, PStr ?sg)]))"
    using assms(5) entries_wf [OF assms(6)] new sig(1) sg(1) by (auto simp: wf_dict_def dkeys_def)
  obtain ss where ss: "those (map dump_pair d) = Some ss" "sum_list (map (\<lambda>s. length s + 2) ss) \<le> length d * 1000006006"
    using entries_dump [OF assms(6)] by blast
  have small: "sum_list (map (\<lambda>s. length s + 2) ss) \<le> 2 * 1000006006" using ss(2) assms(7) by linarith
  have "dump_pair (?k, PStr ?sg) = Some (json_str ?k @ [58, 32] @ json_str ?sg)" by (simp add: dump_pair_def)
  then have "those (map dump_pair (d @ [(?k, PStr ?sg)])) = Some (ss @ [json_str ?k @ [58, 32] @ json_str ?sg])"
    using those_more [OF ss(1)] by simp
  from dumped_fits [OF wf(2) this] have "payload_fits (PDict (d @ [(?k, PStr ?sg)]))" using small sig(2) sg(2) by simp
  moreover have "payload_fits (PDict d)" using dumped_fits [OF wf(1) ss(1)] small by simp
  moreover have "msg_data (signed_as C key ?m) = PDict (d @ [(?k, PStr ?sg)])"
    by (simp add: signed_as_def with_sig_def signed(1))
  ultimately show ?thesis
    using wf assms(1,2,4) signed(2) by (auto simp: carriable_def sendable_def signed_as_def with_sig_def msg_def simp del: wf_json.simps)
qed

lemma dense_says_carriable:
  assumes "dense_says P n m" "me P = own" "wire_name own" "\<forall>d. length (sign C key d) \<le> 4096" "n < 1000000000"
  shows "carriable C key own m"
proof -
  have "length (int_repr (int n)) \<le> 1000000000" using length_nat_digits [of n] assms(5) by (simp add: int_repr_def)
  then show ?thesis
    using assms(1) by (auto simp: dense_says_def entry_def intro!: carriable_dict [OF assms(2-4)])
      (simp_all add: fits_entry_def str_def latin_def json_str_def esc_char_def scalar_def surrogate_def)
qed

section \<open>The session on the network\<close>

lemma dense_runs:
  assumes "paired L F" "bind_proc (start_protocol L) (\<lambda>_. send_dense L bs) = Put m p"
  shows "runs p (bind_proc (start_protocol F) (\<lambda>_. receive_dense F)) (message_tape pair_send_tape bs)
    (message_tape pair_receive_tape bs) (Ret ()) (Ret bs)"
  using handshake [OF assms(1), of "\<lambda>_. send_dense L bs" "\<lambda>_. receive_dense F", OF dense_together [OF assms(1), of bs]] assms(2)
  by auto

lemma dense_said:
  assumes "paired L F" "kind L = SUPERDENSE" "bind_proc (start_protocol L) (\<lambda>_. send_dense L bs) = Put m p"
  shows "said (\<lambda>_. True) (dense_says L (length bs)) (dense_says F (length bs))
    ((p, t), (bind_proc (start_protocol F) (\<lambda>_. receive_dense F), u), [], [])"
proof -
  have P: "role_of L = Leader" "role_of F = Follower" "kind F = SUPERDENSE" "length (me L) \<le> 16" "length (me F) \<le> 16"
    using assms(1,2) by (auto simp: paired_def)
  have "says (\<lambda>_. True) (dense_says L (length bs)) p"
    using assms(3) P(1,4) says_dense(1) [OF assms(2) P(4)]
    by (auto simp: start_protocol_def lead_protocol_first send_control intro!: says_rules)
  moreover have "says (\<lambda>_. True) (dense_says F (length bs)) (bind_proc (start_protocol F) (\<lambda>_. receive_dense F))"
    using P says_dense(2,3) [OF P(3,5)] by (auto simp: start_protocol_def intro!: says_rules)
  ultimately show ?thesis by (simp add: said_def answers_ok_def)
qed

lemma dense_carriable:
  assumes "paired L F" "kind L = SUPERDENSE" "bind_proc (start_protocol L) (\<lambda>_. send_dense L bs) = Put m p"
    and "wire_name (me L)" "wire_name (me F)" "length bs < 1000000000"
    and "\<forall>d. length (sign C ka d) \<le> 4096" "\<forall>d. length (sign C kb d) \<le> 4096"
    and "rstep\<^sup>*\<^sup>* ((p, t), (bind_proc (start_protocol F) (\<lambda>_. receive_dense F), u), [], []) d"
  shows "carriable_session C (me L) (me F) ka kb d"
  using rsteps_said [OF assms(9) dense_said [OF assms(1-3)]] dense_says_carriable [OF _ refl assms(4,7,6)]
    dense_says_carriable [OF _ refl assms(5,8,6)]
  by (auto simp: said_def carriable_session_def split: prod.splits)


section \<open>Instances\<close>

definition demo_lead :: party where
  "demo_lead = demo_party SUPERDENSE Leader PNone"

definition demo_follow :: party where
  "demo_follow = demo_party SUPERDENSE Follower PNone"

lemma demo_lead_follow:
  "paired demo_lead demo_follow" "kind demo_lead = SUPERDENSE" "me demo_lead = str ''Alice''" "me demo_follow = str ''Bob''"
  using demo_paired by (simp_all add: demo_lead_def demo_follow_def demo_party_def)


end
