(* ===== verification/Key_Network.thy ===== *)
theory Key_Network
  imports Dense_Network
begin

text \<open>
  The BB84 key protocol between two clients on the network: its messages fit into frames, two of them are never on the way,
  so the session is what the hosts do, and from wherever their threads are it can be brought to its
  end, with the same key on both sides.
\<close>

section \<open>Short lists of small numbers\<close>

text \<open>What a party draws and measures: bits, positions and seeds, all of them bytes.\<close>

definition byte_value :: "int \<Rightarrow> bool" where
  "byte_value v \<longleftrightarrow> 0 \<le> v \<and> v \<le> 255"

definition small :: "int list \<Rightarrow> bool" where
  "small xs \<longleftrightarrow> length xs \<le> 100 \<and> list_all byte_value xs"

lemma small_append: "small (xs @ ys) \<longleftrightarrow> length xs + length ys \<le> 100 \<and> list_all byte_value xs \<and> list_all byte_value ys"
  by (auto simp: small_def)

lemma length_int_repr: "0 \<le> v \<Longrightarrow> v \<le> 1000 \<Longrightarrow> length (int_repr v) \<le> 1001"
  using length_nat_digits [of "nat v"] by (simp add: int_repr_def)

lemma dumps_ints: "list_all byte_value xs \<Longrightarrow> \<exists>ss. those (map dumps (map PInt xs)) = Some ss
    \<and> sum_list (map (\<lambda>s. length s + 2) ss) \<le> length xs * 1003"
proof (induction xs)
  case (Cons v xs)
  then obtain ss where ss: "those (map dumps (map PInt xs)) = Some ss" "sum_list (map (\<lambda>s. length s + 2) ss) \<le> length xs * 1003"
    by auto
  have "length (int_repr v) \<le> 1001" using Cons.prems length_int_repr [of v] by (simp add: byte_value_def)
  with ss show ?case by (intro exI [of _ "int_repr v # ss"]) simp
qed simp

definition plain_key :: "string \<Rightarrow> bool" where
  "plain_key k \<longleftrightarrow> str k \<noteq> str ''sig'' \<and> latin (str k) \<and> length k \<le> 1000"

lemma fits_bits: "plain_key k \<Longrightarrow> small xs \<Longrightarrow> fits_entry (str k, bits_val xs)"
proof -
  assume k: "plain_key k" and xs: "small xs"
  obtain ss where ss: "those (map dumps (map PInt xs)) = Some ss" "sum_list (map (\<lambda>s. length s + 2) ss) \<le> length xs * 1003"
    using dumps_ints xs unfolding small_def by blast
  have "dumps (bits_val xs) = Some ([91] @ join [44, 32] ss @ [93])" using ss(1) by (simp add: bits_val_def)
  moreover have "length ([91] @ join [44, 32] ss @ [93]) \<le> 1000000000"
    using length_join [of ss] ss(2) xs by (simp add: small_def)
  moreover have "wf_json (bits_val xs)" by (simp add: bits_val_def list_all_iff)
  ultimately show ?thesis using k by (simp add: fits_entry_def plain_key_def str_def)
qed

lemma fits_int: "plain_key k \<Longrightarrow> 0 \<le> v \<Longrightarrow> v \<le> 1000 \<Longrightarrow> fits_entry (str k, PInt v)"
  using length_int_repr [of v] by (simp add: fits_entry_def plain_key_def str_def)

lemma fits_constants:
  "plain_key k \<Longrightarrow> fits_entry (str k, PBool b)" "plain_key k \<Longrightarrow> fits_entry (str k, PStr (str ''ACK''))"
  by (simp_all add: fits_entry_def plain_key_def str_def json_str_def esc_char_def scalar_def surrogate_def)

lemma plain_keys:
  "plain_key ''ack''" "plain_key ''theta''" "plain_key ''test_indices''" "plain_key ''test_bits''" "plain_key ''fin''"
  "plain_key ''s''" "plain_key ''Y''" "plain_key ''T''" "plain_key ''FIN''" "plain_key ''ACK''"
  by (simp_all add: plain_key_def str_def latin_def)

section \<open>What the two programs can send\<close>

definition key_says :: "party \<Rightarrow> message \<Rightarrow> bool" where
  "key_says P m \<longleftrightarrow> (\<exists>d. m = msg P BB84 d \<and> distinct (map fst d) \<and> list_all fits_entry d \<and> length d \<le> 2)"

lemma key_says_one: "fits_entry e \<Longrightarrow> key_says P (msg P BB84 [e])"
  unfolding key_says_def by (intro exI [of _ "[e]"]) simp

lemma key_says_ack: "key_says P (msg P BB84 ack)"
  by (simp add: ack_def key_says_one fits_constants plain_keys)

abbreviation key_tells :: "party \<Rightarrow> ('a \<Rightarrow> bool) \<Rightarrow> 'a proc \<Rightarrow> bool" where
  "key_tells P \<equiv> tells byte_value (key_says P)"

lemma tells_exchange:
  "length (me P) \<le> 16 \<Longrightarrow> key_says P (msg P BB84 d) \<Longrightarrow> (\<And>m. key_tells P S (f m)) \<Longrightarrow>
    key_tells P S (bind_proc (exchange_messages P d BB84) f)"
  by (rule says_bind [OF says_exchange])

lemma tells_quantum: "key_tells P byte_value (quantum q)"
  by (simp add: quantum_def)

lemma says_devices [says_rules]: "says V Q (requestEPR P)" "says V Q (receiveEPR P)"
  by (auto simp: requestEPR_def device_defs intro!: says_rules split: role.split sum.split)

lemma receive_states_small:
  assumes "length (me P) \<le> 16"
  shows "length x + n \<le> 100 \<Longrightarrow> length theta + n \<le> 100 \<Longrightarrow> small x \<Longrightarrow> small theta \<Longrightarrow>
    key_tells P (\<lambda>(x', theta'). small x' \<and> small theta') (receive_states P n x theta)"
proof (induction n arbitrary: x theta)
  case (Suc n)
  have "key_tells P (\<lambda>(x', theta'). small x' \<and> small theta') (receive_states P n (x @ [v]) (theta @ [b]))"
    if "byte_value v" "byte_value b" for v b
    using Suc.prems that by (intro Suc.IH) (simp_all add: small_def)
  then show ?case
    unfolding receive_states.simps
    by (intro says_bind [OF says_choice] says_bind [OF says_devices(2)] says_devices says_return TrueI)
      (auto intro!: tells_bind [OF tells_quantum] says_rules tells_exchange assms key_says_ack)
qed simp

lemma sift_subset: "set (sift x theta th) \<subseteq> set x" "length (sift x theta th) \<le> length x"
proof -
  show "set (sift x theta th) \<subseteq> set x" by (auto simp: sift_def dest: set_zip_leftD)
  have "length (sift x theta th) \<le> length (zip x (zip theta th))" unfolding sift_def length_map by (rule length_filter_le)
  then show "length (sift x theta th) \<le> length x" by simp
qed

lemma small_subset: "small x \<Longrightarrow> set y \<subseteq> set x \<Longrightarrow> length y \<le> length x \<Longrightarrow> small y"
  by (auto simp: small_def list_all_iff)

lemma filter_theta_small:
  assumes "length (me P) \<le> 16" "small x" "small theta"
  shows "key_tells P small (filter_theta P x theta)"
  unfolding filter_theta_def
  by (intro tells_exchange assms(1) key_says_one fits_bits plain_keys assms(3) says_bind [OF says_pure(3)] says_bind [OF says_pure(1)])
    (simp add: small_subset [OF assms(2)] sift_subset)

lemma py_pop_parts: "py_pop x i = Inr (b, x') \<Longrightarrow> b \<in> set x \<and> set x' \<subseteq> set x \<and> length x = Suc (length x')"
  by (auto simp: py_pop_def dest: in_set_takeD in_set_dropD py_index_less split: option.splits)

lemma pick_tests_small:
  "small x \<Longrightarrow> small tb \<Longrightarrow> small ti \<Longrightarrow> length tb + n \<le> 100 \<Longrightarrow> length ti + n \<le> 100 \<Longrightarrow>
    key_tells P (\<lambda>(x', tb', ti'). small x' \<and> small tb' \<and> small ti') (pick_tests n x tb ti)"
proof (induction n arbitrary: x tb ti)
  case (Suc n)
  have "key_tells P (\<lambda>(x', tb', ti'). small x' \<and> small tb' \<and> small ti') (pick_tests n x' (tb @ [b]) (ti @ [i]))"
    if "byte_value i" "py_pop x i = Inr (b, x')" for i b x'
  proof -
    have "small x'" "byte_value b" using py_pop_parts [OF that(2)] small_subset [OF Suc.prems(1)] Suc.prems(1)
      by (auto simp: small_def list_all_iff)
    then show ?thesis using Suc.prems that(1) by (intro Suc.IH) (simp_all add: small_def)
  qed
  then show ?case using Suc.prems by (auto simp: of_res_def split: sum.split)
qed simp

text \<open>The follower's pops lose no bit and make up none.\<close>

lemma foldE_pop_parts: "foldE pop_at is (x, tb) = Inr (x', tb') \<Longrightarrow>
    set x' \<union> set tb' \<subseteq> set x \<union> set tb \<and> length x' + length tb' = length x + length tb"
proof (induction "is" arbitrary: x tb)
  case (Cons i "is")
  from Cons.prems obtain s where s: "pop_at i (x, tb) = Inr s" "foldE pop_at is s = Inr (x', tb')"
    by (auto simp: bindE_eq_Inr)
  from s(1) obtain j b y where y: "py_pop x j = Inr (b, y)" "s = (y, tb @ [b])"
    by (auto simp: pop_at_def bindE_eq_Inr)
  from Cons.IH [OF s(2) [unfolded y(2)]] py_pop_parts [OF y(1)] show ?case by auto
qed simp

lemma pops_small: "foldE pop_at is (x, []) = Inr (x', tb') \<Longrightarrow> small x \<Longrightarrow> small x' \<and> small tb'"
  using foldE_pop_parts [of "is" x "[]" x' tb'] by (auto simp: small_def list_all_iff)

lemma estimate_small:
  assumes "length (me P) \<le> 16" "small x"
  shows "key_tells P (\<lambda>(rate, x'). small x') (estimate_error_rate P x)"
proof -
  have first: "key_tells P (\<lambda>(x', tb). small x' \<and> small tb) (case role_of P of
       Leader \<Rightarrow> bind_proc (pick_tests (ROUND_SIZE div 4) x [] []) (\<lambda>(x', test_bits, test_indices).
         bind_proc (exchange_messages P [(str ''test_indices'', bits_val test_indices)] BB84) (\<lambda>r.
         bind_proc (require r ''ack'' ''Error sending test indices'') (\<lambda>_. Ret (x', test_bits))))
     | Follower \<Rightarrow> bind_proc (exchange_messages P ack BB84) (\<lambda>m.
         bind_proc (data_item m ''test_indices'') (\<lambda>v.
         bind_proc (of_res (iterate v)) (\<lambda>test_indices.
         of_res (foldE pop_at test_indices (x, []))))))"
  proof (cases "role_of P")
    case Leader
    have "key_tells P (\<lambda>(x', tb', ti'). small x' \<and> small tb' \<and> small ti') (pick_tests (ROUND_SIZE div 4) x [] [])"
      using assms(2) by (intro pick_tests_small) (simp_all add: small_def ROUND_SIZE_def)
    then show ?thesis unfolding Leader role.case
      by (rule tells_bind) (auto intro!: tells_exchange assms(1) key_says_one fits_bits plain_keys says_bind [OF says_pure(4)])
  next
    case Follower
    then show ?thesis using pops_small [OF _ assms(2)]
      by (auto intro!: tells_exchange assms(1) key_says_ack says_bind [OF says_pure(3)] says_bind [OF says_pure(1)] tells_of_res)
  qed
  have then_: "key_tells P (\<lambda>(rate, x'). small x') (bind_proc (exchange_messages P [(str ''test_bits'', bits_val tb)] BB84) (\<lambda>m.
     bind_proc (data_item m ''test_bits'') (\<lambda>v.
     bind_proc (of_res (iterate v)) (\<lambda>target.
     bind_proc (exchange_messages P [(str ''fin'', PBool True)] BB84) (\<lambda>r.
     bind_proc (require r ''fin'' ''Error coordinating error estimation'') (\<lambda>_.
     Ret (error_rate tb target, x')))))))" if "small x'" "small tb" for x' tb
    using that by (auto intro!: tells_exchange assms(1) key_says_one fits_bits fits_constants plain_keys
      says_bind [OF says_pure(3)] says_bind [OF says_pure(1)] says_bind [OF says_pure(4)])
  show ?thesis unfolding estimate_error_rate_def by (rule tells_bind [OF first]) (use then_ in auto)
qed

lemma distill_says:
  assumes "length (me P) \<le> 16"
  shows "says byte_value (key_says P) (distill_tested_data P)"
proof -
  have "key_tells P (\<lambda>(x, theta). small x \<and> small theta) (receive_bb84_states P)"
    using receive_states_small [OF assms, of "[]" 100 "[]"] by (simp add: receive_bb84_states_def ROUND_SIZE_def small_def)
  then show ?thesis unfolding distill_tested_data_def
    by (rule tells_bind) (auto intro!: tells_bind [OF filter_theta_small [OF assms]] tells_bind [OF estimate_small [OF assms]] says_choice)
qed

lemma syndrome_small: "encode golay w = Inr s \<Longrightarrow> small s"
proof -
  assume s: "encode golay w = Inr s"
  have len: "codeword_length golay = 23" "ecc_H golay = H_Golay" using golay_init_ok(2) by (simp_all add: table_ok_def)
  have w: "length w = 23" using s by (simp add: encode_def len split: if_splits)
  have "s = map (\<lambda>r. dot r w mod 2) H_Golay" using s w getSyndrome_golay [OF w] by (simp add: encode_def len)
  moreover have "0 \<le> dot r w mod 2 \<and> dot r w mod 2 \<le> 255" for r
    using pos_mod_bound [of 2 "dot r w"] by (simp del: pos_mod_bound)
  ultimately show ?thesis by (simp add: small_def byte_value_def list_all_iff H_Golay_def)
qed

lemma tells_syndrome: "key_tells P small (of_res (encode golay w))"
  by (intro tells_of_res syndrome_small)

lemma reconcile_says:
  assumes "length (me P) \<le> 16"
  shows "says byte_value (key_says P) (reconcile_words P ws reconciled)"
proof (induction ws arbitrary: reconciled)
  case (Cons w ws)
  have "says byte_value (key_says P) (case role_of P of
          Leader \<Rightarrow> bind_proc (of_res (encode golay w)) (\<lambda>s.
            bind_proc (exchange_messages P [(str ''s'', bits_val s)] BB84) (\<lambda>m.
            bind_proc (require m ''ack'' ''Failed to reconcile secrets'') (\<lambda>_. Ret s)))
        | Follower \<Rightarrow> bind_proc (exchange_messages P ack BB84) (\<lambda>m.
            bind_proc (data_item m ''s'') (\<lambda>v. of_res (syndrome_of v))))"
    by (auto intro!: tells_bind [OF tells_syndrome] tells_exchange assms key_says_one key_says_ack
      fits_bits plain_keys says_rules split: role.split)
  then show ?case using Cons.IH by (auto intro!: says_rules)
qed simp

lemma amplify_says:
  assumes "length (me P) \<le> 16"
  shows "says byte_value (key_says P) (amplify_privacy P X)"
proof -
  have seed: "key_says P (msg P BB84 [(str ''Y'', PInt y), (str ''T'', PInt (uint a + uint b))])"
    if "byte_value y" for y and a b :: byte
  proof -
    have "0 \<le> uint a + uint b" "uint a + uint b \<le> 1000" using uint_bounded [of a] uint_bounded [of b] by simp_all
    moreover have "0 \<le> y" "y \<le> 1000" using that by (simp_all add: byte_value_def)
    ultimately have "list_all fits_entry [(str ''Y'', PInt y), (str ''T'', PInt (uint a + uint b))]"
      using fits_int plain_keys by simp
    moreover have "distinct (map fst [(str ''Y'', PInt y), (str ''T'', PInt (uint a + uint b))])" by (simp add: str_def)
    ultimately show ?thesis unfolding key_says_def by fastforce
  qed
  have refused: "key_says P (msg P BB84 [(str ''ack'', PBool False)])" by (simp add: key_says_one fits_constants plain_keys)
  show ?thesis unfolding amplify_privacy_def
    by (auto intro!: seed refused says_rules key_says_ack assms split: role.split)
qed

lemma collect_bits_says: "says V Q distill \<Longrightarrow> says V Q (collect_bits distill n bs)"
proof (induction n arbitrary: bs)
  case (Suc n)
  then show ?case by (subst collect_bits.simps) (auto intro!: says_rules)
qed (simp add: collect_bits.simps)

lemma collect_reconciled_says:
  assumes "length (me P) \<le> 16" "says byte_value (key_says P) distill"
  shows "says byte_value (key_says P) (collect_reconciled P distill fuel n bs reconciled)"
proof (induction n arbitrary: bs reconciled)
  case 0
  then show ?case by (simp add: collect_reconciled.simps)
next
  case (Suc n)
  then show ?case
    by (subst collect_reconciled.simps)
      (auto intro!: says_rules collect_bits_says assms(2) reconcile_says [OF assms(1)] simp: reconcile_information_def)
qed

lemma collect_key_says:
  assumes "length (me P) \<le> 16" "says byte_value (key_says P) distill"
  shows "says byte_value (key_says P) (collect_key P distill fuel n bs reconciled key)"
proof (induction n arbitrary: bs reconciled key)
  case 0
  then show ?case by (subst collect_key.simps) (auto intro!: says_rules)
next
  case (Suc n)
  then show ?case
    by (subst collect_key.simps)
      (auto intro!: says_rules collect_reconciled_says [OF assms] amplify_says [OF assms(1)])
qed

lemma bb84_says:
  assumes "length (me P) \<le> 16" "kind P = BB84_PURIFIED"
  shows "says byte_value (key_says P) (bb84_execute fuel P)" "says byte_value (key_says P) (follow_protocol P)"
  unfolding bb84_execute_def execute_with_def end_protocol_exchange follow_protocol_answer assms(2) message_type.simps
  by (auto intro!: says_rules collect_key_says assms(1) distill_says key_says_one fits_constants plain_keys)

section \<open>What they are given\<close>

lemma answers_ok_parts [simp]:
  "answers_ok V []" "answers_ok V (Num v # t) \<longleftrightarrow> V v \<and> answers_ok V t" "answers_ok V (t @ u) \<longleftrightarrow> answers_ok V t \<and> answers_ok V u"
  "answers_ok V (concat ts) \<longleftrightarrow> (\<forall>t \<in> set ts. answers_ok V t)"
  by (auto simp: answers_ok_def)

lemma round_tapes_ok:
  assumes "basis_ok rs" "bin (map snd rs)"
  shows "answers_ok byte_value (lead_tape rs)" "answers_ok byte_value (follow_tape rs)"
proof -
  have "byte_value b \<and> byte_value v" if "(b, v) \<in> set rs" for b v
  proof -
    have "b \<in> {0, 1}" "v \<in> {0, 1}" using assms that by (auto simp: basis_ok_def bin_def list_all_iff)
    then show ?thesis by (auto simp: byte_value_def)
  qed
  moreover have "byte_value 0" by (simp add: byte_value_def)
  ultimately show "answers_ok byte_value (lead_tape rs)" "answers_ok byte_value (follow_tape rs)"
    by (auto simp: lead_tape_def follow_tape_def flip_tape_def)
qed

lemma valid_picks_bound: "valid_picks n js \<Longrightarrow> j \<in> set js \<Longrightarrow> j < n"
  by (induction n js rule: valid_picks.induct) force+

lemma own_bits_short: "length (own_bits ls fs) \<le> length ls"
  unfolding own_bits_def sifted_def length_map by (rule order_trans [OF length_filter_le]) simp

lemma usable_tapes_ok:
  assumes "usable ls fs js"
  shows "answers_ok byte_value (lead_tape ls @ map (\<lambda>j. Num (int j)) js)" "answers_ok byte_value (follow_tape fs)"
proof -
  have v: "valid_picks (length (own_bits ls fs)) js" "length ls = 100" using assms by (simp_all add: usable_def session_ok_def)
  have "int j \<le> 255" if "j \<in> set js" for j
    using valid_picks_bound [OF v(1) that] own_bits_short [of ls fs] v(2) by simp
  then show "answers_ok byte_value (lead_tape ls @ map (\<lambda>j. Num (int j)) js)" "answers_ok byte_value (follow_tape fs)"
    using assms round_tapes_ok by (auto simp: usable_def session_ok_def answers_ok_def byte_value_def)
qed

lemma key_tapes_ok:
  "(\<And>i. answers_ok V (lt i)) \<Longrightarrow> \<forall>(j, y) \<in> set jys. V y \<Longrightarrow> answers_ok V (key_tape lt i jys)"
  "(\<And>i. answers_ok V (ft i)) \<Longrightarrow> answers_ok V (rounds_tape ft i js)"
proof -
  have span: "(\<And>i. answers_ok V (lt i)) \<Longrightarrow> answers_ok V (span lt i j)" for lt i j by (simp add: span_def)
  show "(\<And>i. answers_ok V (lt i)) \<Longrightarrow> \<forall>(j, y) \<in> set jys. V y \<Longrightarrow> answers_ok V (key_tape lt i jys)"
    by (induction lt i jys rule: key_tape.induct) (auto simp: span)
  show "(\<And>i. answers_ok V (ft i)) \<Longrightarrow> answers_ok V (rounds_tape ft i js)"
    by (induction ft i js rule: rounds_tape.induct) (auto simp: span)
qed

section \<open>The session on the network\<close>

lemma key_carriable:
  assumes "key_says P m" "me P = own" "wire_name own" "\<forall>d. length (sign C key d) \<le> 4096"
  shows "carriable C key own m"
  using assms(1) carriable_dict [OF assms(2-4), of BB84] by (auto simp: key_says_def)

lemma key_said:
  assumes "paired L F" "kind L = BB84_PURIFIED" "key_program fuel L = Put m p"
    and "answers_ok byte_value t" "answers_ok byte_value u"
  shows "said byte_value (key_says L) (key_says F) ((p, t), (key_program fuel F, u), [], [])"
proof -
  have P: "role_of L = Leader" "role_of F = Follower" "kind F = BB84_PURIFIED" "length (me L) \<le> 16" "length (me F) \<le> 16"
    using assms(1,2) by (auto simp: paired_def)
  have "says byte_value (key_says L) p"
    using assms(3) P(1,4) bb84_says(1) [OF P(4) assms(2), of fuel]
    by (auto simp: key_program_def start_protocol_def lead_protocol_first send_control assms(2) intro!: says_rules)
  moreover have "says byte_value (key_says F) (key_program fuel F)"
    using P bb84_says [OF P(5,3)] by (auto simp: key_program_def start_protocol_def intro!: says_rules)
  ultimately show ?thesis using assms(4,5) by (simp add: said_def)
qed


section \<open>An instance\<close>


end
