(* ===== verification/Examples.thy ===== *)
theory Examples
  imports First_Chat Dense_Session Lookup Server_Run
begin

text \<open>
  The programs \<^verbatim>\<open>examples/bb84_message.py\<close> and \<^verbatim>\<open>examples/superdense_message.py\<close>: each makes the registry and two clients in one
  process, lets one client send to the other and wait for the answer, and prints what arrives. The
  theorems run them from end to end: lookup, key or superdense session, signed frames, history.
\<close>

section \<open>The programs\<close>

text \<open>
  The loop that asks for a client's history until there is one. While it sleeps the other
  threads go on: the argument lists the client's states at the turns of the loop. If they are used up the
  loop is still waiting.
\<close>

fun await_history :: "crypto \<Rightarrow> client list \<Rightarrow> history option res" where
  "await_history C [] = Inr None"
| "await_history C (s # ts) = bindE (fst (getMessageHistory C s)) (\<lambda>messages.
     if messages \<noteq> [] then Inr (Some messages) else await_history C ts)"

text \<open>The states of the two clients when the program comes to use them, and the surroundings of its calls.\<close>

record meanwhile =
  alice_sends :: client
  alice_world :: world
  bob_polls :: "client list"
  bob_sends :: client
  bob_world :: world
  alice_polls :: "client list"

text \<open>
  The state of the program is what it has printed: the histories (with what \<open>format\<close> makes of
  them). The answer is whether it has come to its end.
\<close>

definition print_history :: "crypto \<Rightarrow> client list \<Rightarrow> (history list, bool) step" where
  "print_history C ts = andThen (lift (await_history C ts)) (\<lambda>r. case r of
     None \<Rightarrow> ret False
   | Some messages \<Rightarrow> andThen (modifies (\<lambda>printed. printed @ [messages])) (\<lambda>_. ret True))"

definition message_example ::
  "crypto \<Rightarrow> dict \<Rightarrow> (pystr \<Rightarrow> bytes) \<Rightarrow> (pyval \<Rightarrow> pyval \<Rightarrow> pyexn option) \<Rightarrow>
   (world \<Rightarrow> pyval \<Rightarrow> pystr \<Rightarrow> (unit client_ext, unit) op) \<Rightarrow> pystr \<Rightarrow> pystr \<Rightarrow> meanwhile \<Rightarrow> (history list, bool) step" where
  "message_example C base keys route send message reply M =
     andThen (lift (server_init C base (str ''Eve'') (keys (str ''Eve'')) False route)) (\<lambda>root.
     andThen (lift (client_init C base (str ''Alice'') (keys (str ''Alice'')) False route)) (\<lambda>alice_client.
     andThen (lift (client_init C base (str ''Bob'') (keys (str ''Bob'')) False route)) (\<lambda>bob_client.
     andThen (lift (fst (send (alice_world M) (PStr (str ''Bob'')) message (alice_sends M)))) (\<lambda>_.
     andThen (print_history C (bob_polls M)) (\<lambda>got.
     if got then
       andThen (lift (fst (send (bob_world M) (PStr (str ''Alice'')) reply (bob_sends M)))) (\<lambda>_.
       print_history C (alice_polls M))
     else ret False)))))"

definition bb84_message_main ::
  "crypto \<Rightarrow> dict \<Rightarrow> (pystr \<Rightarrow> bytes) \<Rightarrow> (pyval \<Rightarrow> pyval \<Rightarrow> pyexn option) \<Rightarrow> meanwhile \<Rightarrow> (history list, bool) step" where
  "bb84_message_main C base keys route =
     message_example C base keys route (sendQChatMessage C) (str ''Hello!'') (str ''Hello to you!'')"

definition superdense_message_main ::
  "crypto \<Rightarrow> dict \<Rightarrow> (pystr \<Rightarrow> bytes) \<Rightarrow> (pyval \<Rightarrow> pyval \<Rightarrow> pyexn option) \<Rightarrow> meanwhile \<Rightarrow> (history list, bool) step" where
  "superdense_message_main C base keys route =
     message_example C base keys route (sendSuperDenseMessage C) (str ''Hello!'') (str ''Hello to you too!'')"

section \<open>Their runs\<close>

text \<open>When the hosts can be made, both calls return, and each history is there at the second look.\<close>

lemma example_runs:
  assumes "server_init C base (str ''Eve'') (keys (str ''Eve'')) False route = Inr registry"
    and "client_init C base (str ''Alice'') (keys (str ''Alice'')) False route = Inr alice"
    and "client_init C base (str ''Bob'') (keys (str ''Bob'')) False route = Inr bob"
    and "send w (PStr (str ''Bob'')) message a = (Inr (), a')" "send w' (PStr (str ''Alice'')) reply b = (Inr (), b')"
    and "getMessageHistory C b0 = (Inr [], b0')" "getMessageHistory C b1 = (Inr h, b1')" "h \<noteq> []"
    and "getMessageHistory C a0 = (Inr [], a0')" "getMessageHistory C a1 = (Inr h', a1')" "h' \<noteq> []"
  shows "message_example C base keys route send message reply \<lparr>alice_sends = a, alice_world = w, bob_polls = [b0, b1],
      bob_sends = b, bob_world = w', alice_polls = [a0, a1]\<rparr> printed = (Inr True, printed @ [h, h'])"
  using assms by (simp add: message_example_def print_history_def step_simps)

lemma empty_history: "mailbox s = mailbox_init \<Longrightarrow> fst (getMessageHistory C s) = Inr []"
  by (simp add: getMessageHistory_def popMessages_def mailbox_init_def)

lemma empty_look: "mailbox s = mailbox_init \<Longrightarrow> \<exists>s'. getMessageHistory C s = (Inr [], s')"
  using empty_history by (metis prod.collapse)

text \<open>The lookup of an unknown peer comes first, on both sides.\<close>

lemma chat_after_lookup:
  assumes "\<not> hasUser (userDB s) (PStr u)" "requestUserInfo C (turns w) (PStr u) s = (Inr (), s')" "hasUser (userDB s') (PStr u)"
  shows "sendQChatMessage C w (PStr u) plain s = sendQChatMessage C w (PStr u) plain s'"
    and "sendSuperDenseMessage C w (PStr u) plain s = sendSuperDenseMessage C w (PStr u) plain s'"
  using assms by (simp_all add: sendQChatMessage_def sendSuperDenseMessage_def has_user_PStr step_simps)

lemma handled_after_lookup:
  assumes "signatures_ok C" "msg_verify (msg_class m)" "msg_data m = PDict d" "map_of d (str ''sig'') = None"
    and "encode_message m = Inr b" "holds_key C (userDB s') (msg_sender m) key"
    and "\<not> hasUser (userDB s) (PStr (msg_sender m))" "requestUserInfo C ts (PStr (msg_sender m)) s = (Inr (), s')"
  shows "process_message C proc_map ts (with_sig C key b m) s = dispatch proc_map m s'"
proof -
  have "hasUser (userDB s') (PStr (msg_sender m))" using assms(6) getPublicKey_known by (auto simp: holds_key_def)
  then have "process_message C proc_map ts (with_sig C key b m) s = process_message C proc_map ts (with_sig C key b m) s'"
    using assms(2,7,8) by (simp add: process_verified know_sender_def has_user_PStr step_simps)
  then show ?thesis using signed_dispatch_held [OF assms(1-6)] by simp
qed

text \<open>A host that can reach a user has the user in its database.\<close>

lemma reaches_known: "reaches s own u \<Longrightarrow> hasUser (userDB s) (PStr u)"
  by (auto simp: reaches_def hasUser_def dest: getConnectionInfo_known)

definition bb84_start_frame :: bytes where
  "bb84_start_frame = lit ''PTCL'' @ replicate 11 0 @ lit ''Alice'' @ [0, 0, 0, 41] @
     map (\<lambda>b. if b = 42 then 34 else b) (lit ''{*name*: *BB84_PURIFIED*, *key_size*: 16}'')"

lemma bb84_start_frame: "encode_message (start_message (str ''Alice'')) = Inr bb84_start_frame"
  by (simp add: start_message_def bb84_start_frame_def wire_eval)

lemma start_message_simps [simp]:
  "msg_class (start_message u) = PTCL" "msg_verify PTCL" "msg_sender (start_message u) = u"
  "msg_data (start_message u) = PDict [(str ''name'', PStr (str ''BB84_PURIFIED'')), (str ''key_size'', PInt 16)]"
  "map_of [(str ''name'', PStr (str ''BB84_PURIFIED'')), (str ''key_size'', PInt 16)] (str ''sig'') = None"
  by (simp_all add: start_message_def str_def msg_verify_def)

text \<open>An idle client under its own name that can talk to a peer: it can reach it and verify what it signs.\<close>

definition can_talk :: "crypto \<Rightarrow> client \<Rightarrow> pystr \<Rightarrow> pystr \<Rightarrow> bytes \<Rightarrow> pyval \<Rightarrow> pyval \<Rightarrow> bool" where
  "can_talk C s own u key host port \<longleftrightarrow> core_name s = own \<and> reaches s own u \<and> holds_key C (userDB s) u key
     \<and> (\<exists>target. getConnectionInfo (userDB s) (PStr u) = Inr target \<and> getitem target ''host'' = Inr host
        \<and> getitem target ''port'' = Inr port) \<and> conn_route (conn s) host port = None
     \<and> (\<forall>d. length (sign C (signer_key s) d) \<le> 4096) \<and> message_queue (conn s) = [] \<and> mailbox s = mailbox_init"

lemma example_names:
  "wire_name (str ''Alice'')" "wire_name (str ''Bob'')" "length (str ''Alice'') \<le> 16" "length (str ''Bob'') \<le> 16"
  "latin1_encode (str ''Hello!'') = Inr (lit ''Hello!'')" "latin1_encode (str ''Hello to you!'') = Inr (lit ''Hello to you!'')"
  "latin1_encode (str ''Hello to you too!'') = Inr (lit ''Hello to you too!'')"
  by (simp_all add: wire_name_def wire_eval latin1_encode_def)


lemma dense_start_simps [simp]:
  "msg_class (dense_start u) = PTCL" "msg_sender (dense_start u) = u" "msg_data (dense_start u) = PDict [(str ''name'', PStr (str ''SUPERDENSE''))]"
  "map_of [(str ''name'', PStr (str ''SUPERDENSE''))] (str ''sig'') = None"
  by (simp_all add: dense_start_def str_def)

lemma dense_start_frames:
  "\<exists>b. encode_message (dense_start (str ''Alice'')) = Inr b" "\<exists>b. encode_message (dense_start (str ''Bob'')) = Inr b"
  by (simp_all add: dense_start_def wire_eval)

lemma reaches_after:
  "reaches (sent_by s to ns) own u = reaches s own u" "reaches (got_dense s v ns data) own u = reaches s own u"
  "reaches (s\<lparr>mailbox := mb\<rparr>) own u = reaches s own u"
  by (simp_all add: reaches_def sent_by_def got_dense_def)

lemma got_dense_simps [simp]:
  "userDB (got_dense s v ns data) = userDB s" "mailbox (got_dense s v ns data) = storeMessage (dense_mail v data) (mailbox s)"
  "userDB (sent_by s to ns) = userDB s"
  by (simp_all add: got_dense_def sent_by_def)

definition dense_world :: "client list \<Rightarrow> message list \<Rightarrow> tape \<Rightarrow> world" where
  "dense_world ts ms t = \<lparr>turns = ts, arrivals = ms, tape_of = t, nonce_of = [], fuel_of = 0\<rparr>"


section \<open>Instances\<close>

definition demo_trio :: dict where
  "demo_trio = (let place = (\<lambda>port. [(str ''host'', PStr (str ''localhost'')), (str ''port'', PInt port)]);
      client = (\<lambda>port. PDict ((str ''root'', PStr (str ''Eve'')) # place port)) in
    [(str ''Eve'', PDict (place 8004)), (str ''Alice'', client 8000), (str ''Bob'', client 8001)])"

lemma demo_trio_made:
  "\<exists>s. server_init demo_crypto demo_trio (str ''Eve'') (lit ''k'') False (\<lambda>_ _. None) = Inr s"
  "\<exists>s. client_init demo_crypto demo_trio (str ''Alice'') (lit ''k'') False (\<lambda>_ _. None) = Inr s"
  "\<exists>s. client_init demo_crypto demo_trio (str ''Bob'') (lit ''k'') False (\<lambda>_ _. None) = Inr s"
  by (simp_all add: server_init_def client_init_def core_init_def load_server_config_def demo_trio_def getitem_def dget_def Let_def
      dict_get_def str_def)

definition demo_peer :: "string \<Rightarrow> string \<Rightarrow> client" where
  "demo_peer own other = demo_client own demo_contact other"

lemma demo_can_talk:
  "can_talk demo_crypto (demo_peer own other) (str own) (str other) (lit ''k'') (PStr (str ''localhost'')) (PInt 8001)"
proof -
  have "length (sign demo_crypto (lit ''k'') d) \<le> 4096" for d by (simp add: sign_def demo_crypto_def lit_def)
  then show ?thesis using demo_contact_facts(1) [of own other]
    by (simp add: can_talk_def demo_peer_def demo_client_facts demo_contact_facts demo_chat(4,5))
qed

definition demo_asks :: "string \<Rightarrow> string \<Rightarrow> message" where
  "demo_asks own other = request_for (demo_peer own other) (str other)"

lemma demo_asks:
  assumes "(own, other) \<in> {(''Alice'', ''Bob''), (''Bob'', ''Alice'')}"
  shows "\<exists>b frame. encode_message (demo_asks own other) = Inr b \<and> encode_message (with_sig demo_crypto (lit ''k'') b (demo_asks own other)) = Inr frame"
proof -
  have parts: "demo_asks own other = \<lparr>msg_class = GETU, msg_sender = str own, msg_data = PDict [(str ''user'', PStr (str other)),
      (str ''connection'', PDict [(str ''host'', PStr (str ''localhost'')), (str ''port'', PInt 8000)])]\<rparr>"
    by (simp add: demo_asks_def request_for_def address_def demo_peer_def demo_client_def)
  have signed: "sendable (with_sig demo_crypto (lit ''k'') b (demo_asks own other))"
    if "own = ''Alice'' \<and> other = ''Bob'' \<and> length b = 90 \<or> own = ''Bob'' \<and> other = ''Alice'' \<and> length b = 92" for b
    using that unfolding parts
    by (elim disjE conjE; simp add: with_sig_def sign_def demo_crypto_def sendable_def wire_name_def
      payload_fits_def wf_dict_def dkeys_def dset_def latin1_decode_def wire_eval)
  obtain b where b: "encode_message (demo_asks own other) = Inr b"
    "own = ''Alice'' \<and> other = ''Bob'' \<and> length b = 90 \<or> own = ''Bob'' \<and> other = ''Alice'' \<and> length b = 92"
    using assms unfolding parts by (auto simp: wire_eval)
  then show ?thesis using signed [OF b(2)] b(1) sendable_encodes by blast
qed

lemma demo_looks_up:
  assumes "(own, other) \<in> {(''Alice'', ''Bob''), (''Bob'', ''Alice'')}"
  shows "requestUserInfo demo_crypto [demo_peer own other] (PStr (str other)) ((demo_peer own other)\<lparr>userDB := []\<rparr>)
    = (Inr (), demo_peer own other)"
proof -
  let ?s = "(demo_peer own other)\<lparr>userDB := []\<rparr>"
  have s: "core_name ?s = str own" "signer_key ?s = lit ''k''" "getitem (root_config ?s) ''host'' = Inr (PStr (str ''root''))"
    "getitem (root_config ?s) ''port'' = Inr (PInt 8004)" "conn_route (conn ?s) h p = None" "userDB ?s = []" for h p
    by (simp_all add: demo_peer_def demo_client_def getitem_def dget_def)
  have names: "length (str own) \<le> 16" "str other \<noteq> str ''*''" using assms by (auto simp: str_def)
  have asks: "request_for ?s (str other) = demo_asks own other" by (simp add: demo_asks_def request_for_def address_def)
  obtain b frame where f: "encode_message (demo_asks own other) = Inr b"
    "encode_message (with_sig demo_crypto (lit ''k'') b (demo_asks own other)) = Inr frame" using demo_asks [OF assms] by blast
  have "hasUser (userDB (demo_peer own other)) (PStr (str other))" "\<not> hasUser [] (PStr (str other))"
    by (simp_all add: demo_peer_def demo_client_facts hasUser_def get_user_def)
  then show ?thesis
    using request_sent [of ?s _ _ "str other" b demo_crypto frame "[demo_peer own other]", unfolded s(1,2) asks, OF names(1) s(3,4,5) names(2) f] s(6)
    by (simp add: has_user_PStr await_user.simps [of _ _ "sent_frame s h p f" for s h p f] await_user.simps [of _ _ "demo_peer own other"])
qed

lemma demo_pair:
  defines "a \<equiv> demo_peer ''Alice'' ''Bob''" and "b \<equiv> demo_peer ''Bob'' ''Alice''"
  shows "signer_key a = lit ''k''" "signer_key b = lit ''k''" "getMessageKey (userDB a) (PStr (str ''Bob'')) = Inr PNone"
    "\<not> hasUser (userDB (a\<lparr>userDB := []\<rparr>)) (PStr (str ''Bob''))" "\<not> hasUser (userDB (b\<lparr>userDB := []\<rparr>)) (PStr (str ''Alice''))"
    "requestUserInfo demo_crypto [a] (PStr (str ''Bob'')) (a\<lparr>userDB := []\<rparr>) = (Inr (), a)"
    "requestUserInfo demo_crypto [b] (PStr (str ''Alice'')) (b\<lparr>userDB := []\<rparr>) = (Inr (), b)"
  unfolding a_def b_def using demo_looks_up
  by (simp_all add: demo_peer_def demo_client_facts demo_contact_facts hasUser_def get_user_def)



end
