(* ===== verification/Rpc_Demo.thy ===== *)
theory Rpc_Demo
  imports Rpc Examples
begin

text \<open>
  The programs of \<^verbatim>\<open>examples/rpc_demo\<close>: \<^verbatim>\<open>start_rpc_servers.py\<close>, which makes the registry, two clients and
  one RPC server for each, and \<^verbatim>\<open>qchat_cli_rpc_client.py\<close>, which reads its command line and runs the dialog of
  one user. The theorems: the servers run until the keyboard's interrupt and are closed then; the
  command line decides between a dialog of two different users and the exit codes.
\<close>

section \<open>The servers\<close>

text \<open>
  \<open>CLIENTS\<close>, and an \<open>RPCServerThread\<close> with the address of its server. A thread that was started is in
  \<open>serve_forever\<close> until \<open>shutdown\<close>. The state of the program is the dictionary \<open>SERVER_THREADS\<close>, the
  class attribute \<open>clients\<close> of the RPC servers, the addresses that have a listening socket, and the lines that were printed.
\<close>

definition CLIENTS :: "(pystr \<times> int) list" where
  "CLIENTS = [(str ''Alice'', 33333), (str ''Bob'', 33334)]"

type_synonym socket_address = "pystr \<times> int"

record rpc_server_thread =
  running :: bool
  server :: socket_address
  serving :: bool

record rpc_demo =
  SERVER_THREADS :: "(pystr \<times> rpc_server_thread) list"
  rpc_server_clients :: rpc_clients
  listening :: "socket_address list"
  printed :: "pystr list"

type_synonym 'a demo_op = "(rpc_demo, 'a) step"

text \<open>\<open>SimpleXMLRPCServer((host, port))\<close> binds its socket; an address in use makes it raise.\<close>

definition make_server :: "socket_address \<Rightarrow> socket_address demo_op" where
  "make_server addr s = (if addr \<in> set (listening s) then (Inl (PyException ''OSError''), s)
     else (Inr addr, s\<lparr>listening := listening s @ [addr]\<rparr>))"

definition init_thread :: "socket_address \<Rightarrow> rpc_server_thread" where
  "init_thread srv = \<lparr>running = True, server = srv, serving = False\<rparr>"

definition run_thread :: "rpc_server_thread \<Rightarrow> rpc_server_thread" where
  "run_thread t = t\<lparr>serving := True\<rparr>"

text \<open>\<open>stop\<close>: \<open>shutdown\<close> ends the loop of the thread, \<open>server_close\<close> frees the address.\<close>

definition stop_thread :: "pystr \<Rightarrow> rpc_server_thread \<Rightarrow> unit demo_op" where
  "stop_thread user t = modifies (\<lambda>s. s\<lparr>SERVER_THREADS := dset user (t\<lparr>serving := False\<rparr>) (SERVER_THREADS s),
     listening := remove1 (server t) (listening s)\<rparr>)"

definition register_instance :: "pystr \<Rightarrow> client \<Rightarrow> unit demo_op" where
  "register_instance user c s = (case rpc_init user c (rpc_server_clients s) of (r, cs) \<Rightarrow> (r, s\<lparr>rpc_server_clients := cs\<rparr>))"

definition start_rpc_server :: "pystr \<Rightarrow> pystr \<Rightarrow> int \<Rightarrow> client \<Rightarrow> unit demo_op" where
  "start_rpc_server user host port client =
     andThen (gets SERVER_THREADS) (\<lambda>threads.
     if user \<notin> set (dkeys threads) then
       andThen (make_server (host, port)) (\<lambda>srv.
       andThen (register_instance user client) (\<lambda>_.
       andThen (modifies (\<lambda>s. s\<lparr>SERVER_THREADS := dset user (init_thread srv) (SERVER_THREADS s)\<rparr>)) (\<lambda>_.
       modifies (\<lambda>s. s\<lparr>SERVER_THREADS := dset user (run_thread (init_thread srv)) (SERVER_THREADS s)\<rparr>))))
     else ret ())"

definition print_line :: "pystr \<Rightarrow> unit demo_op" where
  "print_line t = modifies (\<lambda>s. s\<lparr>printed := printed s @ [t]\<rparr>)"

definition close_rpc_server :: "pystr \<times> rpc_server_thread \<Rightarrow> unit demo_op" where
  "close_rpc_server = (\<lambda>(user, t). andThen (print_line (str ''Closing RPC server for '' @ user)) (\<lambda>_. stop_thread user t))"

text \<open>The part of \<open>main\<close> before it waits, and the part after the keyboard's interrupt, whose answer is the exit code.\<close>

definition demo_servers ::
  "crypto \<Rightarrow> dict \<Rightarrow> (pystr \<Rightarrow> bytes) \<Rightarrow> (pyval \<Rightarrow> pyval \<Rightarrow> pyexn option) \<Rightarrow> unit demo_op" where
  "demo_servers C base keys route =
     andThen (lift (server_init C base (str ''Eve'') (keys (str ''Eve'')) False route)) (\<lambda>root.
     andThen (lift (client_init C base (str ''Alice'') (keys (str ''Alice'')) False route)) (\<lambda>alice_client.
     andThen (lift (client_init C base (str ''Bob'') (keys (str ''Bob'')) False route)) (\<lambda>bob_client.
     andThen (lift (of_option KeyError (map_of CLIENTS (str ''Alice'')))) (\<lambda>port.
     andThen (start_rpc_server (str ''Alice'') (str ''127.0.0.1'') port alice_client) (\<lambda>_.
     andThen (lift (of_option KeyError (map_of CLIENTS (str ''Bob'')))) (\<lambda>port.
     start_rpc_server (str ''Bob'') (str ''127.0.0.1'') port bob_client))))))"

definition demo_interrupted :: "int demo_op" where
  "demo_interrupted =
     andThen (print_line (10 # str ''Keyboard interrupt received, exiting.'')) (\<lambda>_.
     andThen (gets SERVER_THREADS) (\<lambda>threads.
     andThen (for_each close_rpc_server threads) (\<lambda>_. ret 0)))"

definition rpc_servers_main ::
  "crypto \<Rightarrow> dict \<Rightarrow> (pystr \<Rightarrow> bytes) \<Rightarrow> (pyval \<Rightarrow> pyval \<Rightarrow> pyexn option) \<Rightarrow> int demo_op" where
  "rpc_servers_main C base keys route = andThen (demo_servers C base keys route) (\<lambda>_. demo_interrupted)"

section \<open>What the servers' program does\<close>

definition stopped :: "(pystr \<times> rpc_server_thread) list \<Rightarrow> (pystr \<times> rpc_server_thread) list" where
  "stopped ts = map (\<lambda>(u, t). (u, t\<lparr>serving := False\<rparr>)) ts"

definition closed :: "(pystr \<times> rpc_server_thread) list \<Rightarrow> rpc_demo \<Rightarrow> rpc_demo" where
  "closed ts s = s\<lparr>listening := foldl (\<lambda>l x. remove1 (server (snd x)) l) (listening s) ts,
     printed := printed s @ map (\<lambda>x. str ''Closing RPC server for '' @ fst x) ts\<rparr>"

lemma update_here: "u \<notin> fst ` set xs \<Longrightarrow> AList.update u w (xs @ (u, v) # ys) = xs @ (u, w) # ys"
  by (induction xs) auto

text \<open>The loop over the dictionary: the threads before the present one are stopped, the others are not yet.\<close>

lemma close_all:
  "distinct (map fst (done @ ts)) \<Longrightarrow> SERVER_THREADS s = stopped done @ ts \<Longrightarrow>
    for_each close_rpc_server ts s = (Inr (), (closed ts s)\<lparr>SERVER_THREADS := stopped (done @ ts)\<rparr>)"
proof (induction ts arbitrary: "done" s)
  case (Cons x ts)
  obtain u t where x: "x = (u, t)" by (cases x)
  obtain s1 where c: "close_rpc_server x s = (Inr (), s1)" "s1 = s\<lparr>printed := printed s @ [str ''Closing RPC server for '' @ u],
      SERVER_THREADS := dset u (t\<lparr>serving := False\<rparr>) (SERVER_THREADS s), listening := remove1 (server t) (listening s)\<rparr>"
    by (simp add: close_rpc_server_def stop_thread_def print_line_def step_simps x)
  have new: "u \<notin> fst ` set (stopped done)" using Cons.prems(1) x by (force simp: stopped_def)
  have s1: "SERVER_THREADS s1 = stopped (done @ [x]) @ ts"
    using Cons.prems(2) update_here [OF new] by (simp add: c(2) x dset_def stopped_def)
  have "(closed ts s1)\<lparr>SERVER_THREADS := y\<rparr> = (closed (x # ts) s)\<lparr>SERVER_THREADS := y\<rparr>" for y
    by (simp add: c(2) x closed_def)
  then show ?case using Cons.IH [of "done @ [x]" s1] Cons.prems(1) s1 c(1) by simp
qed (simp add: closed_def)

lemma interrupted:
  assumes "distinct (dkeys (SERVER_THREADS s))"
  shows "demo_interrupted s = (Inr 0, (closed (SERVER_THREADS s)
    (s\<lparr>printed := printed s @ [10 # str ''Keyboard interrupt received, exiting.'']\<rparr>))\<lparr>SERVER_THREADS := stopped (SERVER_THREADS s)\<rparr>)"
  using close_all [of "[]" "SERVER_THREADS s" "s\<lparr>printed := printed s @ [10 # str ''Keyboard interrupt received, exiting.'']\<rparr>"] assms
  by (simp add: demo_interrupted_def print_line_def step_simps dkeys_def stopped_def)

lemma registers: "register_instance u c s = (Inr (), s\<lparr>rpc_server_clients := dset u c (rpc_server_clients s)\<rparr>)"
  by (simp add: register_instance_def rpc_init_def ensure_client_for_def step_simps dset_def update_conv')

lemma server_started:
  assumes "u \<notin> set (dkeys (SERVER_THREADS s))" "(host, port) \<notin> set (listening s)"
  shows "start_rpc_server u host port c s = (Inr (), s\<lparr>
    SERVER_THREADS := SERVER_THREADS s @ [(u, run_thread (init_thread (host, port)))],
    rpc_server_clients := dset u c (rpc_server_clients s), listening := listening s @ [(host, port)]\<rparr>)"
proof -
  have new: "u \<notin> fst ` set (SERVER_THREADS s)" using assms(1) by (simp add: dkeys_def)
  show ?thesis using assms update_here [OF new, where ys = "[]"]
    by (simp add: start_rpc_server_def make_server_def step_simps registers dset_def update_new [OF new])
qed

lemma demo_servers_run:
  assumes "server_init C base (str ''Eve'') (keys (str ''Eve'')) False route = Inr registry"
    and "client_init C base (str ''Alice'') (keys (str ''Alice'')) False route = Inr alice"
    and "client_init C base (str ''Bob'') (keys (str ''Bob'')) False route = Inr bob"
    and "SERVER_THREADS s = []" "(str ''127.0.0.1'', 33333) \<notin> set (listening s)"
  defines "here \<equiv> (\<lambda>u port. (str u, run_thread (init_thread (str ''127.0.0.1'', port))))"
    and "s1 \<equiv> s\<lparr>SERVER_THREADS := [(str ''Alice'', run_thread (init_thread (str ''127.0.0.1'', 33333)))],
      rpc_server_clients := dset (str ''Alice'') alice (rpc_server_clients s), listening := listening s @ [(str ''127.0.0.1'', 33333)]\<rparr>"
  shows "demo_servers C base keys route s = (if (str ''127.0.0.1'', 33334) \<in> set (listening s)
    then (Inl (PyException ''OSError''), s1)
    else (Inr (), s1\<lparr>SERVER_THREADS := [here ''Alice'' 33333, here ''Bob'' 33334],
      rpc_server_clients := dset (str ''Bob'') bob (rpc_server_clients s1),
      listening := listening s @ [(str ''127.0.0.1'', 33333), (str ''127.0.0.1'', 33334)]\<rparr>))"
proof -
  have ports: "map_of CLIENTS (str ''Alice'') = Some 33333" "map_of CLIENTS (str ''Bob'') = Some 33334"
    by (simp_all add: CLIENTS_def str_def)
  have first: "start_rpc_server (str ''Alice'') (str ''127.0.0.1'') 33333 alice s = (Inr (), s1)"
    using server_started [of "str ''Alice''" s "str ''127.0.0.1''" 33333 alice] assms(4,5) by (simp add: s1_def dkeys_def)
  have new: "str ''Bob'' \<notin> set (dkeys (SERVER_THREADS s1))" by (simp add: s1_def dkeys_def str_def)
  have second: "start_rpc_server (str ''Bob'') (str ''127.0.0.1'') 33334 bob s1 = (if (str ''127.0.0.1'', 33334) \<in> set (listening s)
      then (Inl (PyException ''OSError''), s1)
      else (Inr (), s1\<lparr>SERVER_THREADS := [here ''Alice'' 33333, here ''Bob'' 33334],
        rpc_server_clients := dset (str ''Bob'') bob (rpc_server_clients s1),
        listening := listening s @ [(str ''127.0.0.1'', 33333), (str ''127.0.0.1'', 33334)]\<rparr>))"
  proof (cases "(str ''127.0.0.1'', 33334 :: int) \<in> set (listening s)")
    case True
    then have taken: "(str ''127.0.0.1'', 33334) \<in> set (listening s1)" by (simp add: s1_def)
    with True new show ?thesis by (simp add: start_rpc_server_def make_server_def step_simps)
  next
    case False
    then have "(str ''127.0.0.1'', 33334) \<notin> set (listening s1)" by (simp add: s1_def)
    from server_started [OF new this, of bob] False show ?thesis by (simp add: s1_def here_def)
  qed
  show ?thesis
    by (simp add: demo_servers_def step_simps assms(1-3) ports of_option_def first second)
qed

text \<open>
  C36. The demo's servers. When the hosts can be made and the two addresses are free, the program, as it waits, serves Alice's client on one
  address and Bob's on the other, and each user's calls reach that user's own client; after the keyboard's
  interrupt every server is closed, no thread serves, the addresses are free again, and the exit code is 0. When Bob's
  address is taken the program ends with the exception instead.
\<close>

theorem rpc_demo_closes:
  assumes "server_init C base (str ''Eve'') (keys (str ''Eve'')) False route = Inr registry"
    and "client_init C base (str ''Alice'') (keys (str ''Alice'')) False route = Inr alice"
    and "client_init C base (str ''Bob'') (keys (str ''Bob'')) False route = Inr bob"
    and "SERVER_THREADS s = []" "(str ''127.0.0.1'', 33333) \<notin> set (listening s)"
  shows "if (str ''127.0.0.1'', 33334) \<in> set (listening s)
    then fst (rpc_servers_main C base keys route s) = Inl (PyException ''OSError'')
    else \<exists>waiting end. demo_servers C base keys route s = (Inr (), waiting)
      \<and> map (\<lambda>(u, t). (u, server t, serving t)) (SERVER_THREADS waiting)
        = [(str ''Alice'', (str ''127.0.0.1'', 33333), True), (str ''Bob'', (str ''127.0.0.1'', 33334), True)]
      \<and> map_of (rpc_server_clients waiting) (str ''Alice'') = Some alice \<and> map_of (rpc_server_clients waiting) (str ''Bob'') = Some bob
      \<and> rpc_servers_main C base keys route s = (Inr 0, end)
      \<and> map (\<lambda>(u, t). (u, serving t)) (SERVER_THREADS end) = [(str ''Alice'', False), (str ''Bob'', False)]
      \<and> listening end = listening s
      \<and> printed end = printed s @ [10 # str ''Keyboard interrupt received, exiting.'',
          str ''Closing RPC server for Alice'', str ''Closing RPC server for Bob'']"
proof (cases "(str ''127.0.0.1'', 33334 :: int) \<in> set (listening s)")
  case True
  then show ?thesis using demo_servers_run [OF assms] by (simp add: rpc_servers_main_def step_simps)
next
  case False
  have names: "str ''Alice'' \<noteq> str ''Bob''" by (simp add: str_def)
  obtain w where w: "demo_servers C base keys route s = (Inr (), w)"
    "SERVER_THREADS w = [(str ''Alice'', run_thread (init_thread (str ''127.0.0.1'', 33333))), (str ''Bob'', run_thread (init_thread (str ''127.0.0.1'', 33334)))]"
    "listening w = listening s @ [(str ''127.0.0.1'', 33333), (str ''127.0.0.1'', 33334)]" "printed w = printed s"
    "map_of (rpc_server_clients w) (str ''Alice'') = Some alice" "map_of (rpc_server_clients w) (str ''Bob'') = Some bob"
    using demo_servers_run [OF assms] False names by (simp add: dset_def update_conv')
  have "distinct (dkeys (SERVER_THREADS w))" using w(2) names by (simp add: dkeys_def)
  note end' = interrupted [OF this]
  show ?thesis
    using False w assms(5) end' names
    by (auto simp: rpc_servers_main_def step_simps closed_def stopped_def run_thread_def init_thread_def remove1_append str_def)
qed

text \<open>In the other case the first server goes on: its thread is not a daemon, so the program stays, and its address is taken.\<close>

theorem rpc_demo_left_serving:
  assumes "server_init C base (str ''Eve'') (keys (str ''Eve'')) False route = Inr registry"
    and "client_init C base (str ''Alice'') (keys (str ''Alice'')) False route = Inr alice"
    and "client_init C base (str ''Bob'') (keys (str ''Bob'')) False route = Inr bob"
    and "SERVER_THREADS s = []" "(str ''127.0.0.1'', 33333) \<notin> set (listening s)" "(str ''127.0.0.1'', 33334) \<in> set (listening s)"
  shows "\<exists>s'. rpc_servers_main C base keys route s = (Inl (PyException ''OSError''), s')
    \<and> map (\<lambda>(u, t). (u, serving t)) (SERVER_THREADS s') = [(str ''Alice'', True)] \<and> (str ''127.0.0.1'', 33333) \<in> set (listening s')"
  using demo_servers_run [OF assms(1-5)] assms(6)
  by (simp add: rpc_servers_main_def step_simps run_thread_def)

definition demo_idle :: rpc_demo where
  "demo_idle = \<lparr>SERVER_THREADS = [], rpc_server_clients = [], listening = [], printed = []\<rparr>"

theorem rpc_demo_closes_witness:
  "\<exists>waiting end. demo_servers demo_crypto demo_trio (\<lambda>_. lit ''k'') (\<lambda>_ _. None) demo_idle = (Inr (), waiting)
      \<and> length (listening waiting) = 2
      \<and> rpc_servers_main demo_crypto demo_trio (\<lambda>_. lit ''k'') (\<lambda>_ _. None) demo_idle = (Inr 0, end)
      \<and> listening end = []"
proof -
  obtain e x y where made: "server_init demo_crypto demo_trio (str ''Eve'') (lit ''k'') False (\<lambda>_ _. None) = Inr e"
    "client_init demo_crypto demo_trio (str ''Alice'') (lit ''k'') False (\<lambda>_ _. None) = Inr x"
    "client_init demo_crypto demo_trio (str ''Bob'') (lit ''k'') False (\<lambda>_ _. None) = Inr y" using demo_trio_made by blast
  have idle: "SERVER_THREADS demo_idle = []" "(str ''127.0.0.1'', 33333) \<notin> set (listening demo_idle)"
    "(str ''127.0.0.1'', 33334) \<notin> set (listening demo_idle)" by (simp_all add: demo_idle_def)
  have "length (listening (snd (demo_servers demo_crypto demo_trio (\<lambda>_. lit ''k'') (\<lambda>_ _. None) demo_idle))) = 2"
    using demo_servers_run [of demo_crypto demo_trio "\<lambda>_. lit ''k''", OF made idle(1,2)] idle(3) by (simp add: demo_idle_def)
  moreover note rpc_demo_closes [of demo_crypto demo_trio "\<lambda>_. lit ''k''", OF made idle(1,2), unfolded if_not_P [OF idle(3)]]
  ultimately show ?thesis by (auto simp: demo_idle_def)
qed

section \<open>The command line\<close>

text \<open>
  How a program ends: with an exit code, by an exception, or not yet. The command line is a list
  of strings; \<open>argparse\<close> first tells options from values, then takes them from left to right.
\<close>

datatype 'a ending = Exits int | Raises pyexn | Returns 'a

datatype cli_option = User | Destination | Server_url | Long_help | Short_help

definition option_string :: "cli_option \<Rightarrow> pystr" where
  "option_string opt = str (case opt of User \<Rightarrow> ''--user'' | Destination \<Rightarrow> ''--destination'' | Server_url \<Rightarrow> ''--server-url''
     | Long_help \<Rightarrow> ''--help'' | Short_help \<Rightarrow> ''-h'')"

definition cli_options :: "cli_option list" where
  "cli_options = [Short_help, Long_help, User, Destination, Server_url]"

datatype argument = Value pystr | Flag cli_option "pystr option" | Unknown | Ambiguous

definition starts_with :: "pystr \<Rightarrow> pystr \<Rightarrow> bool" where
  "starts_with p s \<longleftrightarrow> take (length p) s = p"

text \<open>\<open>s.split('=', 1)\<close>, if there is an equals sign\<close>

definition before_equals :: "pystr \<Rightarrow> pystr" where
  "before_equals s = takeWhile (\<lambda>c. c \<noteq> 61) s"

definition after_equals :: "pystr \<Rightarrow> pystr option" where
  "after_equals s = (if 61 \<in> set s then Some (tl (dropWhile (\<lambda>c. c \<noteq> 61) s)) else None)"

text \<open>The options that an argument may abbreviate, each with the value that is joined to it.\<close>

definition option_tuples :: "pystr \<Rightarrow> argument list" where
  "option_tuples s =
     (if starts_with [45, 45] s then
        map (\<lambda>opt. Flag opt (after_equals s)) (filter (\<lambda>opt. starts_with (before_equals s) (option_string opt)) cli_options)
      else concat (map (\<lambda>opt. if option_string opt = take 2 s then [Flag opt (Some (drop 2 s))]
        else if starts_with s (option_string opt) then [Flag opt None] else []) cli_options))"

text \<open>A minus sign before decimal digits, with or without a point.\<close>

definition negative_number :: "pystr \<Rightarrow> bool" where
  "negative_number s = (let digit = (\<lambda>c. 48 \<le> c \<and> c \<le> 57); rest = dropWhile digit (tl s) in
     s \<noteq> [] \<and> hd s = 45 \<and> (tl s \<noteq> [] \<and> rest = [] \<or> rest \<noteq> [] \<and> hd rest = 46 \<and> tl rest \<noteq> [] \<and> list_all digit (tl rest)))"

definition parse_optional :: "pystr \<Rightarrow> argument" where
  "parse_optional s =
     (if s = [] \<or> hd s \<noteq> 45 then Value s
      else case filter (\<lambda>opt. option_string opt = s) cli_options of
        opt # _ \<Rightarrow> Flag opt None
      | [] \<Rightarrow> (if length s = 1 then Value s
          else case (if 61 \<in> set s then filter (\<lambda>opt. option_string opt = before_equals s) cli_options else []) of
            opt # _ \<Rightarrow> Flag opt (after_equals s)
          | [] \<Rightarrow> (case option_tuples s of
                _ # _ # _ \<Rightarrow> Ambiguous
              | [t] \<Rightarrow> t
              | [] \<Rightarrow> (if negative_number s \<or> 32 \<in> set s then Value s else Unknown))))"

text \<open>From the separator \<open>--\<close> on there are no options.\<close>

fun classify :: "pystr list \<Rightarrow> argument list" where
  "classify [] = []"
| "classify (s # rest) = (if s = [45, 45] then Unknown # map Value rest else parse_optional s # classify rest)"

record namespace =
  user_arg :: "pystr option"
  destination_arg :: "pystr option"
  server_url_arg :: "pystr option"
  extras :: bool

definition continue_with :: "'a ending \<Rightarrow> ('a \<Rightarrow> 'b ending) \<Rightarrow> 'b ending" where
  "continue_with r f = (case r of Exits n \<Rightarrow> Exits n | Raises e \<Rightarrow> Raises e | Returns x \<Rightarrow> f x)"

text \<open>\<open>parser.error\<close> exits with 2, \<open>--help\<close> with 0.\<close>

definition store_option :: "cli_option \<Rightarrow> pystr \<Rightarrow> namespace \<Rightarrow> namespace ending" where
  "store_option opt v ns =
     (if opt \<in> {User, Destination} \<and> v \<notin> {str ''Bob'', str ''Alice''} then Exits 2
      else Returns (case opt of User \<Rightarrow> ns\<lparr>user_arg := Some v\<rparr> | Destination \<Rightarrow> ns\<lparr>destination_arg := Some v\<rparr>
        | Server_url \<Rightarrow> ns\<lparr>server_url_arg := Some v\<rparr> | _ \<Rightarrow> ns))"

text \<open>What is joined to \<open>-h\<close> is taken for further one-letter options.\<close>

fun joined_help :: "pystr \<Rightarrow> 'a ending" where
  "joined_help [] = Raises IndexError"
| "joined_help (c # rest) = (if c \<noteq> 104 then Exits 2 else if rest = [] then Exits 0 else joined_help rest)"

text \<open>A joined value \<open>--\<close> is removed by the library, which then finds no value to unpack.\<close>

fun take_arguments :: "namespace \<Rightarrow> argument list \<Rightarrow> namespace ending" where
  "take_arguments ns [] = Returns ns"
| "take_arguments ns (Flag opt joined # rest) =
     (if opt = Long_help then Exits (if joined = None then 0 else 2)
      else if opt = Short_help then (case joined of None \<Rightarrow> Exits 0 | Some v \<Rightarrow> joined_help v)
      else (case joined of
        Some v \<Rightarrow> if v = [45, 45] then Raises ValueError
          else continue_with (store_option opt v ns) (\<lambda>ns. take_arguments ns rest)
      | None \<Rightarrow> (case rest of
          Value v # rest' \<Rightarrow> continue_with (store_option opt v ns) (\<lambda>ns. take_arguments ns rest')
        | _ \<Rightarrow> Exits 2)))"
| "take_arguments ns (_ # rest) = take_arguments (ns\<lparr>extras := True\<rparr>) rest"

definition parse_args :: "pystr list \<Rightarrow> (pystr \<times> pystr \<times> pystr) ending" where
  "parse_args args =
     (if Ambiguous \<in> set (classify args) then Exits 2
      else continue_with (take_arguments \<lparr>user_arg = None, destination_arg = None, server_url_arg = None, extras = False\<rparr> (classify args)) (\<lambda>ns.
      case (user_arg ns, destination_arg ns, server_url_arg ns) of
        (Some u, Some d, Some url) \<Rightarrow> if extras ns then Exits 2 else if u = d then Exits 2 else Returns (u, d, url)
      | _ \<Rightarrow> Exits 2))"

text \<open>\<open>ServerProxy(url)\<close> takes the schemes \<open>http\<close> and \<open>https\<close>.\<close>

definition lower :: "nat \<Rightarrow> nat" where
  "lower c = (if 65 \<le> c \<and> c \<le> 90 then c + 32 else c)"

definition url_scheme :: "pystr \<Rightarrow> pystr option" where
  "url_scheme url = (let scheme = takeWhile (\<lambda>c. c \<noteq> 47 \<and> c \<noteq> 58) url; rest = drop (length scheme) url in
     if scheme \<noteq> [] \<and> rest \<noteq> [] \<and> hd rest = 58 then Some (map lower scheme) else None)"

definition server_proxy :: "pystr \<Rightarrow> unit res" where
  "server_proxy url = (if url_scheme url \<in> {Some (str ''http''), Some (str ''https'')} then Inr () else Inl (PyException ''OSError''))"

definition KeyboardInterrupt :: pyexn where
  "KeyboardInterrupt = PyException ''KeyboardInterrupt''"

text \<open>The dialog: the state beside the ending is that of the command line client and of the servers.\<close>

definition cli_main :: "crypto \<Rightarrow> pystr list \<Rightarrow> pyexn \<Rightarrow> (pystr \<times> pystr \<times> world) list \<Rightarrow> rpc_clients \<Rightarrow>
    unit ending \<times> (cli \<times> rpc_clients) option" where
  "cli_main C args e inputs cs = (case parse_args args of
     Exits n \<Rightarrow> (Exits n, None)
   | Raises x \<Rightarrow> (Raises x, None)
   | Returns (user, destination, url) \<Rightarrow> (case server_proxy url of
       Inl x \<Rightarrow> (Raises x, None)
     | Inr _ \<Rightarrow> (case cli_start C e inputs (cli_init user destination, cs) of
         (Inr _, s) \<Rightarrow> (Returns (), Some s)
       | (Inl x, s) \<Rightarrow> if x = KeyboardInterrupt then (Exits 0, Some (snd (cli_stop s))) else (Raises x, Some s))))"

section \<open>What the command line decides\<close>

lemma continue_with_eq: "continue_with r f = Returns y \<longleftrightarrow> (\<exists>x. r = Returns x \<and> f x = Returns y)"
  by (cases r) (simp_all add: continue_with_def)

lemma joined_help_ends: "joined_help v \<noteq> Returns x"
  by (induction v) auto

definition names_ok :: "namespace \<Rightarrow> bool" where
  "names_ok ns \<longleftrightarrow> (\<forall>v. user_arg ns = Some v \<or> destination_arg ns = Some v \<longrightarrow> v \<in> {str ''Bob'', str ''Alice''})"

lemma store_names: "names_ok ns \<Longrightarrow> store_option opt v ns = Returns ns' \<Longrightarrow> names_ok ns'"
  by (cases opt) (auto simp: store_option_def names_ok_def split: if_splits)

lemma names_extras [simp]: "names_ok (ns\<lparr>extras := x\<rparr>) = names_ok ns"
  by (simp add: names_ok_def)

lemma store_then:
  assumes "continue_with (store_option opt v ns) f = Returns ns'" "names_ok ns"
    and "\<And>x. store_option opt v ns = Returns x \<Longrightarrow> names_ok x \<Longrightarrow> f x = Returns ns' \<Longrightarrow> names_ok ns'"
  shows "names_ok ns'"
  using assms store_names by (auto simp: continue_with_eq)

lemma take_names: "names_ok ns \<Longrightarrow> take_arguments ns args = Returns ns' \<Longrightarrow> names_ok ns'"
  by (induction ns args rule: take_arguments.induct)
    (auto simp: joined_help_ends elim!: store_then split: if_splits option.splits list.splits argument.splits)

lemma accepted_names:
  assumes "parse_args args = Returns (u, d, url)"
  shows "{u, d} = {str ''Bob'', str ''Alice''}"
proof -
  let ?ns = "\<lparr>user_arg = None, destination_arg = None, server_url_arg = None, extras = False\<rparr>"
  from assms obtain ns where taken: "take_arguments ?ns (classify args) = Returns ns"
    and decided: "(case (user_arg ns, destination_arg ns, server_url_arg ns) of
        (Some u, Some d, Some url) \<Rightarrow> if extras ns then Exits 2 else if u = d then Exits 2 else Returns (u, d, url)
      | _ \<Rightarrow> Exits 2) = Returns (u, d, url)"
    by (auto simp: parse_args_def continue_with_eq split: if_splits)
  from decided have ns: "user_arg ns = Some u" "destination_arg ns = Some d" "u \<noteq> d"
    by (auto split: if_splits option.splits)
  have "names_ok ns" using take_names [OF _ taken] by (simp add: names_ok_def)
  then show ?thesis using ns by (auto simp: names_ok_def)
qed

text \<open>The three options with values that do not look like options: accepted for two different users, and an error otherwise.\<close>

definition plain_value :: "pystr \<Rightarrow> bool" where
  "plain_value v \<longleftrightarrow> v = [] \<or> hd v \<noteq> 45"

lemma parse_plain: "plain_value v \<Longrightarrow> parse_optional v = Value v \<and> v \<noteq> [45, 45]"
  by (auto simp: plain_value_def parse_optional_def)

lemma parse_exact:
  "parse_optional (str ''--user'') = Flag User None" "parse_optional (str ''--destination'') = Flag Destination None"
  "parse_optional (str ''--server-url'') = Flag Server_url None"
  "str ''--user'' \<noteq> [45, 45]" "str ''--destination'' \<noteq> [45, 45]" "str ''--server-url'' \<noteq> [45, 45]"
  by (simp_all add: parse_optional_def cli_options_def option_string_def str_def)

theorem command_line_decides:
  assumes "plain_value u" "plain_value d" "plain_value url"
  shows "parse_args [str ''--user'', u, str ''--destination'', d, str ''--server-url'', url] =
    (if {u, d} = {str ''Bob'', str ''Alice''} then Returns (u, d, url) else Exits 2)"
  using assms [THEN parse_plain]
  by (auto simp: parse_args_def parse_exact store_option_def continue_with_def doubleton_eq_iff)

section \<open>What the dialog does\<close>

definition prompts :: "pystr \<Rightarrow> nat \<Rightarrow> pystr" where
  "prompts user n = concat (replicate n (10 # str ''[ '' @ user @ str '' ]: ''))"

lemma cli_prompt_shown: "cli_prompt (u, cs) = (Inr (), (u\<lparr>cli_screen := cli_screen u @ prompts (cli_user u) 1\<rparr>, cs))"
  by (simp add: cli_prompt_def print_text_def step_simps prompts_def)

text \<open>A call for a user with a client returns, whatever becomes of the message.\<close>

lemma remote_send_returns:
  assumes "map_of cs user = Some c"
  shows "\<exists>x cs' c'. rpc_send_message C w user destination message cs = (Inr x, cs') \<and> map_of cs' user = Some c'"
  using assms
  by (auto simp: rpc_send_message_def ensure_client_for_def or_else_def on_client_def andThen_def ret_def dset_def update_conv'
      split: sum.splits prod.splits option.splits)

lemma say_returns:
  assumes "map_of cs (cli_user u) = Some c"
  shows "\<exists>cs' c'. cli_say C w input_text now (u, cs) = (Inr (), (u\<lparr>cli_screen := cli_screen u @ prompts (cli_user u) 1\<rparr>, cs'))
    \<and> map_of cs' (cli_user u) = Some c'"
  using remote_send_returns [OF assms, of C w "cli_destination u" "input_text @ str '' @ '' @ now"]
  by (auto simp: cli_say_def cli_prompt_shown remote_def step_simps)

lemma inputs_end:
  "map_of cs (cli_user u) = Some c \<Longrightarrow> \<exists>cs'. cli_inputs C e inputs (u, cs)
    = (Inl e, (u\<lparr>cli_screen := cli_screen u @ prompts (cli_user u) (Suc (length inputs))\<rparr>, cs'))"
proof (induction inputs arbitrary: u cs c)
  case Nil
  then show ?case by (simp add: cli_prompt_shown step_simps prompts_def)
next
  case (Cons x inputs)
  obtain t now w where x: "x = (t, now, w)" by (cases x)
  let ?u = "u\<lparr>cli_screen := cli_screen u @ prompts (cli_user u) 1\<rparr>"
  obtain cs' c' where say: "cli_say C w t now (u, cs) = (Inr (), (?u, cs'))" "map_of cs' (cli_user ?u) = Some c'"
    using say_returns [OF Cons.prems, of C w t now] by auto
  from Cons.IH [OF say(2)] say(1) show ?case by (auto simp: x step_simps prompts_def)
qed



end
