(* ===== verification/Spec2Isabelle.thy ===== *)
theory Spec2Isabelle
  imports Golay Json_Roundtrip Connection Mailbox User_DB Cryptobox Core Core_Run Server Server_Run Lookup
    BB84_Key DIQKD_Key Dense Ordering Dense_Order Client Client_Session Chat Dense_Session Client_Run Rpc
    First_Chat Network Dense_Network Key_Network Examples Rpc_Demo
begin

text \<open>
  QChat is a chat over a classical network whose message keys are agreed on with a quantum
  network. Each host runs a core with a connection, a user database and a signer. The registry
  (\<^verbatim>\<open>server.py\<close>) is the host that all others register with and the source of the EPR pairs; a client
  (\<^verbatim>\<open>client.py\<close>) adds a mailbox and an outbound queue, and leads or follows the quantum protocols
  (\<^verbatim>\<open>protocols.py\<close>) with a peer. Hosts exchange framed JSON messages (\<^verbatim>\<open>messages.py\<close>,
  \<^verbatim>\<open>connection.py\<close>). The library is under \<^verbatim>\<open>src/qchat/\<close>,
  the programs that use it under \<^verbatim>\<open>src/examples/\<close>.

  \<^bold>\<open>Theories and code.\<close>

  \<^item> \<open>Py_Base\<close>, \<open>Py_State\<close>: the Python the rest uses. Values are \<open>pyval\<close>, a string is its list of code
    points, a dictionary an association list in insertion order, an exception the left side of
    a sum. A method is a step from the object's state to a result and the new state. The
    interfaces \<open>fifo\<close>, \<open>buffer\<close> and \<open>codec\<close> are locales of \<open>Py_Base\<close>.
  \<^item> \<open>Codec\<close>, \<open>Json\<close>, \<open>Json_Roundtrip\<close>: UTF-8, Latin-1, big-endian integers, \<^verbatim>\<open>json.dumps\<close> and \<^verbatim>\<open>json.loads\<close>,
    with their round trips as instances of \<open>codec\<close>.
  \<^item> \<open>Messages\<close> (\<^verbatim>\<open>messages.py\<close>) and \<open>Connection\<close> (\<^verbatim>\<open>connection.py\<close>): constructor, wire form, factory;
    the handler that reads a frame from a fragmented stream, the inbound queue (a \<open>fifo\<close>).
  \<^item> \<open>Mailbox\<close> (\<^verbatim>\<open>mailbox.py\<close>, a \<open>buffer\<close>) and \<open>User_DB\<close> (\<^verbatim>\<open>db.py\<close>, the locale \<open>user_store\<close>, refining a map of
    field maps).
  \<^item> \<open>Cryptobox\<close> (\<^verbatim>\<open>cryptobox.py\<close>): the wrappers, over a record of the library's functions.
  \<^item> \<open>Core\<close> (\<^verbatim>\<open>core.py\<close>): the record \<open>core\<close>, signing and verifying, the handlers that server and client
    share, \<open>process_message\<close>, registration and requests. \<open>Server\<close> (\<^verbatim>\<open>server.py\<close>) adds registration
    and the EPR source. \<open>Lookup\<close>: a host, the registry and the messages between them, from a request
    to the first signed message of the user asked for.
  \<^item> \<open>Core_Run\<close>, \<open>Server_Run\<close>, \<open>Client_Run\<close>: registry and client as state machines whose steps are the
    operations above in any order (\<open>server_reaches\<close>, \<open>client_reaches\<close>). The locales \<open>core_steps\<close> and
    \<open>client_steps\<close> say what an invariant has to be kept by, single updates, and give that every
    operation keeps it; they are interpreted on the well-formedness of the state and on the origin of
    the stored messages.
  \<^item> \<open>Ecc\<close>, \<open>Block_Code\<close>, \<open>Golay\<close> (\<^verbatim>\<open>ecc.py\<close>): syndromes, the table that the constructor fills, decoding;
    \<open>block_code\<close> is the contract, interpreted on the constructed Golay object.
  \<^item> \<open>Process\<close>, \<open>Protocol_Base\<close>: a protocol is an interaction tree (\<open>proc\<close>) of sends, waits, random draws
    and quantum calls; a session runs two trees against each other through two queues. The base
    classes of \<^verbatim>\<open>protocols.py\<close> and the devices of \<^verbatim>\<open>device.py\<close>.
  \<^item> \<open>BB84\<close>, \<open>BB84_Correct\<close>, \<open>BB84_Key\<close>, \<open>Device_Independent\<close>, \<open>DIQKD_Key\<close>, \<open>Dense\<close>: the classes \<open>BB84_Purified\<close>,
    \<open>DIQKD\<close> and \<open>SuperDenseCoding\<close>, and what sessions of them achieve. \<open>Ordering\<close>, \<open>Dense_Order\<close>: sessions
    whose messages may overtake each other.
  \<^item> \<open>Client\<close>, \<open>Client_Session\<close>, \<open>Chat\<close> (\<^verbatim>\<open>client.py\<close>): the client's operations, the protocols inside them,
    chat messages from text to history; \<open>Dense_Session\<close> the same for a superdense message, \<open>First_Chat\<close> for
    the first text to a peer, with which there is no key yet. \<open>Rpc\<close> (\<^verbatim>\<open>rpc.py\<close>): the remote calls and the command line client.
  \<^item> \<open>Network\<close>, \<open>Dense_Network\<close>, \<open>Key_Network\<close>: two clients with the single steps of their threads (\<open>host_step\<close>): the
    protocol's thread, the sending thread, the listening and the reading thread, and the handlers; \<open>net_step\<close>
    is a step of either, with the frames on the way between them.
  \<^item> \<open>Examples\<close> (\<^verbatim>\<open>bb84_message.py\<close>, \<^verbatim>\<open>superdense_message.py\<close>) and \<open>Rpc_Demo\<close> (\<^verbatim>\<open>rpc_demo/start_rpc_servers.py\<close>,
    \<^verbatim>\<open>rpc_demo/qchat_cli_rpc_client.py\<close>): the main programs.

  \<^bold>\<open>What the lemmas show.\<close>

  \<^item> Wire: a frame is read back as the message it was written for, for every fragmentation of its
    payload; short, long and malformed frames are refused and leave the queue and the other
    connections alone; which names and fragmentations the format does not carry.
  \<^item> Stores: the mailbox loses and duplicates nothing under any interleaving, the database refines
    a map, keeps its invariant, and its odd corners (emptied records, keys as text) are exact.
  \<^item> Codes: the Golay object corrects three errors with the peer's syndrome and never raises;
    the Hamming object can neither be constructed nor encode.
  \<^item> Hosts: the handler of a verified class runs exactly for authentic messages; signed messages
    arrive; the registry keeps the first key of a user and serves what was registered; an
    unverified \<open>PUTU\<close> replaces a key; waiting and registering have no other effects; a lookup at the
    registry ends with a host that knows the user and accepts what the user signs.
  \<^item> Runs: in every reachable state of registry and client the database is well-formed and the
    queues and the mailbox hold only what their readers expect; each stored chat message, and each
    control message, was verified under the key held for its sender.
  \<^item> Protocols: the schedule of a session does not matter; each phase leaves both parties with
    related results, noisy channel or not; when no code word has more errors than the code corrects,
    both key loops end with equal keys of the requested length; superdense coding delivers every
    byte string. Messages that overtake each other cannot disturb BB84, which never has two on the
    way, nor superdense coding, whose messages on the way are equal; they can break the
    device-independent test.
  \<^item> Clients: both databases hold the same key after an establishment, a chat message ends up in
    the peer's history byte for byte, from the typed line to the printed one, and so does a
    superdense message; what is lost when something raises.
  \<^item> Network: every state that the threads of two clients reach, in any interleaving, is that of a session of
    their two protocol threads (a simulation), so that what holds of sessions holds of the network; a
    BB84 key establishment and a superdense message can be completed from every state on the way and end in no other
    way. That their messages fit into frames is shown with \<open>tells\<close>, a property of programs that bounds what they send.
  \<^item> Programs: both examples print both messages, from the lookups on; the demo's servers serve the two
    clients and are closed after the interrupt; the command line admits two different users, and which
    exceptions leave a thread running.

  \<^bold>\<open>Hypotheses and parameters.\<close> The cryptography library is a record with the laws \<open>signatures_ok\<close>,
  \<open>import_text_ok\<close>, \<open>encryption_ok\<close>, \<open>key_sizes_ok\<close>, \<open>cipher_sizes\<close>; \<open>demo_crypto\<close> has them all. The quantum
  network answers from a tape: a value per measurement or call, or its exception. What
  entanglement makes of the measurements is a hypothesis on the tapes (\<open>good_channel\<close>: test
  positions below the threshold and kept bits that the code can correct; \<open>good_device\<close>: rounds that pass
  the CHSH test, and the same), except in superdense coding, where the outcome is computed on the state vector. Both
  hold on instances with errors (\<open>demo_channel\<close>, \<open>demo_device\<close>). What the XML-RPC library makes of a
  history is the argument \<open>transport\<close>. Random draws are on the tape as well; a draw outside its range has no step. A clock is not modelled: a wait ends
  with a message or, in a client, with the list of arrivals.

  \<^bold>\<open>Bounds and fuel.\<close> The JSON scanner has as much fuel as the text is long, which is enough for
  every text (\<open>jvalue_fuel_enough\<close>). The three loops of the key protocols take fuel: a distillation
  adds at least one bit, so 23 turns fill a code word, one code word covers the 16 bits of a
  turn of the second loop, and each turn of the outer one adds a byte; \<open>23 + n\<close> is enough for a key
  of \<open>n\<close> bytes. Fuel that runs out is the program \<open>Stuck\<close>, which no completed session contains.
  Error rates and winning rates are compared as rationals: the quotients of these small integers
  compare with the thresholds as the floating-point values do. The rounds outside a test sample
  are listed in ascending order.

  \<^bold>\<open>Concurrency.\<close> A message is handled in a thread of its own. The state machines let a handler run at
  any time after its message was taken, in any order and beside the calls of the user; a handler
  or call runs to its end before the next, except where it waits: there it is given the states that
  others leave (\<open>turns\<close>) or the messages that arrive (\<open>arrivals\<close>). The theorems about sessions keep the
  control messages of a peer in order; \<open>Ordering\<close> and \<open>Dense_Order\<close> say for which protocols that is
  no restriction. \<open>Network\<close> has the finer grain: each step is one of a single thread, for two clients that
  know each other. Its steps leave out waits that time out and sends that fail.

  \<^bold>\<open>Not modelled.\<close> Creating sockets, starting threads, reading the configuration file (its content is
  an argument), logging (\<^verbatim>\<open>log.py\<close>), the XML-RPC library, tests and packaging: they call the library or do input and
  output only. Of the standard library's \<^verbatim>\<open>argparse\<close> there is what the command line program uses of it, as of
  Python 3.6, with the ASCII digits for its negative numbers. The keyboard's interrupt comes while the dialog waits for a line.
  The simulator behind the quantum library and the cryptography library are not part of the
  repository.
\<close>

end
